(* ===== verification/Prelude.thy ===== *)
theory Prelude
  imports Main "HOL-Library.Word" "HOL-Library.Multiset"
    "HOL-Library.Char_ord" "HOL-Library.List_Lexorder"
begin

text \<open>
  Shared ground of the development: the machine integers of the crate (\<open>u64\<close>, \<open>usize\<close> on a
  64-bit target, \<open>u32\<close>, \<open>u16\<close>, \<open>u8\<close>) as fixed-width words with Rust's saturating and checked
  operations, \<open>Vec<u8>\<close> as a list of bytes, \<open>Result<T, E>\<close> as a sum type whose left side is the
  error, and the few generic list facts the components share. Nothing here models a particular
  source file; the definitions are the standard-library operations the source calls.
\<close>

section \<open>Collections of facts\<close>

named_theorems u64_simps \<open>comparison and arithmetic of machine words, read as natural numbers\<close>
named_theorems cdn_defs \<open>definitions of straight-line operations, unfolded by the component proofs\<close>

section \<open>Types\<close>

type_synonym u8 = "8 word"
type_synonym u16 = "16 word"
type_synonym u32 = "32 word"
type_synonym u64 = "64 word"
type_synonym usize = "64 word"
type_synonym bytes = "8 word list"
type_synonym node_id = "8 word list"

text \<open>
  A \<open>Result\<close> is \<open>Inl\<close> of the error or \<open>Inr\<close> of the value. The crate's \<open>anyhow::Error\<close> is
  only ever rendered with \<open>to_string\<close>, so an error is its message.
\<close>

type_synonym 'a result = "string + 'a"

section \<open>Machine integers\<close>

definition u64_MAX :: u64 where
  "u64_MAX = - 1"

definition sat_add :: "'a::len word \<Rightarrow> 'a word \<Rightarrow> 'a word" where
  "sat_add a b = (if unat a + unat b < 2 ^ LENGTH('a) then a + b else - 1)"

definition sat_sub :: "'a::len word \<Rightarrow> 'a word \<Rightarrow> 'a word" where
  "sat_sub a b = (if a < b then 0 else a - b)"

definition sat_mul :: "'a::len word \<Rightarrow> 'a word \<Rightarrow> 'a word" where
  "sat_mul a b = (if unat a * unat b < 2 ^ LENGTH('a) then a * b else - 1)"

definition checked_add :: "'a::len word \<Rightarrow> 'a word \<Rightarrow> 'a word option" where
  "checked_add a b = (if unat a + unat b < 2 ^ LENGTH('a) then Some (a + b) else None)"

text \<open>\<open>bytes.len() as u64\<close>, and the bound Rust puts on the length of every \<open>Vec\<close>.\<close>

definition len64 :: "'a list \<Rightarrow> u64" where
  "len64 xs = of_nat (length xs)"

definition vec_ok :: "'a list \<Rightarrow> bool" where
  "vec_ok xs \<longleftrightarrow> length xs < 2 ^ 63"

lemma unat_minus_one_word: "unat (- 1 :: 'a::len word) = 2 ^ LENGTH('a) - 1"
  by (simp add: unsigned_minus_1_eq_mask mask_eq_exp_minus_1)

lemma unat_le_max: "unat a \<le> 2 ^ LENGTH('a) - 1" for a :: "'a::len word"
  using unsigned_less [of a, where ?'a = nat] by linarith

lemma unat_u64_MAX [u64_simps]: "unat u64_MAX = 2 ^ 64 - 1"
  by (simp add: u64_MAX_def unat_minus_one_word)

lemma le_u64_MAX [simp]: "x \<le> u64_MAX"
  by (simp add: u64_MAX_def)

lemma unat_lt_2p64 [simp]: "unat (x :: u64) < 2 ^ 64"
  using unsigned_less [of x] by simp

lemma unat_sat_add: "unat (sat_add a b) = min (unat a + unat b) (2 ^ LENGTH('a) - 1)"
  for a b :: "'a::len word"
  by (auto simp: sat_add_def unat_word_ariths unat_minus_one_word)

lemma unat_sat_sub [u64_simps]: "unat (sat_sub a b) = unat a - unat b"
  for a b :: "'a::len word"
  by (auto simp: sat_sub_def word_less_nat_alt unat_sub_if_size)

lemma unat_sat_mul: "unat (sat_mul a b) = min (unat a * unat b) (2 ^ LENGTH('a) - 1)"
  for a b :: "'a::len word"
  by (auto simp: sat_mul_def unat_word_ariths unat_minus_one_word)

lemma sat_add_ge [simp]: "a \<le> sat_add a b" for a b :: "'a::len word"
  using unat_le_max [of a] by (simp add: word_le_nat_alt unat_sat_add)

lemma checked_add_Some:
  "checked_add a b = Some c \<Longrightarrow> unat c = unat a + unat b" for a b :: "'a::len word"
  by (auto simp: checked_add_def unat_word_ariths split: if_splits)

lemma checked_add_None:
  "checked_add a b = None \<longleftrightarrow> 2 ^ LENGTH('a) \<le> unat a + unat b" for a b :: "'a::len word"
  by (auto simp: checked_add_def)

lemma unat_len64 [u64_simps]: "vec_ok xs \<Longrightarrow> unat (len64 xs) = length xs"
  by (simp add: len64_def vec_ok_def unat_of_nat)

lemma len64_Nil [simp]: "len64 [] = 0"
  by (simp add: len64_def)

lemma unat_plus_one: "a \<noteq> u64_MAX \<Longrightarrow> unat (a + 1) = unat a + 1" for a :: u64
  using unat_lt_2p64 [of a] by (auto simp: u64_MAX_def unat_word_ariths word_unat_eq_iff
      unat_minus_one_word mod_if)

lemma less_plus_one_u64: "a \<noteq> u64_MAX \<Longrightarrow> a < a + 1" for a :: u64
  by (simp add: word_less_nat_alt unat_plus_one)

section \<open>Slices\<close>

text \<open>
  \<open>v[a..b]\<close> and \<open>v[a..=b]\<close> panic when the bounds are out of range; a panic is \<open>None\<close>.
\<close>

definition slice_excl :: "'a list \<Rightarrow> nat \<Rightarrow> nat \<Rightarrow> 'a list option" where
  "slice_excl xs a b = (if a \<le> b \<and> b \<le> length xs then Some (take (b - a) (drop a xs)) else None)"

definition slice_incl :: "'a list \<Rightarrow> nat \<Rightarrow> nat \<Rightarrow> 'a list option" where
  "slice_incl xs a b = slice_excl xs a (Suc b)"

lemma slice_incl_Some:
  "a \<le> b \<Longrightarrow> b < length xs \<Longrightarrow> slice_incl xs a b = Some (take (Suc b - a) (drop a xs))"
  by (simp add: slice_incl_def slice_excl_def)

lemma length_slice_incl: "slice_incl xs a b = Some ys \<Longrightarrow> length ys = Suc b - a"
  by (auto simp: slice_incl_def slice_excl_def split: if_splits)

text \<open>Two adjacent inclusive slices join to the slice of the union.\<close>

lemma slice_join:
  assumes "a \<le> m" "m < b"
  shows "take (Suc m - a) (drop a xs) @ take (Suc b - Suc m) (drop (Suc m) xs)
       = take (Suc b - a) (drop a xs)"
proof -
  have "Suc b - a = (Suc m - a) + (Suc b - Suc m)" using assms by simp
  moreover have "drop (Suc m - a) (drop a xs) = drop (Suc m) xs" using assms by simp
  ultimately show ?thesis by (simp only: take_add)
qed

section \<open>Lists\<close>

text \<open>The elements at a closed interval of positions are a slice.\<close>

lemma nths_interval: "nths xs {a..b} = take (Suc b - a) (drop a xs)"
proof (induction a arbitrary: b xs)
  case 0
  have "{0..b} = {..<Suc b}" by auto
  then show ?case by (simp only: nths_upt_eq_take) simp
next
  case (Suc a)
  show ?case
  proof (cases xs)
    case (Cons y ys)
    have "{j. Suc j \<in> {Suc a..b}} = (if b = 0 then {} else {a..b - 1})" by auto
    then show ?thesis using Suc Cons by (auto simp: nths_Cons)
  qed simp
qed

text \<open>A key that sorts strictly last stays last under a stable sort.\<close>

lemma sort_key_snoc_max:
  assumes "\<forall>y \<in> set xs. f y \<le> f x"
  shows "sort_key f (xs @ [x]) = sort_key f xs @ [x]"
proof (rule properties_for_sort_key)
  show "mset (sort_key f xs @ [x]) = mset (xs @ [x])" by simp
  show "sorted (map f (sort_key f xs @ [x]))"
    using assms by (auto simp: sorted_append)
  fix k
  show "filter (\<lambda>y. f k = f y) (sort_key f xs @ [x]) = filter (\<lambda>y. f k = f y) (xs @ [x])"
    by (simp add: filter_sort [symmetric] sort_key_stable eq_commute [of "f k"])
qed

lemma sum_list_filter_le: "sum_list (map f (filter P xs)) \<le> sum_list (map f xs)"
  for f :: "'a \<Rightarrow> nat"
  by (induction xs) auto

text \<open>A distinct image and a sum do not depend on the order of the list.\<close>

lemma distinct_map_mset: "mset xs = mset ys \<Longrightarrow> distinct (map f xs) = distinct (map f ys)"
  by (rule mset_eq_imp_distinct_iff) simp

lemma sum_list_mset: "mset xs = mset ys \<Longrightarrow> sum_list (map f xs) = sum_list (map f ys)"
  for f :: "'a \<Rightarrow> nat"
  by (metis mset_map sum_mset_sum_list)

end
