(* ===== verification/Rust_Collections.thy ===== *)
theory Rust_Collections
  imports Prelude "HOL-Library.AList"
begin

text \<open>
  The two dictionaries of the crate. A \<open>HashMap\<close> is an association list with distinct keys whose
  order stands for the map's unspecified iteration order; a \<open>BTreeMap\<close> is an association list
  kept in strictly increasing key order, which is the order it iterates in. Both satisfy the same
  contract, the locale \<open>dict\<close>; the facts that only need the contract are proved once, inside it.
\<close>

section \<open>The contract of a dictionary\<close>

locale dict =
  fixes get :: "'m \<Rightarrow> 'k \<Rightarrow> 'v option"
    and put :: "'k \<Rightarrow> 'v \<Rightarrow> 'm \<Rightarrow> 'm"
    and del :: "'k \<Rightarrow> 'm \<Rightarrow> 'm"
    and keys :: "'m \<Rightarrow> 'k list"
    and ok :: "'m \<Rightarrow> bool"
  assumes get_put: "ok m \<Longrightarrow> get (put k v m) k' = (if k' = k then Some v else get m k')"
    and get_del: "ok m \<Longrightarrow> get (del k m) k' = (if k' = k then None else get m k')"
    and set_keys: "ok m \<Longrightarrow> set (keys m) = {k. get m k \<noteq> None}"
    and distinct_keys: "ok m \<Longrightarrow> distinct (keys m)"
    and ok_put: "ok m \<Longrightarrow> ok (put k v m)"
    and ok_del: "ok m \<Longrightarrow> ok (del k m)"
begin

lemma size_keys: "ok m \<Longrightarrow> length (keys m) = card {k. get m k \<noteq> None}"
  using set_keys [of m] distinct_keys [of m] distinct_card by fastforce

lemma finite_keys: "ok m \<Longrightarrow> finite {k. get m k \<noteq> None}"
  using set_keys [of m] finite_set by metis

lemma size_put:
  assumes "ok m"
  shows "length (keys (put k v m)) = (if get m k = None then Suc (length (keys m)) else length (keys m))"
proof -
  have "{k'. get (put k v m) k' \<noteq> None} = insert k {k'. get m k' \<noteq> None}"
    using assms by (auto simp: get_put)
  then show ?thesis
    using assms finite_keys [OF assms] by (auto simp: size_keys ok_put card_insert_if)
qed

lemma size_del:
  assumes "ok m"
  shows "length (keys (del k m)) = (if get m k = None then length (keys m) else length (keys m) - 1)"
proof -
  have "{k'. get (del k m) k' \<noteq> None} = {k'. get m k' \<noteq> None} - {k}"
    using assms by (auto simp: get_del)
  then show ?thesis
    using assms finite_keys [OF assms] by (auto simp: size_keys ok_del card_Diff_singleton)
qed

lemma keys_put: "ok m \<Longrightarrow> set (keys (put k v m)) = insert k (set (keys m))"
  by (auto simp: set_keys ok_put get_put)

lemma keys_del: "ok m \<Longrightarrow> set (keys (del k m)) = set (keys m) - {k}"
  by (auto simp: set_keys ok_del get_del)

text \<open>A map whose values all satisfy a predicate keeps it when only such values are stored.\<close>

lemma values_put:
  "ok m \<Longrightarrow> (\<forall>k v. get m k = Some v \<longrightarrow> P k v) \<Longrightarrow> P k v \<Longrightarrow>
     (\<forall>k' v'. get (put k v m) k' = Some v' \<longrightarrow> P k' v')"
  by (auto simp: get_put)

lemma values_del:
  "ok m \<Longrightarrow> (\<forall>k v. get m k = Some v \<longrightarrow> P k v) \<Longrightarrow>
     (\<forall>k' v'. get (del k m) k' = Some v' \<longrightarrow> P k' v')"
  by (auto simp: get_del)

end

section \<open>HashMap\<close>

type_synonym 'v hashmap = "(string \<times> 'v) list"

definition hm_ok :: "('k \<times> 'v) list \<Rightarrow> bool" where
  "hm_ok m \<longleftrightarrow> distinct (map fst m)"

definition hm_get :: "('k \<times> 'v) list \<Rightarrow> 'k \<Rightarrow> 'v option" where
  "hm_get m k = map_of m k"

definition hm_insert :: "'k \<Rightarrow> 'v \<Rightarrow> ('k \<times> 'v) list \<Rightarrow> ('k \<times> 'v) list" where
  "hm_insert k v m = AList.update k v m"

definition hm_remove :: "'k \<Rightarrow> ('k \<times> 'v) list \<Rightarrow> ('k \<times> 'v) list" where
  "hm_remove k m = filter (\<lambda>(k', v). k' \<noteq> k) m"

text \<open>\<open>HashMap::retain\<close>: keep the entries that satisfy a predicate.\<close>

definition hm_retain :: "('k \<Rightarrow> 'v \<Rightarrow> bool) \<Rightarrow> ('k \<times> 'v) list \<Rightarrow> ('k \<times> 'v) list" where
  "hm_retain P m = filter (\<lambda>(k, v). P k v) m"

lemma hm_remove_fst: "hm_remove k m = filter (\<lambda>p. fst p \<noteq> k) m"
  by (auto simp: hm_remove_def intro: filter_cong)

lemma hm_remove_delete: "hm_remove k m = AList.delete k m"
  by (auto simp: hm_remove_def AList.delete_eq intro: filter_cong)

lemma hm_ok_Nil [simp]: "hm_ok []"
  by (simp add: hm_ok_def)

lemma hm_ok_filter: "hm_ok m \<Longrightarrow> hm_ok (filter P m)"
  by (induction m) (auto simp: hm_ok_def)

lemma hm_ok_retain: "hm_ok m \<Longrightarrow> hm_ok (hm_retain P m)"
  by (simp add: hm_retain_def hm_ok_filter)

lemma hm_get_in: "hm_get m k = Some v \<Longrightarrow> (k, v) \<in> set m"
  by (auto simp: hm_get_def map_of_SomeD)

lemma hm_in_get: "hm_ok m \<Longrightarrow> (k, v) \<in> set m \<Longrightarrow> hm_get m k = Some v"
  by (simp add: hm_get_def hm_ok_def)

lemma hm_get_retain:
  "hm_ok m \<Longrightarrow> hm_get (hm_retain P m) k =
     (case hm_get m k of None \<Rightarrow> None | Some v \<Rightarrow> if P k v then Some v else None)"
  by (induction m)
     (auto simp: hm_get_def hm_retain_def hm_ok_def map_of_eq_None_iff split: option.splits)

interpretation hm: dict hm_get hm_insert hm_remove "map fst" hm_ok
proof
  fix m :: "('k \<times> 'v) list" and k k' v
  assume ok: "hm_ok m"
  show "hm_get (hm_insert k v m) k' = (if k' = k then Some v else hm_get m k')"
    by (simp add: hm_get_def hm_insert_def update_conv')
  show "hm_get (hm_remove k m) k' = (if k' = k then None else hm_get m k')"
    by (simp add: hm_get_def hm_remove_delete delete_conv')
  show "set (map fst m) = {k. hm_get m k \<noteq> None}"
    by (auto simp: hm_get_def map_of_eq_None_iff)
  show "distinct (map fst m)" using ok by (simp add: hm_ok_def)
  show "hm_ok (hm_insert k v m)"
    using ok by (simp add: hm_ok_def hm_insert_def distinct_update)
  show "hm_ok (hm_remove k m)" using ok by (simp add: hm_remove_def hm_ok_filter)
qed

lemma hm_remove_absent: "hm_get m k = None \<Longrightarrow> hm_remove k m = m"
  by (force simp: hm_get_def hm_remove_def map_of_eq_None_iff filter_id_conv)

lemma hm_insert_absent: "hm_get m k = None \<Longrightarrow> hm_insert k v m = m @ [(k, v)]"
  by (induction m) (auto simp: hm_get_def hm_insert_def split: if_splits)

lemma length_hm_remove_le: "length (hm_remove k m) \<le> length m"
  by (simp add: hm_remove_def)

lemma length_hm_remove_less: "hm_get m k \<noteq> None \<Longrightarrow> length (hm_remove k m) < length m"
  by (auto simp: hm_get_def hm_remove_def dest!: map_of_SomeD intro!: length_filter_less)

lemma sum_hm_remove:
  fixes f :: "'k \<times> 'v \<Rightarrow> nat"
  shows "hm_ok m \<Longrightarrow> hm_get m k = Some v \<Longrightarrow>
     sum_list (map f m) = f (k, v) + sum_list (map f (hm_remove k m))"
proof (induction m)
  case (Cons p m)
  obtain k' v' where p: "p = (k', v')" by (cases p)
  show ?case
  proof (cases "k' = k")
    case True
    with Cons.prems p have "hm_get m k = None"
      by (simp add: hm_ok_def hm_get_def map_of_eq_None_iff)
    with True Cons.prems p hm_remove_absent [of m k] show ?thesis
      by (simp add: hm_get_def hm_remove_def)
  next
    case False
    with Cons p show ?thesis by (simp add: hm_ok_def hm_get_def hm_remove_def)
  qed
qed (simp add: hm_get_def)

text \<open>Up to iteration order, inserting is removing the key and adding the pair.\<close>

lemma mset_hm_insert:
  "hm_ok m \<Longrightarrow> mset (hm_insert k v m) = add_mset (k, v) (mset (hm_remove k m))"
proof (induction m)
  case (Cons p m)
  obtain k' v' where p: "p = (k', v')" by (cases p)
  show ?case
  proof (cases "k' = k")
    case True
    with Cons.prems p have "hm_get m k = None"
      by (simp add: hm_ok_def hm_get_def map_of_eq_None_iff)
    with True p hm_remove_absent [of m k] show ?thesis
      by (simp add: hm_insert_def hm_remove_def)
  next
    case False
    with Cons p show ?thesis by (simp add: hm_ok_def hm_insert_def hm_remove_def)
  qed
qed (simp add: hm_insert_def hm_remove_def)

lemma set_hm_insert: "hm_ok m \<Longrightarrow> set (hm_insert k v m) = insert (k, v) (set (hm_remove k m))"
  using mset_hm_insert [of m k v] by (metis set_mset_add_mset_insert set_mset_mset)

lemma hm_ok_insert [simp]: "hm_ok m \<Longrightarrow> hm_ok (hm_insert k v m)"
  by (rule hm.ok_put)

lemma hm_ok_remove [simp]: "hm_ok m \<Longrightarrow> hm_ok (hm_remove k m)"
  by (rule hm.ok_del)

lemma hm_get_insert [simp]:
  "hm_ok m \<Longrightarrow> hm_get (hm_insert k v m) k' = (if k' = k then Some v else hm_get m k')"
  by (rule hm.get_put)

lemma hm_get_remove [simp]:
  "hm_ok m \<Longrightarrow> hm_get (hm_remove k m) k' = (if k' = k then None else hm_get m k')"
  by (rule hm.get_del)

lemma hm_remove_idem [simp]: "hm_remove k (hm_remove k m) = hm_remove k m"
  by (simp add: hm_remove_def)

lemma hm_remove_insert: "hm_ok m \<Longrightarrow> hm_remove k (hm_insert k v m) = hm_remove k m"
  by (induction m)
     (auto simp: hm_insert_def hm_remove_def hm_ok_def filter_id_conv map_of_eq_None_iff)

section \<open>BTreeMap\<close>

type_synonym 'v btreemap = "(string \<times> 'v) list"

definition bt_ok :: "('k::linorder \<times> 'v) list \<Rightarrow> bool" where
  "bt_ok m \<longleftrightarrow> sorted_wrt (<) (map fst m)"

definition bt_get :: "('k \<times> 'v) list \<Rightarrow> 'k \<Rightarrow> 'v option" where
  "bt_get m k = map_of m k"

fun bt_insert :: "'k::linorder \<Rightarrow> 'v \<Rightarrow> ('k \<times> 'v) list \<Rightarrow> ('k \<times> 'v) list" where
  "bt_insert k v [] = [(k, v)]"
| "bt_insert k v ((k', v') # m) =
     (if k < k' then (k, v) # (k', v') # m
      else if k = k' then (k, v) # m
      else (k', v') # bt_insert k v m)"

definition bt_remove :: "'k \<Rightarrow> ('k \<times> 'v) list \<Rightarrow> ('k \<times> 'v) list" where
  "bt_remove k m = filter (\<lambda>(k', v). k' \<noteq> k) m"

lemma bt_ok_Nil [simp]: "bt_ok []"
  by (simp add: bt_ok_def)

lemma fst_bt_insert: "fst ` set (bt_insert k v m) = insert k (fst ` set m)"
  by (induction k v m rule: bt_insert.induct) auto

lemma bt_ok_insert: "bt_ok m \<Longrightarrow> bt_ok (bt_insert k v m)"
proof (induction k v m rule: bt_insert.induct)
  case (2 k v k' v' m)
  have "\<forall>x \<in> fst ` set (bt_insert k v m). k' < x" if "\<not> k < k'" "k \<noteq> k'"
    using 2 that by (auto simp: fst_bt_insert bt_ok_def)
  with 2 show ?case by (auto simp: bt_ok_def)
qed (simp add: bt_ok_def)

lemma bt_get_insert: "bt_ok m \<Longrightarrow> bt_get (bt_insert k v m) k' = (if k' = k then Some v else bt_get m k')"
  by (induction k v m rule: bt_insert.induct) (auto simp: bt_get_def bt_ok_def)

lemma bt_ok_distinct: "bt_ok m \<Longrightarrow> distinct (map fst m)"
  by (simp add: bt_ok_def strict_sorted_iff)

interpretation bt: dict bt_get bt_insert bt_remove "map fst" bt_ok
proof
  fix m :: "('k::linorder \<times> 'v) list" and k k' v
  assume ok: "bt_ok m"
  show "bt_get (bt_insert k v m) k' = (if k' = k then Some v else bt_get m k')"
    using ok by (rule bt_get_insert)
  show "bt_get (bt_remove k m) k' = (if k' = k then None else bt_get m k')"
    using hm.get_del [of m k k'] bt_ok_distinct [OF ok]
    by (simp add: bt_get_def bt_remove_def hm_get_def hm_remove_def hm_ok_def)
  show "set (map fst m) = {k. bt_get m k \<noteq> None}"
    by (auto simp: bt_get_def map_of_eq_None_iff)
  show "distinct (map fst m)" using ok by (rule bt_ok_distinct)
  show "bt_ok (bt_insert k v m)" using ok by (rule bt_ok_insert)
  show "bt_ok (bt_remove k m)"
    using ok by (induction m) (auto simp: bt_ok_def bt_remove_def)
qed

end
