(* ===== verification/Inflight.thy ===== *)
theory Inflight
  imports Rust_Collections
begin

text \<open>
  Model of \<open>ServerState::inflight_lock\<close> in \<open>src/server.rs\<close>: the map from content ids to the locks that
  make concurrent cold misses wait for one another, pruned when it grows. An \<open>Arc\<close> is a lock number;
  its strong count is the number of map entries and of task handles that point to it. The theorem is
  what \<open>Single_Flight\<close> builds on: all tasks that hold a lock for one content id hold the same one.
\<close>

section \<open>The map of locks\<close>

type_synonym lock_id = nat

text \<open>A handle is what a task got: the task, the content id it asked for, the lock.\<close>

record inflight =
  if_map :: "(string \<times> lock_id) list"
  if_held :: "(nat \<times> string \<times> lock_id) list"
  if_next :: lock_id

definition inflight_new :: inflight where
  "inflight_new = \<lparr>if_map = [], if_held = [], if_next = 0\<rparr>"

definition strong_count :: "inflight \<Rightarrow> lock_id \<Rightarrow> nat" where
  "strong_count s l = length (filter (\<lambda>(c, l'). l' = l) (if_map s))
     + length (filter (\<lambda>(t, c, l'). l' = l) (if_held s))"

definition inflight_lock :: "nat \<Rightarrow> string \<Rightarrow> inflight \<Rightarrow> lock_id \<times> inflight" where
  "inflight_lock t cid s =
     (let m = (if length (if_map s) > 1024 then hm_retain (\<lambda>c l. strong_count s l > 1) (if_map s) else if_map s)
      in case hm_get m cid of
           Some l \<Rightarrow> (l, s\<lparr>if_map := m, if_held := (t, cid, l) # if_held s\<rparr>)
         | None \<Rightarrow>
             (if_next s, s\<lparr>if_map := hm_insert cid (if_next s) m,
                if_held := (t, cid, if_next s) # if_held s, if_next := if_next s + 1\<rparr>))"

text \<open>A task drops its handles when \<open>serve_cid\<close> returns, or is cancelled.\<close>

definition inflight_drop :: "nat \<Rightarrow> inflight \<Rightarrow> inflight" where
  "inflight_drop t s = s\<lparr>if_held := filter (\<lambda>(t', c, l). t' \<noteq> t) (if_held s)\<rparr>"

datatype inflight_op = Acquire nat string | Release nat

fun inflight_step :: "inflight \<Rightarrow> inflight_op \<Rightarrow> inflight" where
  "inflight_step s (Acquire t cid) = snd (inflight_lock t cid s)"
| "inflight_step s (Release t) = inflight_drop t s"

definition inflight_run :: "inflight_op list \<Rightarrow> inflight" where
  "inflight_run ops = foldl inflight_step inflight_new ops"

section \<open>Invariant\<close>

text \<open>Every handle's lock is the one the map has for its id; locks of different ids differ.\<close>

definition inflight_ok :: "inflight \<Rightarrow> bool" where
  "inflight_ok s \<longleftrightarrow> hm_ok (if_map s) \<and>
     (\<forall>(t, c, l) \<in> set (if_held s). hm_get (if_map s) c = Some l) \<and>
     (\<forall>c l. hm_get (if_map s) c = Some l \<longrightarrow> l < if_next s) \<and>
     (\<forall>c d l. hm_get (if_map s) c = Some l \<longrightarrow> hm_get (if_map s) d = Some l \<longrightarrow> c = d)"

lemma inflight_held: "inflight_ok s \<Longrightarrow> (t, c, l) \<in> set (if_held s) \<Longrightarrow> hm_get (if_map s) c = Some l"
  unfolding inflight_ok_def by blast

text \<open>Pruning removes no entry that a task still holds.\<close>

lemma held_counted:
  assumes "inflight_ok s" "(t, c, l) \<in> set (if_held s)"
  shows "strong_count s l > 1"
proof -
  have "(c, l) \<in> set (if_map s)" using hm_get_in [OF inflight_held [OF assms]] .
  then have "filter (\<lambda>(c, l'). l' = l) (if_map s) \<noteq> []" by (auto simp: filter_empty_conv)
  moreover have "filter (\<lambda>(t, c, l'). l' = l) (if_held s) \<noteq> []"
    using assms(2) by (auto simp: filter_empty_conv)
  ultimately have "length (filter (\<lambda>(c, l'). l' = l) (if_map s)) \<ge> 1"
    and "length (filter (\<lambda>(t, c, l'). l' = l) (if_held s)) \<ge> 1"
    by (simp_all add: Suc_le_eq)
  then show ?thesis unfolding strong_count_def by linarith
qed

definition pruned :: "inflight \<Rightarrow> (string \<times> lock_id) list" where
  "pruned s = (if length (if_map s) > 1024 then hm_retain (\<lambda>c l. strong_count s l > 1) (if_map s) else if_map s)"

lemma pruned_get:
  assumes "inflight_ok s"
  shows "hm_ok (pruned s)"
    and "hm_get (pruned s) c = Some l \<Longrightarrow> hm_get (if_map s) c = Some l"
    and "(t, c, l) \<in> set (if_held s) \<Longrightarrow> hm_get (pruned s) c = Some l"
  using assms held_counted [OF assms, of t c l] inflight_held [OF assms, of t c l]
  by (auto simp: inflight_ok_def pruned_def hm_ok_retain hm_get_retain split: if_splits option.splits)

lemma inflight_lock_eq:
  "inflight_lock t cid s =
     (case hm_get (pruned s) cid of
        Some l \<Rightarrow> (l, s\<lparr>if_map := pruned s, if_held := (t, cid, l) # if_held s\<rparr>)
      | None \<Rightarrow>
          (if_next s, s\<lparr>if_map := hm_insert cid (if_next s) (pruned s),
             if_held := (t, cid, if_next s) # if_held s, if_next := if_next s + 1\<rparr>))"
  unfolding inflight_lock_def pruned_def [symmetric] Let_def ..

text \<open>What a lookup needs of the map it leaves and of the handles.\<close>

lemma inflight_okI:
  assumes "hm_ok m" "\<And>t c l. (t, c, l) \<in> set hs \<Longrightarrow> hm_get m c = Some l"
    and "\<And>c l. hm_get m c = Some l \<Longrightarrow> l < n"
    and "\<And>c d l. hm_get m c = Some l \<Longrightarrow> hm_get m d = Some l \<Longrightarrow> c = d"
  shows "inflight_ok \<lparr>if_map = m, if_held = hs, if_next = n\<rparr>"
  unfolding inflight_ok_def inflight.simps using assms by blast

lemma inflight_ok_lock:
  assumes ok: "inflight_ok s"
  shows "inflight_ok (snd (inflight_lock t cid s))"
proof -
  let ?m = "pruned s"
  have m: "hm_ok ?m" by (rule pruned_get(1) [OF ok])
  have old: "hm_get ?m c = Some l \<Longrightarrow> l < if_next s" for c l
    using ok pruned_get(2) [OF ok] unfolding inflight_ok_def by blast
  have inj: "hm_get ?m c = Some l \<Longrightarrow> hm_get ?m d = Some l \<Longrightarrow> c = d" for c d l
    using ok pruned_get(2) [OF ok] unfolding inflight_ok_def by blast
  have held: "(u, c, l) \<in> set (if_held s) \<Longrightarrow> hm_get ?m c = Some l" for u c l
    by (rule pruned_get(3) [OF ok])
  obtain m0 h0 n0 where s: "s = \<lparr>if_map = m0, if_held = h0, if_next = n0\<rparr>" by (cases s)
  show ?thesis
  proof (cases "hm_get ?m cid")
    case (Some l)
    have "inflight_ok \<lparr>if_map = ?m, if_held = (t, cid, l) # if_held s, if_next = if_next s\<rparr>"
      by (rule inflight_okI [OF m _ old inj]) (use Some held in auto)
    with Some show ?thesis unfolding inflight_lock_eq by (simp add: s)
  next
    case None
    let ?n = "hm_insert cid (if_next s) ?m"
    have get: "hm_get ?n c = (if c = cid then Some (if_next s) else hm_get ?m c)" for c
      by (rule hm_get_insert [OF m])
    have "inflight_ok \<lparr>if_map = ?n, if_held = (t, cid, if_next s) # if_held s, if_next = if_next s + 1\<rparr>"
    proof (rule inflight_okI)
      show "hm_ok ?n" using m by (simp add: hm_ok_insert)
    next
      fix u c l assume "(u, c, l) \<in> set ((t, cid, if_next s) # if_held s)"
      then show "hm_get ?n c = Some l" using held [of u c l] None by (auto simp: get)
    next
      fix c l assume "hm_get ?n c = Some l"
      then show "l < if_next s + 1" using old [of c l] by (auto simp: get split: if_splits)
    next
      fix c d l assume "hm_get ?n c = Some l" "hm_get ?n d = Some l"
      then show "c = d" using old [of c l] old [of d l] inj [of c l d] by (auto simp: get split: if_splits)
    qed
    with None show ?thesis unfolding inflight_lock_eq by (simp add: s)
  qed
qed

lemma inflight_ok_step: "inflight_ok s \<Longrightarrow> inflight_ok (inflight_step s x)"
proof (cases x)
  case (Release t)
  assume "inflight_ok s"
  with Release show ?thesis by (auto simp: inflight_ok_def inflight_drop_def)
qed (simp add: inflight_ok_lock)

lemma inflight_ok_run: "inflight_ok (inflight_run ops)"
  by (induction ops rule: rev_induct)
     (simp_all add: inflight_run_def inflight_ok_step, simp add: inflight_ok_def inflight_new_def hm_get_def)

section \<open>Size\<close>

text \<open>After pruning, each remaining lock is held by some task.\<close>

lemma pruned_size:
  assumes ok: "inflight_ok s"
  shows "length (pruned s) \<le> max 1024 (length (if_held s))"
proof (cases "length (if_map s) > 1024")
  case True
  let ?m = "pruned s"
  have ok': "hm_ok ?m" by (rule pruned_get(1) [OF ok])
  have inj: "inj_on snd (set ?m)"
  proof (rule inj_onI)
    fix x y assume xy: "x \<in> set ?m" "y \<in> set ?m" "snd x = snd y"
    then have "(fst x, snd x) \<in> set ?m" "(fst y, snd x) \<in> set ?m" by (metis prod.collapse)+
    then have "hm_get ?m (fst x) = Some (snd x)" "hm_get ?m (fst y) = Some (snd x)"
      by (blast intro: hm_in_get [OF ok'])+
    then have "fst x = fst y" using ok pruned_get(2) [OF ok] unfolding inflight_ok_def by blast
    with xy(3) show "x = y" by (simp add: prod_eq_iff)
  qed
  have one: "length (filter (\<lambda>(c, l'). l' = l) (if_map s)) \<le> 1" for l
  proof -
    let ?f = "filter (\<lambda>(c, l'). l' = l) (if_map s)"
    have "hm_ok ?f" using ok by (simp add: inflight_ok_def hm_ok_filter)
    then have d: "distinct ?f" by (simp add: hm_ok_def distinct_map)
    have "x = y" if xf: "x \<in> set ?f" "y \<in> set ?f" for x y
    proof -
      have l: "snd x = l" "snd y = l" using xf by (auto simp: case_prod_unfold)
      then have mem: "(fst x, l) \<in> set (if_map s)" "(fst y, l) \<in> set (if_map s)"
        using xf prod.collapse [of x] prod.collapse [of y] by (metis filter_is_subset subsetD)+
      have "hm_get (if_map s) (fst x) = Some l" "hm_get (if_map s) (fst y) = Some l"
        using ok mem unfolding inflight_ok_def by (blast intro: hm_in_get)+
      with ok have "fst x = fst y" unfolding inflight_ok_def by blast
      with l show "x = y" by (simp add: prod_eq_iff)
    qed
    then have "card (set ?f) \<le> 1" by (simp add: card_le_Suc0_iff_eq)
    then show ?thesis unfolding distinct_card [OF d] .
  qed
  have sub: "snd ` set ?m \<subseteq> (\<lambda>(t, c, l). l) ` set (if_held s)"
  proof
    fix l assume "l \<in> snd ` set ?m"
    then have "strong_count s l > 1" using True by (auto simp: pruned_def hm_retain_def)
    with one [of l] have "filter (\<lambda>(t, c, l'). l' = l) (if_held s) \<noteq> []"
      unfolding strong_count_def by (auto simp del: filter_False)
    then show "l \<in> (\<lambda>(t, c, l). l) ` set (if_held s)" by (force simp: filter_empty_conv)
  qed
  have "length ?m = card (set ?m)" using ok' by (simp add: hm_ok_def distinct_map distinct_card)
  also have "\<dots> = card (snd ` set ?m)" using inj by (simp add: card_image)
  also have "\<dots> \<le> card ((\<lambda>(t, c, l). l) ` set (if_held s))" by (rule card_mono [OF _ sub]) simp
  also have "\<dots> \<le> length (if_held s)" using card_image_le [of "set (if_held s)"] card_length le_trans
    by (metis (no_types) List.finite_set)
  finally show ?thesis by simp
qed (simp add: pruned_def)

lemma length_hm_insert_le: "length (hm_insert k v m) \<le> Suc (length m)"
  by (induction m) (auto simp: hm_insert_def)

lemma inflight_size:
  assumes "inflight_ok s"
  shows "length (if_map (snd (inflight_lock t cid s))) \<le> Suc (max 1024 (length (if_held s)))"
proof -
  have "length (if_map (snd (inflight_lock t cid s))) \<le> Suc (length (pruned s))"
    unfolding inflight_lock_eq using length_hm_insert_le [of cid "if_next s" "pruned s"]
    by (auto split: option.splits)
  with pruned_size [OF assms] show ?thesis by linarith
qed

text \<open>
  The map of single-flight locks keeps its promise. After any sequence of lookups and of tasks
  ending, pruning included, two tasks that hold a lock hold the same one exactly when they asked for
  the same content id (so a waiter always waits for the task that fetches its object, and never for
  another object); and right after a lookup the map has at most one entry more than the larger of 1024
  and the number of handles held.
\<close>
theorem one_lock_per_id:
  assumes "(t, c, l) \<in> set (if_held (inflight_run ops))"
    and "(u, d, k) \<in> set (if_held (inflight_run ops))"
  shows "(l = k \<longleftrightarrow> c = d) \<and>
    length (if_map (snd (inflight_lock v cid (inflight_run ops))))
      \<le> Suc (max 1024 (length (if_held (inflight_run ops))))"
proof
  note ok = inflight_ok_run [of ops]
  have "hm_get (if_map (inflight_run ops)) c = Some l" "hm_get (if_map (inflight_run ops)) d = Some k"
    by (rule inflight_held [OF ok assms(1)], rule inflight_held [OF ok assms(2)])
  with ok show "l = k \<longleftrightarrow> c = d" unfolding inflight_ok_def by auto
qed (rule inflight_size [OF inflight_ok_run])

lemma one_lock_per_id_witness:
  "let s = inflight_run [Acquire 1 ''a'', Acquire 2 ''b'', Acquire 3 ''a'', Release 2] in
    ((0::lock_id) = 0 \<longleftrightarrow> ''a'' = ''a'') \<and>
    length (if_map (snd (inflight_lock 4 ''b'' s))) \<le> Suc (max 1024 (length (if_held s)))"
  unfolding Let_def
  by (rule one_lock_per_id [of 1 _ _ _ 3])
     (simp_all add: inflight_run_def inflight_new_def inflight_lock_def inflight_drop_def hm_get_def hm_insert_def)

end
