(* ===== verification/Rust_Strings.thy ===== *)
theory Rust_Strings
  imports Prelude
begin

text \<open>
  The string operations of Rust's standard library that the crate calls. A \<open>str\<close> is the list of
  its UTF-8 bytes, each byte a \<open>char\<close>, so that \<open>len()\<close> is \<open>length\<close> and byte-wise comparison is
  the lexicographic order of the library. \<open>trim\<close> removes the UTF-8 encodings of the Unicode
  \<open>White_Space\<close> characters, \<open>parse::<u64>()\<close> takes an optional leading plus sign and rejects
  an overflowing value, and \<open>{}\<close> prints a number in decimal.
\<close>

section \<open>Trimming\<close>

definition ws_encodings :: "string list" where
  "ws_encodings =
    [[CHR 0x09], [CHR 0x0A], [CHR 0x0B], [CHR 0x0C], [CHR 0x0D], [CHR 0x20],
     [CHR 0xC2, CHR 0x85], [CHR 0xC2, CHR 0xA0], [CHR 0xE1, CHR 0x9A, CHR 0x80],
     [CHR 0xE2, CHR 0x80, CHR 0x80], [CHR 0xE2, CHR 0x80, CHR 0x81], [CHR 0xE2, CHR 0x80, CHR 0x82],
     [CHR 0xE2, CHR 0x80, CHR 0x83], [CHR 0xE2, CHR 0x80, CHR 0x84], [CHR 0xE2, CHR 0x80, CHR 0x85],
     [CHR 0xE2, CHR 0x80, CHR 0x86], [CHR 0xE2, CHR 0x80, CHR 0x87], [CHR 0xE2, CHR 0x80, CHR 0x88],
     [CHR 0xE2, CHR 0x80, CHR 0x89], [CHR 0xE2, CHR 0x80, CHR 0x8A], [CHR 0xE2, CHR 0x80, CHR 0xA8],
     [CHR 0xE2, CHR 0x80, CHR 0xA9], [CHR 0xE2, CHR 0x80, CHR 0xAF], [CHR 0xE2, CHR 0x81, CHR 0x9F],
     [CHR 0xE3, CHR 0x80, CHR 0x80]]"

function strip_front :: "string list \<Rightarrow> string \<Rightarrow> string" where
  "strip_front ps s =
     (case find (\<lambda>p. p \<noteq> [] \<and> take (length p) s = p) ps of
        None \<Rightarrow> s
      | Some p \<Rightarrow> strip_front ps (drop (length p) s))"
  by pat_completeness auto
termination
proof (relation "measure (\<lambda>(ps, s). length s)")
  fix ps s p
  assume "find (\<lambda>p. p \<noteq> [] \<and> take (length p) s = p) ps = Some p"
  then have "p \<noteq> [] \<and> take (length p) s = p" by (auto simp: find_Some_iff)
  then have "length (drop (length p) s) < length s" by (cases s; cases p) auto
  then show "((ps, drop (length p) s), ps, s) \<in> measure (\<lambda>(ps, s). length s)" by simp
qed simp

declare strip_front.simps [simp del]

definition trim :: "string \<Rightarrow> string" where
  "trim s = rev (strip_front (map rev ws_encodings) (rev (strip_front ws_encodings s)))"

text \<open>A visible ASCII character neither starts nor ends a white-space encoding.\<close>

definition plain :: "char \<Rightarrow> bool" where
  "plain c \<longleftrightarrow> (33::nat) \<le> of_char c \<and> (of_char c :: nat) < 127"

lemma plain_Char [simp]:
  "plain (Char b0 b1 b2 b3 b4 b5 b6 b7) \<longleftrightarrow>
     (33::nat) \<le> of_char (Char b0 b1 b2 b3 b4 b5 b6 b7) \<and>
     (of_char (Char b0 b1 b2 b3 b4 b5 b6 b7) :: nat) < 127"
  by (simp only: plain_def)

lemma ws_not_plain: "\<forall>p \<in> set ws_encodings. p \<noteq> [] \<and> \<not> plain (hd p) \<and> \<not> plain (last p)"
  by (simp add: ws_encodings_def plain_def)

lemma strip_front_plain:
  assumes "\<forall>p \<in> set ps. p \<noteq> [] \<longrightarrow> \<not> plain (hd p)" and "s = [] \<or> plain (hd s)"
  shows "strip_front ps s = s"
proof -
  have "find (\<lambda>p. p \<noteq> [] \<and> take (length p) s = p) ps = None"
    using assms by (auto simp: find_None_iff) (metis hd_take length_greater_0_conv take_eq_Nil)+
  then show ?thesis by (simp add: strip_front.simps)
qed

lemma trim_plain: "s = [] \<or> plain (hd s) \<and> plain (last s) \<Longrightarrow> trim s = s"
proof -
  assume s: "s = [] \<or> plain (hd s) \<and> plain (last s)"
  have "strip_front ws_encodings s = s"
    using s ws_not_plain by (intro strip_front_plain) auto
  moreover have "strip_front (map rev ws_encodings) (rev s) = rev s"
    using s ws_not_plain by (intro strip_front_plain) (auto simp: hd_rev)
  ultimately show "trim s = s" by (simp add: trim_def)
qed

lemma trim_Nil [simp]: "trim [] = []"
  by (simp add: trim_plain)

lemma trim_all_plain: "\<forall>c \<in> set s. plain c \<Longrightarrow> trim s = s"
  by (cases "s = []") (auto intro!: trim_plain)

lemma trim_space: "trim (CHR '' '' # s) = trim s"
proof -
  have "strip_front ws_encodings (CHR '' '' # s) = strip_front ws_encodings s"
    by (subst strip_front.simps) (simp add: ws_encodings_def)
  then show ?thesis by (simp add: trim_def)
qed

section \<open>Splitting\<close>

fun split_once :: "char \<Rightarrow> string \<Rightarrow> (string \<times> string) option" where
  "split_once d [] = None"
| "split_once d (c # cs) =
     (if c = d then Some ([], cs) else map_option (\<lambda>(a, b). (c # a, b)) (split_once d cs))"

fun split_char :: "char \<Rightarrow> string \<Rightarrow> string list" where
  "split_char d [] = [[]]"
| "split_char d (c # cs) =
     (if c = d then [] # split_char d cs
      else (case split_char d cs of [] \<Rightarrow> [[c]] | x # xs \<Rightarrow> (c # x) # xs))"

definition splitn3 :: "char \<Rightarrow> string \<Rightarrow> string list" where
  "splitn3 d s =
     (case split_once d s of
        None \<Rightarrow> [s]
      | Some (a, r) \<Rightarrow> (case split_once d r of None \<Rightarrow> [a, r] | Some (b, t) \<Rightarrow> [a, b, t]))"

definition strip_prefix :: "string \<Rightarrow> string \<Rightarrow> string option" where
  "strip_prefix p s = (if take (length p) s = p then Some (drop (length p) s) else None)"

definition trim_end_matches :: "char \<Rightarrow> string \<Rightarrow> string" where
  "trim_end_matches c s = rev (dropWhile (\<lambda>x. x = c) (rev s))"

lemma split_once_append [simp]: "d \<notin> set a \<Longrightarrow> split_once d (a @ d # b) = Some (a, b)"
  by (induction a) auto

lemma split_once_None: "d \<notin> set s \<Longrightarrow> split_once d s = None"
  by (induction s) auto

lemma split_once_Some: "split_once d s = Some (a, b) \<Longrightarrow> s = a @ d # b \<and> d \<notin> set a"
  by (induction s arbitrary: a) (auto split: if_splits)

lemma split_char_not_Nil [simp]: "split_char d s \<noteq> []"
  by (induction s) (auto split: list.splits)

lemma split_char_single: "d \<notin> set s \<Longrightarrow> split_char d s = [s]"
  by (induction s) auto

lemma split_char_append: "d \<notin> set a \<Longrightarrow> split_char d (a @ d # b) = a # split_char d b"
  by (induction a) auto

lemma strip_prefix_append [simp]: "strip_prefix p (p @ s) = Some s"
  by (simp add: strip_prefix_def)

lemma strip_prefix_Some: "strip_prefix p s = Some r \<longleftrightarrow> s = p @ r"
  by (auto simp: strip_prefix_def) (metis append_take_drop_id)

text \<open>\<open>[T]::join\<close>: the parts with a separator between them.\<close>

fun join :: "string \<Rightarrow> string list \<Rightarrow> string" where
  "join sep [] = []"
| "join sep [x] = x"
| "join sep (x # y # xs) = x @ sep @ join sep (y # xs)"

section \<open>Numbers\<close>

definition is_digit :: "char \<Rightarrow> bool" where
  "is_digit c \<longleftrightarrow> (48::nat) \<le> of_char c \<and> (of_char c :: nat) \<le> 57"

definition digit_char :: "nat \<Rightarrow> char" where
  "digit_char n = char_of (48 + n)"

fun parse_digits :: "nat \<Rightarrow> string \<Rightarrow> nat option" where
  "parse_digits acc [] = Some acc"
| "parse_digits acc (c # cs) =
     (if is_digit c
      then (let v = acc * 10 + (of_char c - 48)
            in if v < 2 ^ 64 then parse_digits v cs else None)
      else None)"

definition parse_u64 :: "string \<Rightarrow> u64 option" where
  "parse_u64 s =
     (case s of
        [] \<Rightarrow> None
      | c # cs \<Rightarrow>
          map_option of_nat
            (if c = CHR ''+'' then if cs = [] then None else parse_digits 0 cs
             else parse_digits 0 s))"

fun show_nat :: "nat \<Rightarrow> string" where
  "show_nat n = (if n < 10 then [digit_char n] else show_nat (n div 10) @ [digit_char (n mod 10)])"

declare show_nat.simps [simp del]

definition show_u64 :: "u64 \<Rightarrow> string" where
  "show_u64 w = show_nat (unat w)"

lemma of_char_digit_char: "n < 10 \<Longrightarrow> (of_char (digit_char n) :: nat) = 48 + n"
  by (simp add: digit_char_def)

lemma is_digit_digit_char: "n < 10 \<Longrightarrow> is_digit (digit_char n)"
  by (simp add: is_digit_def of_char_digit_char)

lemma show_nat_digits: "\<forall>c \<in> set (show_nat n). is_digit c"
proof (induction n rule: show_nat.induct)
  case (1 n)
  then show ?case
    by (cases "n < 10") (auto simp: show_nat.simps [of n] is_digit_digit_char)
qed

lemma show_nat_not_Nil [simp]: "show_nat n \<noteq> []"
  by (simp add: show_nat.simps [of n])

lemma parse_digits_append:
  "parse_digits acc (xs @ ys) =
     (case parse_digits acc xs of None \<Rightarrow> None | Some v \<Rightarrow> parse_digits v ys)"
  by (induction xs arbitrary: acc) (auto simp: Let_def)

lemma parse_digits_show: "n < 2 ^ 64 \<Longrightarrow> parse_digits 0 (show_nat n) = Some n"
proof (induction n rule: show_nat.induct)
  case (1 n)
  show ?case
  proof (cases "n < 10")
    case True
    with 1 show ?thesis
      by (simp add: show_nat.simps [of n] is_digit_digit_char of_char_digit_char)
  next
    case False
    moreover from "1.prems" have "n div 10 < 2 ^ 64" by simp
    ultimately show ?thesis
      using "1.IH" "1.prems"
      by (simp add: show_nat.simps [of n] parse_digits_append is_digit_digit_char
          of_char_digit_char div_mult_mod_eq)
  qed
qed

lemma show_nat_inject: "show_nat m = show_nat n \<Longrightarrow> m < 2 ^ 64 \<Longrightarrow> n < 2 ^ 64 \<Longrightarrow> m = n"
  by (metis option.inject parse_digits_show)

lemma digit_not_special:
  "is_digit c \<Longrightarrow> plain c \<and> c \<noteq> CHR ''+'' \<and> c \<noteq> CHR ''-'' \<and> c \<noteq> CHR '','' \<and> c \<noteq> CHR ''.''
     \<and> c \<noteq> CHR ''&'' \<and> c \<noteq> CHR ''=''"
  by (auto simp: is_digit_def plain_def)

lemma show_u64_not_Nil [simp]: "show_u64 w \<noteq> []"
  by (simp add: show_u64_def)

lemma show_u64_digits: "c \<in> set (show_u64 w) \<Longrightarrow> is_digit c"
  using show_nat_digits by (auto simp: show_u64_def)

lemma show_u64_no [simp]:
  "CHR ''-'' \<notin> set (show_u64 w)" "CHR '','' \<notin> set (show_u64 w)" "CHR ''.'' \<notin> set (show_u64 w)"
  "CHR ''&'' \<notin> set (show_u64 w)" "CHR ''='' \<notin> set (show_u64 w)" "CHR ''+'' \<notin> set (show_u64 w)"
  using show_u64_digits digit_not_special by blast+

lemma trim_show_u64 [simp]: "trim (show_u64 w) = show_u64 w"
  by (rule trim_all_plain) (use show_u64_digits digit_not_special in blast)

lemma plain_show_u64 [simp]: "plain (hd (show_u64 w))" "plain (last (show_u64 w))"
  using show_u64_digits digit_not_special hd_in_set last_in_set show_u64_not_Nil by blast+

lemma trim_Cons_plain: "plain c \<Longrightarrow> s = [] \<or> plain (last s) \<Longrightarrow> trim (c # s) = c # s"
  by (rule trim_plain) auto

lemma trim_show_u64_append: "s = [] \<or> plain (last s) \<Longrightarrow> trim (show_u64 w @ s) = show_u64 w @ s"
  by (rule trim_plain) (auto simp: last_append)

lemmas trim_simps = trim_Cons_plain trim_show_u64_append last_append

theorem parse_show_u64 [simp]: "parse_u64 (show_u64 w) = Some w"
proof -
  obtain c cs where s: "show_u64 w = c # cs" by (cases "show_u64 w") auto
  then have "c \<noteq> CHR ''+''" using show_u64_no(6) [of w] by auto
  moreover have "parse_digits 0 (show_u64 w) = Some (unat w)"
    unfolding show_u64_def by (rule parse_digits_show [OF unat_lt_2p64])
  ultimately show ?thesis by (simp add: parse_u64_def s)
qed

lemma show_u64_inject: "show_u64 a = show_u64 b \<Longrightarrow> a = b"
  by (metis option.inject parse_show_u64)

section \<open>Bytes and case\<close>

definition str_bytes :: "string \<Rightarrow> bytes" where
  "str_bytes s = map of_char s"

lemma str_bytes_inject: "str_bytes a = str_bytes b \<Longrightarrow> a = b"
proof -
  have "inj (of_char :: char \<Rightarrow> u8)"
  proof (rule injI)
    fix c d :: char
    assume "(of_char c :: u8) = of_char d"
    then have "unat (of_nat (of_char c) :: u8) = unat (of_nat (of_char d) :: u8)"
      by (simp only: of_nat_of_char)
    then have "(of_char c :: nat) = of_char d" by (simp add: unat_of_nat)
    then show "c = d" by simp
  qed
  then show "str_bytes a = str_bytes b \<Longrightarrow> a = b"
    by (auto simp: str_bytes_def dest: map_injective)
qed

lemma length_str_bytes [simp]: "length (str_bytes s) = length s"
  by (simp add: str_bytes_def)

definition to_le_bytes :: "u64 \<Rightarrow> bytes" where
  "to_le_bytes w = map (\<lambda>i. ucast (drop_bit (8 * i) w)) [0..<8]"

lemma length_to_le_bytes [simp]: "length (to_le_bytes w) = 8"
  by (simp add: to_le_bytes_def)

lemma to_le_bytes_inject: "to_le_bytes a = to_le_bytes b \<Longrightarrow> a = b"
proof (rule bit_word_eqI)
  fix n
  assume eq: "to_le_bytes a = to_le_bytes b" and n: "n < LENGTH(64)"
  have "n div 8 < 8" using n by simp
  then have "(ucast (drop_bit (8 * (n div 8)) a) :: u8) = ucast (drop_bit (8 * (n div 8)) b)"
    using eq by (simp add: to_le_bytes_def)
  then have "bit (ucast (drop_bit (8 * (n div 8)) a) :: u8) (n mod 8)
           = bit (ucast (drop_bit (8 * (n div 8)) b) :: u8) (n mod 8)" by simp
  then show "bit a n = bit b n"
    by (simp add: bit_simps)
qed

definition to_ascii_lower :: "char \<Rightarrow> char" where
  "to_ascii_lower c =
     (if (65::nat) \<le> of_char c \<and> (of_char c :: nat) \<le> 90 then char_of ((of_char c :: nat) + 32) else c)"

definition eq_ignore_ascii_case :: "string \<Rightarrow> string \<Rightarrow> bool" where
  "eq_ignore_ascii_case a b \<longleftrightarrow> map to_ascii_lower a = map to_ascii_lower b"

end
