(* ===== verification/Cache.thy ===== *)
theory Cache
  imports Complex_Main Rust_Collections Rust_Strings
begin

text \<open>
  Model of \<open>src/cache.rs\<close>: the in-memory edge cache with its byte budget, time-to-live, LRU
  eviction, negative-cache tombstones and counters. Every method of \<open>EdgeCache\<close> is a function on
  the record \<open>edge_cache\<close>; a \<open>&mut self\<close> method returns its result and the new cache. The clock
  is an argument, as in the code. Counters and ticks are 64-bit words that wrap (release build).
\<close>

section \<open>State\<close>

record cache_entry =
  e_bytes :: bytes
  inserted_at :: u64
  expires_at :: u64
  last_tick :: u64
  e_hits :: u64
  e_misses :: u64

record tombstone =
  t_expires_at :: u64

record cache_stats =
  st_hits :: u64
  st_misses :: u64
  st_expirations :: u64
  st_evictions :: u64
  st_entries :: u64
  st_bytes :: u64
  st_negative_hits :: u64
  st_tombstones :: u64

text \<open>The exact quotient that the floating-point result rounds.\<close>

definition hit_ratio :: "cache_stats \<Rightarrow> rat" where
  "hit_ratio s =
     (let total' = st_hits s + st_misses s
      in if total' = 0 then 0 else of_nat (unat (st_hits s)) / of_nat (unat total'))"

definition DEFAULT_NEGATIVE_TTL_SECS :: u64 where
  "DEFAULT_NEGATIVE_TTL_SECS = 10"

record edge_cache =
  entries :: "cache_entry hashmap"
  tombstones :: "tombstone hashmap"
  max_bytes :: u64
  default_ttl_secs :: u64
  negative_ttl_secs :: u64
  max_tombstones :: usize
  cur_bytes :: u64
  tick :: u64
  hits :: u64
  misses :: u64
  expirations :: u64
  evictions :: u64
  negative_hits :: u64

definition DEFAULT_MAX_TOMBSTONES :: usize where
  "DEFAULT_MAX_TOMBSTONES = 4096"

record object_stat =
  os_bytes :: u64
  os_hits :: u64
  os_misses :: u64

section \<open>Operations\<close>

definition cache_new :: "u64 \<Rightarrow> u64 \<Rightarrow> edge_cache" where
  "cache_new max_b ttl =
     \<lparr>entries = [], tombstones = [], max_bytes = max_b, default_ttl_secs = ttl,
      negative_ttl_secs = DEFAULT_NEGATIVE_TTL_SECS, max_tombstones = DEFAULT_MAX_TOMBSTONES,
      cur_bytes = 0, tick = 0, hits = 0, misses = 0, expirations = 0, evictions = 0,
      negative_hits = 0\<rparr>"

definition with_negative_ttl :: "u64 \<Rightarrow> edge_cache \<Rightarrow> edge_cache" where
  "with_negative_ttl secs c = c\<lparr>negative_ttl_secs := secs\<rparr>"

definition next_tick :: "edge_cache \<Rightarrow> u64 \<times> edge_cache" where
  "next_tick c = (let t = tick c + 1 in (t, c\<lparr>tick := t\<rparr>))"

definition drop_entry :: "string \<Rightarrow> edge_cache \<Rightarrow> bool \<times> edge_cache" where
  "drop_entry cid c =
     (case hm_get (entries c) cid of
        Some e \<Rightarrow>
          (True, c\<lparr>entries := hm_remove cid (entries c),
                   cur_bytes := sat_sub (cur_bytes c) (len64 (e_bytes e))\<rparr>)
      | None \<Rightarrow> (False, c))"

text \<open>\<open>min_by_key\<close> returns the first of the least elements, as \<open>arg_min_list\<close> does.\<close>

definition evict_one :: "edge_cache \<Rightarrow> bool \<times> edge_cache" where
  "evict_one c =
     (if entries c = [] then (False, c)
      else (let victim = fst (arg_min_list (\<lambda>(k, e). last_tick e) (entries c));
                c1 = snd (drop_entry victim c)
            in (True, c1\<lparr>evictions := evictions c1 + 1\<rparr>)))"

lemma arg_min_list_get:
  "xs \<noteq> [] \<Longrightarrow> hm_get xs (fst (arg_min_list f xs)) \<noteq> None"
  unfolding hm_get_def map_of_eq_None_iff using arg_min_list_in [of xs f] by auto

lemma evict_one_shrinks:
  "evict_one c = (True, c') \<Longrightarrow> length (entries c') < length (entries c)"
  using arg_min_list_get [of "entries c" "\<lambda>(k, e). last_tick e"]
  by (auto simp: evict_one_def drop_entry_def Let_def length_hm_remove_less
      split: if_splits option.splits)

function evict_to_fit :: "u64 \<Rightarrow> edge_cache \<Rightarrow> edge_cache" where
  "evict_to_fit len c =
     (if cur_bytes c + len > max_bytes c
      then (case evict_one c of (ok, c') \<Rightarrow> if ok then evict_to_fit len c' else c')
      else c)"
  by pat_completeness auto
termination
  by (relation "measure (\<lambda>(len, c). length (entries c))") (auto dest: evict_one_shrinks [OF sym])

declare evict_to_fit.simps [simp del]

definition insert_with_ttl :: "string \<Rightarrow> bytes \<Rightarrow> u64 \<Rightarrow> u64 \<Rightarrow> edge_cache \<Rightarrow> bool \<times> edge_cache" where
  "insert_with_ttl cid bs ttl now c =
     (let len = len64 bs in
      if len > max_bytes c then (False, c)
      else
        (let c1 = snd (drop_entry cid c);
             c2 = evict_to_fit len c1;
             c3 = c2\<lparr>tombstones := hm_remove cid (tombstones c2)\<rparr>;
             (t, c4) = next_tick c3;
             exp = (if ttl = 0 then u64_MAX else sat_add now ttl);
             c5 = c4\<lparr>cur_bytes := cur_bytes c4 + len\<rparr>
         in (True, c5\<lparr>entries := hm_insert cid
               \<lparr>e_bytes = bs, inserted_at = now, expires_at = exp, last_tick = t,
                e_hits = 0, e_misses = 0\<rparr> (entries c5)\<rparr>)))"

definition cache_insert :: "string \<Rightarrow> bytes \<Rightarrow> u64 \<Rightarrow> edge_cache \<Rightarrow> bool \<times> edge_cache" where
  "cache_insert cid bs now c = insert_with_ttl cid bs (default_ttl_secs c) now c"

definition note_absent :: "string \<Rightarrow> u64 \<Rightarrow> edge_cache \<Rightarrow> edge_cache" where
  "note_absent cid now c =
     (if negative_ttl_secs c = 0 then c
      else
        (let ts = tombstones c;
             ts1 = (if unat (max_tombstones c) \<le> length ts \<and> hm_get ts cid = None
                    then (if ts = [] then ts
                          else hm_remove (fst (arg_min_list (\<lambda>(k, t). t_expires_at t) ts)) ts)
                    else ts)
         in c\<lparr>tombstones :=
               hm_insert cid \<lparr>t_expires_at = sat_add now (negative_ttl_secs c)\<rparr> ts1\<rparr>))"

definition is_negative :: "string \<Rightarrow> u64 \<Rightarrow> edge_cache \<Rightarrow> bool \<times> edge_cache" where
  "is_negative cid now c =
     (case hm_get (tombstones c) cid of
        Some t \<Rightarrow>
          if now \<le> t_expires_at t then (True, c\<lparr>negative_hits := negative_hits c + 1\<rparr>)
          else (False, c\<lparr>tombstones := hm_remove cid (tombstones c)\<rparr>)
      | None \<Rightarrow> (False, c))"

definition object_stats :: "edge_cache \<Rightarrow> (string \<times> object_stat) list" where
  "object_stats c =
     sort_key fst
       (map (\<lambda>(cid, e). (cid, \<lparr>os_bytes = len64 (e_bytes e), os_hits = e_hits e,
                               os_misses = e_misses e\<rparr>)) (entries c))"

definition cache_get :: "string \<Rightarrow> u64 \<Rightarrow> edge_cache \<Rightarrow> bytes option \<times> edge_cache" where
  "cache_get cid now c0 =
     (let (t, c) = next_tick c0 in
      case hm_get (entries c) cid of
        Some e \<Rightarrow>
          if now \<le> expires_at e then
            (Some (e_bytes e),
             c\<lparr>entries := hm_insert cid (e\<lparr>last_tick := t, e_hits := e_hits e + 1\<rparr>) (entries c),
               hits := hits c + 1\<rparr>)
          else
            (let c1 = c\<lparr>entries := hm_insert cid (e\<lparr>e_misses := e_misses e + 1\<rparr>) (entries c)\<rparr>;
                 c2 = snd (drop_entry cid c1)
             in (None, c2\<lparr>expirations := expirations c2 + 1, misses := misses c2 + 1\<rparr>))
      | None \<Rightarrow> (None, c\<lparr>misses := misses c + 1\<rparr>))"

definition contains_fresh :: "string \<Rightarrow> u64 \<Rightarrow> edge_cache \<Rightarrow> bool" where
  "contains_fresh cid now c =
     (case hm_get (entries c) cid of None \<Rightarrow> False | Some e \<Rightarrow> now \<le> expires_at e)"

definition purge :: "string \<Rightarrow> edge_cache \<Rightarrow> bool \<times> edge_cache" where
  "purge cid c = drop_entry cid c"

definition sweep_drop :: "string \<Rightarrow> edge_cache \<Rightarrow> edge_cache" where
  "sweep_drop k c = (let c1 = snd (drop_entry k c) in c1\<lparr>expirations := expirations c1 + 1\<rparr>)"

definition sweep_expired :: "u64 \<Rightarrow> edge_cache \<Rightarrow> nat \<times> edge_cache" where
  "sweep_expired now c =
     (let dead = map fst (filter (\<lambda>(k, e). now > expires_at e) (entries c));
          c1 = fold sweep_drop dead c
      in (length dead, c1\<lparr>tombstones := hm_retain (\<lambda>k t. now \<le> t_expires_at t) (tombstones c1)\<rparr>))"

definition stats :: "edge_cache \<Rightarrow> cache_stats" where
  "stats c =
     \<lparr>st_hits = hits c, st_misses = misses c, st_expirations = expirations c,
      st_evictions = evictions c, st_entries = len64 (entries c), st_bytes = cur_bytes c,
      st_negative_hits = negative_hits c, st_tombstones = len64 (tombstones c)\<rparr>"

definition ttl_remaining :: "string \<Rightarrow> u64 \<Rightarrow> edge_cache \<Rightarrow> u64 option" where
  "ttl_remaining cid now c =
     map_option (\<lambda>e. if expires_at e = u64_MAX then u64_MAX else sat_sub (expires_at e) now)
       (hm_get (entries c) cid)"

definition age :: "string \<Rightarrow> u64 \<Rightarrow> edge_cache \<Rightarrow> u64 option" where
  "age cid now c = map_option (\<lambda>e. sat_sub now (inserted_at e)) (hm_get (entries c) cid)"

definition byte_len :: "string \<Rightarrow> edge_cache \<Rightarrow> u64 option" where
  "byte_len cid c = map_option (\<lambda>e. len64 (e_bytes e)) (hm_get (entries c) cid)"

section \<open>Invariant\<close>

text \<open>
  What every method keeps between the fields: keys are distinct, the incremental byte total is the
  sum of the stored lengths and within the budget, no recency tick was handed out twice or is ahead
  of the counter. The budget is below \<open>2^63\<close>, so that the sum the eviction loop compares cannot wrap;
  stored vectors respect Rust's own bound on a \<open>Vec\<close>.
\<close>

definition held_bytes :: "cache_entry hashmap \<Rightarrow> nat" where
  "held_bytes es = sum_list (map (\<lambda>(k, e). length (e_bytes e)) es)"

definition entry_tick :: "string \<times> cache_entry \<Rightarrow> u64" where
  "entry_tick = (\<lambda>(k, e). last_tick e)"

definition cache_inv :: "edge_cache \<Rightarrow> bool" where
  "cache_inv c \<longleftrightarrow>
     hm_ok (entries c) \<and> hm_ok (tombstones c) \<and>
     (\<forall>p \<in> set (entries c). vec_ok (e_bytes (snd p)) \<and> last_tick (snd p) \<le> tick c) \<and>
     distinct (map entry_tick (entries c)) \<and>
     unat (cur_bytes c) = held_bytes (entries c) \<and>
     unat (cur_bytes c) \<le> unat (max_bytes c) \<and> unat (max_bytes c) < 2 ^ 63"

text \<open>The configuration no operation changes.\<close>

definition config :: "edge_cache \<Rightarrow> u64 \<times> u64 \<times> u64 \<times> usize" where
  "config c = (max_bytes c, default_ttl_secs c, negative_ttl_secs c, max_tombstones c)"

lemma entry_tick_conv: "(\<lambda>(k, e). last_tick e) = entry_tick"
  by (simp add: entry_tick_def)

lemma held_remove:
  "hm_ok es \<Longrightarrow> hm_get es k = Some e \<Longrightarrow>
     held_bytes es = length (e_bytes e) + held_bytes (hm_remove k es)"
  unfolding held_bytes_def by (subst sum_hm_remove) auto

lemma cache_inv_entry:
  "cache_inv c \<Longrightarrow> hm_get (entries c) k = Some e \<Longrightarrow> vec_ok (e_bytes e) \<and> last_tick e \<le> tick c"
  by (auto simp: cache_inv_def dest!: hm_get_in)

subsection \<open>Removing an entry\<close>

lemma entries_drop [simp]: "entries (snd (drop_entry k c)) = hm_remove k (entries c)"
  by (simp add: drop_entry_def hm_remove_absent split: option.splits)

lemma drop_result [simp]: "fst (drop_entry k c) \<longleftrightarrow> hm_get (entries c) k \<noteq> None"
  by (simp add: drop_entry_def split: option.splits)

lemma drop_frame [simp]:
  "tombstones (snd (drop_entry k c)) = tombstones c" "tick (snd (drop_entry k c)) = tick c"
  "max_bytes (snd (drop_entry k c)) = max_bytes c" "config (snd (drop_entry k c)) = config c"
  "default_ttl_secs (snd (drop_entry k c)) = default_ttl_secs c"
  "negative_ttl_secs (snd (drop_entry k c)) = negative_ttl_secs c"
  "max_tombstones (snd (drop_entry k c)) = max_tombstones c"
  "hits (snd (drop_entry k c)) = hits c" "misses (snd (drop_entry k c)) = misses c"
  "expirations (snd (drop_entry k c)) = expirations c"
  "evictions (snd (drop_entry k c)) = evictions c"
  "negative_hits (snd (drop_entry k c)) = negative_hits c"
  by (simp_all add: drop_entry_def config_def split: option.splits)

lemma drop_cur:
  assumes "cache_inv c"
  shows "unat (cur_bytes (snd (drop_entry k c))) = held_bytes (hm_remove k (entries c))"
proof (cases "hm_get (entries c) k")
  case None
  then show ?thesis using assms by (simp add: drop_entry_def hm_remove_absent cache_inv_def)
next
  case (Some e)
  then show ?thesis
    using assms held_remove [of "entries c" k e] cache_inv_entry [OF assms Some]
    by (simp add: drop_entry_def cache_inv_def unat_sat_sub unat_len64)
qed

lemma held_remove_le: "held_bytes (hm_remove k es) \<le> held_bytes es"
  unfolding held_bytes_def hm_remove_def by (rule sum_list_filter_le)

lemma cache_inv_drop: "cache_inv c \<Longrightarrow> cache_inv (snd (drop_entry k c))"
  using drop_cur [of c k] held_remove_le [of k "entries c"]
  by (auto simp: cache_inv_def hm_remove_def hm_ok_filter distinct_map_filter)

lemma cache_inv_update_counters:
  "cache_inv c \<Longrightarrow> cache_inv (c\<lparr>hits := a\<rparr>)" "cache_inv c \<Longrightarrow> cache_inv (c\<lparr>misses := a\<rparr>)"
  "cache_inv c \<Longrightarrow> cache_inv (c\<lparr>expirations := a\<rparr>)" "cache_inv c \<Longrightarrow> cache_inv (c\<lparr>evictions := a\<rparr>)"
  "cache_inv c \<Longrightarrow> cache_inv (c\<lparr>negative_hits := a\<rparr>)"
  "cache_inv c \<Longrightarrow> cache_inv (c\<lparr>negative_ttl_secs := a\<rparr>)"
  "cache_inv c \<Longrightarrow> hm_ok ts \<Longrightarrow> cache_inv (c\<lparr>tombstones := ts\<rparr>)"
  by (simp_all add: cache_inv_def)

subsection \<open>Eviction\<close>

lemma evict_one_cases:
  "evict_one c = (ok, c') \<Longrightarrow>
     (if ok then entries c \<noteq> [] \<and>
        (\<exists>v. v = fst (arg_min_list entry_tick (entries c)) \<and>
             c' = (snd (drop_entry v c))\<lparr>evictions := evictions c + 1\<rparr>)
      else entries c = [] \<and> c' = c)"
  by (auto simp: evict_one_def Let_def entry_tick_conv split: if_splits)

lemma evict_one_inv: "cache_inv c \<Longrightarrow> evict_one c = (ok, c') \<Longrightarrow> cache_inv c'"
  by (drule evict_one_cases) (auto simp: cache_inv_update_counters cache_inv_drop split: if_splits)

lemma evict_to_fit_inv: "cache_inv c \<Longrightarrow> cache_inv (evict_to_fit len c)"
proof (induction len c rule: evict_to_fit.induct)
  case (1 len c)
  then show ?case
    by (subst evict_to_fit.simps) (auto dest: evict_one_inv split: prod.splits)
qed

lemma evict_to_fit_frame [simp]:
  "tick (evict_to_fit len c) = tick c \<and> tombstones (evict_to_fit len c) = tombstones c \<and>
   config (evict_to_fit len c) = config c \<and> hits (evict_to_fit len c) = hits c \<and>
   misses (evict_to_fit len c) = misses c \<and> expirations (evict_to_fit len c) = expirations c \<and>
   negative_hits (evict_to_fit len c) = negative_hits c"
proof (induction len c rule: evict_to_fit.induct)
  case (1 len c)
  show ?case
  proof (cases "cur_bytes c + len > max_bytes c")
    case True
    obtain ok c' where ev: "evict_one c = (ok, c')" by (cases "evict_one c")
    with 1 [OF True] evict_one_cases [OF ev] True show ?thesis
      by (subst (1 2 3 4 5 6 7) evict_to_fit.simps) (auto simp: config_def split: if_splits)
  qed (simp add: evict_to_fit.simps)
qed

lemma config_fields:
  "config a = config b \<Longrightarrow> max_bytes a = max_bytes b \<and> default_ttl_secs a = default_ttl_secs b \<and>
     negative_ttl_secs a = negative_ttl_secs b \<and> max_tombstones a = max_tombstones b"
  by (simp add: config_def)

lemma evict_to_fit_config [simp]:
  "max_bytes (evict_to_fit len c) = max_bytes c"
  "default_ttl_secs (evict_to_fit len c) = default_ttl_secs c"
  "negative_ttl_secs (evict_to_fit len c) = negative_ttl_secs c"
  "max_tombstones (evict_to_fit len c) = max_tombstones c"
  using config_fields [of "evict_to_fit len c" c] by simp_all

lemma no_wrap_sum:
  "cache_inv c \<Longrightarrow> len \<le> max_bytes c \<Longrightarrow> unat (cur_bytes c + len) = unat (cur_bytes c) + unat len"
  by (auto simp: cache_inv_def word_le_nat_alt unat_word_ariths)

text \<open>The loop ends with room for the newcomer.\<close>

lemma evict_to_fit_room:
  "cache_inv c \<Longrightarrow> len \<le> max_bytes c \<Longrightarrow>
     unat (cur_bytes (evict_to_fit len c)) + unat len \<le> unat (max_bytes c)"
proof (induction len c rule: evict_to_fit.induct)
  case (1 len c)
  show ?case
  proof (cases "cur_bytes c + len > max_bytes c")
    case False
    then have "evict_to_fit len c = c" by (simp add: evict_to_fit.simps)
    with 1 False no_wrap_sum [of c len] show ?thesis
      by (simp add: not_less word_le_nat_alt)
  next
    case True
    obtain ok c' where ev: "evict_one c = (ok, c')" by (cases "evict_one c")
    show ?thesis
    proof (cases ok)
      case True
      have "max_bytes c' = max_bytes c" using evict_one_cases [OF ev] True by auto
      moreover have "cache_inv c'" using evict_one_inv [OF "1.prems"(1) ev] .
      ultimately show ?thesis
        using "1.IH" [OF \<open>cur_bytes c + len > max_bytes c\<close> ev [symmetric] True] "1.prems" ev True
          \<open>cur_bytes c + len > max_bytes c\<close>
        by (simp add: evict_to_fit.simps [of len c])
    next
      case False
      then have "entries c = []" using evict_one_cases [OF ev] by simp
      then have "unat (cur_bytes c) = 0" using "1.prems" by (simp add: cache_inv_def held_bytes_def)
      with True no_wrap_sum [OF "1.prems"] "1.prems" have False
        by (simp add: word_less_nat_alt word_le_nat_alt)
      then show ?thesis ..
    qed
  qed
qed

text \<open>Eviction only removes entries.\<close>

lemma evict_to_fit_subset: "set (entries (evict_to_fit len c)) \<subseteq> set (entries c)"
proof (induction len c rule: evict_to_fit.induct)
  case (1 len c)
  obtain ok c' where ev: "evict_one c = (ok, c')" by (cases "evict_one c")
  have "set (entries c') \<subseteq> set (entries c)"
    using evict_one_cases [OF ev] by (auto simp: hm_remove_def split: if_splits)
  with 1 ev show ?case by (subst evict_to_fit.simps) auto
qed

lemma evict_to_fit_absent:
  "hm_get (entries c) k = None \<Longrightarrow> hm_get (entries (evict_to_fit len c)) k = None"
  using evict_to_fit_subset [of len c] by (auto simp: hm_get_def map_of_eq_None_iff)

subsection \<open>Storing an entry under a fresh tick\<close>

lemma cache_inv_put:
  assumes ok: "hm_ok (entries c)" "hm_ok (tombstones c)"
    and base: "\<forall>p \<in> set (hm_remove k (entries c)). vec_ok (e_bytes (snd p)) \<and> last_tick (snd p) < last_tick e"
      "distinct (map entry_tick (hm_remove k (entries c)))"
    and new: "vec_ok (e_bytes e)" "last_tick e \<le> tick c"
    and cur: "unat (cur_bytes c) = held_bytes (hm_remove k (entries c)) + length (e_bytes e)"
      "unat (cur_bytes c) \<le> unat (max_bytes c)" "unat (max_bytes c) < 2 ^ 63"
  shows "cache_inv (c\<lparr>entries := hm_insert k e (entries c)\<rparr>)"
proof -
  let ?new = "hm_insert k e (entries c)" and ?old = "hm_remove k (entries c)"
  have m: "mset ?new = mset ((k, e) # ?old)" using ok by (simp add: mset_hm_insert)
  have "distinct (map entry_tick ((k, e) # ?old))"
    using base by (auto simp: entry_tick_def)
  then have "distinct (map entry_tick ?new)"
    using distinct_map_mset [OF m, of entry_tick] by simp
  moreover have "held_bytes ?new = held_bytes ((k, e) # ?old)"
    unfolding held_bytes_def using m by (rule sum_list_mset)
  moreover have "\<forall>p \<in> set ?new. vec_ok (e_bytes (snd p)) \<and> last_tick (snd p) \<le> tick c"
    using ok base(1) new
    by (auto simp: set_hm_insert intro!: less_imp_le [OF order.strict_trans2 [of _ "last_tick e"]])
  ultimately show ?thesis
    using ok cur by (simp add: cache_inv_def held_bytes_def)
qed

subsection \<open>Every operation keeps the invariant\<close>

lemma cache_inv_new: "unat m < 2 ^ 63 \<Longrightarrow> cache_inv (cache_new m ttl)"
  by (simp add: cache_inv_def cache_new_def held_bytes_def)

text \<open>The cache an accepted insert produces, with the eviction loop's result named.\<close>

lemma insert_with_ttl_accept:
  assumes "len64 bs \<le> max_bytes c"
    and c2: "c2 = evict_to_fit (len64 bs) (snd (drop_entry cid c))"
  shows "insert_with_ttl cid bs ttl now c =
    (True, c2\<lparr>tombstones := hm_remove cid (tombstones c), tick := tick c + 1,
       cur_bytes := cur_bytes c2 + len64 bs,
       entries := hm_insert cid \<lparr>e_bytes = bs, inserted_at = now,
         expires_at = (if ttl = 0 then u64_MAX else sat_add now ttl), last_tick = tick c + 1,
         e_hits = 0, e_misses = 0\<rparr> (entries c2)\<rparr>)"
  using assms by (simp add: insert_with_ttl_def next_tick_def Let_def not_less)

lemma insert_with_ttl_reject:
  "len64 bs > max_bytes c \<Longrightarrow> insert_with_ttl cid bs ttl now c = (False, c)"
  by (simp add: insert_with_ttl_def Let_def)

lemma insert_with_ttl_inv:
  assumes inv: "cache_inv c" and bs: "vec_ok bs" and tick: "tick c \<noteq> u64_MAX"
  shows "cache_inv (snd (insert_with_ttl cid bs ttl now c))"
proof (cases "len64 bs \<le> max_bytes c")
  case False
  with inv show ?thesis by (simp add: insert_with_ttl_reject not_le)
next
  case True
  define c2 where "c2 = evict_to_fit (len64 bs) (snd (drop_entry cid c))"
  have inv2: "cache_inv c2"
    using inv by (simp add: c2_def cache_inv_drop evict_to_fit_inv)
  have room: "unat (cur_bytes c2) + length bs \<le> unat (max_bytes c2)"
    using evict_to_fit_room [of "snd (drop_entry cid c)" "len64 bs"] True bs
    by (simp add: c2_def inv cache_inv_drop unat_len64)
  have absent: "hm_get (entries c2) cid = None"
    using inv unfolding c2_def by (intro evict_to_fit_absent) (simp add: cache_inv_def)
  have fields: "tick c2 = tick c" "max_bytes c2 = max_bytes c" "tombstones c2 = tombstones c"
    by (simp_all add: c2_def)
  have cur: "unat (cur_bytes c2 + len64 bs) = held_bytes (entries c2) + length bs"
    using inv2 room bs unat_lt_2p64 [of "max_bytes c2"]
    by (simp add: cache_inv_def unat_word_ariths unat_len64)
  let ?e = "\<lparr>e_bytes = bs, inserted_at = now,
         expires_at = (if ttl = 0 then u64_MAX else sat_add now ttl), last_tick = tick c + 1,
         e_hits = 0, e_misses = 0\<rparr>"
  let ?b = "c2\<lparr>tombstones := hm_remove cid (tombstones c), tick := tick c + 1,
       cur_bytes := cur_bytes c2 + len64 bs\<rparr>"
  have "cache_inv (?b\<lparr>entries := hm_insert cid ?e (entries ?b)\<rparr>)"
    using inv inv2 room cur bs fields less_plus_one_u64 [OF tick]
    by (intro cache_inv_put)
       (auto simp: cache_inv_def hm_remove_absent [OF absent] unat_len64 intro: order.strict_trans1)
  then show ?thesis
    by (simp add: insert_with_ttl_accept [OF True c2_def])
qed

lemma cache_get_inv:
  assumes inv: "cache_inv c" and tick: "tick c \<noteq> u64_MAX"
  shows "cache_inv (snd (cache_get cid now c))"
proof -
  have less: "last_tick e < tick c + 1" if "last_tick e \<le> tick c" for e :: cache_entry
    using that less_plus_one_u64 [OF tick] by (rule order.strict_trans1)
  let ?c = "c\<lparr>tick := tick c + 1\<rparr>"
  have inv1: "cache_inv ?c"
    using inv less by (auto simp: cache_inv_def intro: less_imp_le)
  show ?thesis
  proof (cases "hm_get (entries c) cid")
    case None
    with inv1 show ?thesis
      by (simp add: cache_get_def next_tick_def Let_def cache_inv_update_counters)
  next
    case (Some e)
    show ?thesis
    proof (cases "now \<le> expires_at e")
      case True
      let ?e = "e\<lparr>last_tick := tick c + 1, e_hits := e_hits e + 1\<rparr>"
      have "cache_inv (?c\<lparr>entries := hm_insert cid ?e (entries ?c)\<rparr>)"
        using inv less held_remove [of "entries c" cid e] Some cache_inv_entry [OF inv Some]
        by (intro cache_inv_put)
           (auto simp: cache_inv_def hm_remove_def distinct_map_filter)
      with Some True show ?thesis
        by (auto simp: cache_get_def next_tick_def Let_def dest: cache_inv_update_counters(1))
    next
      case False
      let ?d = "snd (drop_entry cid (?c\<lparr>entries := hm_insert cid (e\<lparr>e_misses := e_misses e + 1\<rparr>) (entries c)\<rparr>))"
      have "?d = snd (drop_entry cid ?c)"
        using inv Some
        by (simp add: drop_entry_def cache_inv_def hm_remove_insert)
      moreover have "cache_inv (snd (drop_entry cid ?c))" using inv1 by (rule cache_inv_drop)
      ultimately show ?thesis
        using Some False
        by (simp add: cache_get_def next_tick_def Let_def cache_inv_update_counters)
    qed
  qed
qed

lemma purge_inv: "cache_inv c \<Longrightarrow> cache_inv (snd (purge cid c))"
  by (simp add: purge_def cache_inv_drop)

lemma note_absent_inv: "cache_inv c \<Longrightarrow> cache_inv (note_absent cid now c)"
  by (auto simp: note_absent_def Let_def cache_inv_def)

lemma is_negative_inv: "cache_inv c \<Longrightarrow> cache_inv (snd (is_negative cid now c))"
  by (auto simp: is_negative_def cache_inv_def split: option.splits)

lemma sweep_drop_inv: "cache_inv c \<Longrightarrow> cache_inv (sweep_drop k c)"
  by (simp add: sweep_drop_def Let_def cache_inv_drop cache_inv_update_counters)

lemma fold_sweep_inv: "cache_inv c \<Longrightarrow> cache_inv (fold sweep_drop ks c)"
  by (induction ks arbitrary: c) (auto simp: sweep_drop_inv)

lemma sweep_expired_inv: "cache_inv c \<Longrightarrow> cache_inv (snd (sweep_expired now c))"
proof -
  assume inv: "cache_inv c"
  define c1 where "c1 = fold sweep_drop (map fst (filter (\<lambda>(k, e). now > expires_at e) (entries c))) c"
  have "cache_inv c1" unfolding c1_def using inv by (rule fold_sweep_inv)
  moreover from this have "hm_ok (tombstones c1)" by (simp add: cache_inv_def)
  ultimately show ?thesis
    by (simp add: sweep_expired_def c1_def [symmetric] Let_def cache_inv_update_counters hm_ok_retain)
qed

end
