(* ===== verification/Content_Store.thy ===== *)
theory Content_Store
  imports Prelude
begin

text \<open>
  The interface the HTTP server and the mesh host use the edge cache through: look a content id up
  at a time, store bytes under it, drop it. The contract says nothing about recency, budget or
  expiry, which only ever remove entries; it says that a lookup returns what the store holds, that
  no operation puts anything into the store but what it is given, and that the well-formedness
  predicate is kept. From it follows, once, that a store fed only with content that satisfies a
  predicate (for instance "the bytes published under this id") never returns anything else.
\<close>

locale content_store =
  fixes lookup :: "string \<Rightarrow> u64 \<Rightarrow> 's \<Rightarrow> bytes option \<times> 's"
    and store :: "string \<Rightarrow> bytes \<Rightarrow> u64 \<Rightarrow> u64 \<Rightarrow> 's \<Rightarrow> bool \<times> 's"
    and remove :: "string \<Rightarrow> 's \<Rightarrow> bool \<times> 's"
    and content :: "'s \<Rightarrow> string \<Rightarrow> bytes option"
    and ok :: "'s \<Rightarrow> bool"
  assumes lookup_holds: "ok s \<Longrightarrow> lookup k now s = (Some b, s') \<Longrightarrow> content s k = Some b"
    and lookup_keeps: "ok s \<Longrightarrow> lookup k now s = (res, s') \<Longrightarrow> content s' k' = Some b \<Longrightarrow> content s k' = Some b"
    and store_adds: "ok s \<Longrightarrow> store k b ttl now s = (fin, s') \<Longrightarrow> content s' k' = Some b' \<Longrightarrow>
          k' = k \<and> b' = b \<or> content s k' = Some b'"
    and remove_keeps: "ok s \<Longrightarrow> remove k s = (fin, s') \<Longrightarrow> content s' k' = Some b \<Longrightarrow> content s k' = Some b"
    and remove_gone: "ok s \<Longrightarrow> remove k s = (fin, s') \<Longrightarrow> content s' k = None"
    and ok_lookup: "ok s \<Longrightarrow> lookup k now s = (res, s') \<Longrightarrow> ok s'"
    and ok_store: "ok s \<Longrightarrow> store k b ttl now s = (fin, s') \<Longrightarrow> ok s'"
    and ok_remove: "ok s \<Longrightarrow> remove k s = (fin, s') \<Longrightarrow> ok s'"
begin

definition good :: "(string \<Rightarrow> bytes \<Rightarrow> bool) \<Rightarrow> 's \<Rightarrow> bool" where
  "good P s \<longleftrightarrow> ok s \<and> (\<forall>k b. content s k = Some b \<longrightarrow> P k b)"

lemma goodI: "ok s \<Longrightarrow> (\<And>k b. content s k = Some b \<Longrightarrow> P k b) \<Longrightarrow> good P s"
  by (simp add: good_def)

lemma good_ok: "good P s \<Longrightarrow> ok s"
  by (simp add: good_def)

lemma good_lookup: "good P s \<Longrightarrow> lookup k now s = (Some b, s') \<Longrightarrow> P k b"
  by (auto simp: good_def dest: lookup_holds)

lemma good_after_lookup: "good P s \<Longrightarrow> lookup k now s = (r, s') \<Longrightarrow> good P s'"
  by (auto simp: good_def dest: lookup_keeps ok_lookup)

lemma good_store: "good P s \<Longrightarrow> P k b \<Longrightarrow> store k b ttl now s = (r, s') \<Longrightarrow> good P s'"
  by (auto simp: good_def dest: store_adds ok_store)

lemma good_remove: "good P s \<Longrightarrow> remove k s = (r, s') \<Longrightarrow> good P s'"
  by (auto simp: good_def dest: remove_keeps ok_remove)

lemma lookup_after_remove:
  "ok s \<Longrightarrow> remove k s = (r, s') \<Longrightarrow> fst (lookup k now s') = None"
proof (rule ccontr)
  assume ok: "ok s" and rm: "remove k s = (r, s')" and "fst (lookup k now s') \<noteq> None"
  then obtain b s2 where "lookup k now s' = (Some b, s2)" by (cases "lookup k now s'") auto
  then have "content s' k = Some b" using lookup_holds ok_remove [OF ok rm] by blast
  with remove_gone [OF ok rm] show False by simp
qed

end

end
