(* ===== verification/Cache_LRU.thy ===== *)
theory Cache_LRU
  imports Cache Content_Store
begin

text \<open>
  What the edge cache promises, proved of the model of \<open>src/cache.rs\<close>. The abstract state is a
  list of \<open>(cid, bytes, expiry)\<close> triples, least recently used first: inserts append and drop from
  the front until the budget is met, a fresh read moves its entry to the back. The concrete cache,
  a map with recency ticks and an incremental byte count, implements it (\<open>insert_refines_lru\<close>,
  \<open>get_refines_lru\<close>). The second part runs any sequence of operations from an empty cache and reads
  off what a later lookup can return.
\<close>

section \<open>The abstract LRU store\<close>

type_synonym lru_store = "(string \<times> bytes \<times> u64) list"

definition lru_size :: "lru_store \<Rightarrow> nat" where
  "lru_size l = sum_list (map (\<lambda>(k, b, x). length b) l)"

definition lru_remove :: "string \<Rightarrow> lru_store \<Rightarrow> lru_store" where
  "lru_remove k l = filter (\<lambda>p. fst p \<noteq> k) l"

fun lru_shrink :: "nat \<Rightarrow> nat \<Rightarrow> lru_store \<Rightarrow> lru_store" where
  "lru_shrink budget need [] = []"
| "lru_shrink budget need (p # l) =
     (if budget < lru_size (p # l) + need then lru_shrink budget need l else p # l)"

definition lru_insert :: "nat \<Rightarrow> string \<Rightarrow> bytes \<Rightarrow> u64 \<Rightarrow> lru_store \<Rightarrow> lru_store" where
  "lru_insert budget k b x l = lru_shrink budget (length b) (lru_remove k l) @ [(k, b, x)]"

text \<open>The expiry second an insert at \<open>now\<close> with time-to-live \<open>ttl\<close> is given.\<close>

definition expiry :: "u64 \<Rightarrow> u64 \<Rightarrow> u64" where
  "expiry now ttl = (if ttl = 0 then u64_MAX else sat_add now ttl)"

section \<open>Abstraction\<close>

definition lru_item :: "string \<times> cache_entry \<Rightarrow> string \<times> bytes \<times> u64" where
  "lru_item = (\<lambda>(k, e). (k, e_bytes e, expires_at e))"

definition lru :: "edge_cache \<Rightarrow> lru_store" where
  "lru c = map lru_item (sort_key entry_tick (entries c))"

lemma lru_item_pair: "lru_item (k, e) = (k, e_bytes e, expires_at e)"
  by (simp add: lru_item_def)

lemma fst_lru_item [simp]: "fst (lru_item p) = fst p"
  by (simp add: lru_item_def split: prod.splits)

lemma lru_remove_entries:
  "map lru_item (sort_key entry_tick (hm_remove k es)) = lru_remove k (map lru_item (sort_key entry_tick es))"
  by (simp add: lru_remove_def hm_remove_fst filter_map comp_def filter_sort)

lemma lru_size_held: "lru_size (lru c) = held_bytes (entries c)"
proof -
  have "lru_size (lru c) = sum_list (map (\<lambda>(k, e). length (e_bytes e)) (sort_key entry_tick (entries c)))"
    by (simp add: lru_size_def lru_def lru_item_def comp_def case_prod_unfold)
  also have "\<dots> = held_bytes (entries c)"
    unfolding held_bytes_def by (rule sum_list_mset) simp
  finally show ?thesis .
qed

lemma lru_lookup: "cache_inv c \<Longrightarrow>
    map_of (lru c) k = map_option (\<lambda>e. (e_bytes e, expires_at e)) (hm_get (entries c) k)"
proof -
  assume inv: "cache_inv c"
  let ?s = "sort_key entry_tick (entries c)"
  have "distinct (map fst ?s)"
    using inv distinct_map_mset [of ?s "entries c" fst] by (simp add: cache_inv_def hm_ok_def)
  then have "map_of ?s = map_of (entries c)"
    using inv by (intro map_of_inject_set [THEN iffD2]) (auto simp: cache_inv_def hm_ok_def)
  moreover have "map_of (map lru_item xs) k = map_option (\<lambda>e. (e_bytes e, expires_at e)) (map_of xs k)"
    for xs by (induction xs) (auto simp: lru_item_def)
  ultimately show ?thesis by (simp add: lru_def hm_get_def)
qed

text \<open>Storing under a tick above all others moves the entry to the back.\<close>

lemma sort_put:
  assumes "hm_ok es" "distinct (map entry_tick (hm_remove k es))"
    and "\<forall>p \<in> set (hm_remove k es). last_tick (snd p) < last_tick e"
  shows "sort_key entry_tick (hm_insert k e es) = sort_key entry_tick (hm_remove k es) @ [(k, e)]"
proof -
  have m: "mset (hm_insert k e es) = mset (hm_remove k es @ [(k, e)])"
    using assms(1) by (simp add: mset_hm_insert)
  have ticks: "\<forall>p \<in> set (hm_remove k es). entry_tick p < entry_tick (k, e)"
    using assms(3) by (simp add: entry_tick_def case_prod_beta)
  then have "distinct (map entry_tick (hm_remove k es @ [(k, e)]))"
    using assms(2) by auto
  then have "inj_on entry_tick (set (hm_insert k e es))"
    using distinct_map_mset [OF m, of entry_tick] by (simp add: distinct_map)
  moreover have "sort_key entry_tick (hm_remove k es @ [(k, e)]) = sort_key entry_tick (hm_remove k es) @ [(k, e)]"
    using ticks by (intro sort_key_snoc_max) (auto intro: less_imp_le)
  ultimately show ?thesis
    using m by (intro sort_key_inj_key_eq)
      (simp_all flip: \<open>sort_key entry_tick (hm_remove k es @ [(k, e)]) = _\<close>)
qed

text \<open>The evicted entry is the head of the list.\<close>

lemma hd_sort_arg_min:
  assumes "xs \<noteq> []" "distinct (map f xs)"
  shows "hd (sort_key f xs) = arg_min_list f xs"
proof -
  let ?s = "sort_key f xs"
  have ne: "?s \<noteq> []" using assms(1) by (metis length_0_conv length_sort)
  then obtain y ys where s: "?s = y # ys" by (cases ?s) auto
  have "sorted (map f ?s)" by simp
  then have "\<forall>x \<in> set ?s. f y \<le> f x" by (simp add: s)
  then have "f y \<le> f (arg_min_list f xs)" using arg_min_list_in [OF assms(1), of f] by simp
  moreover have "f (arg_min_list f xs) \<le> f y"
    using s f_arg_min_list_f [OF assms(1), of f] by (metis Min_le finite_imageI finite_set imageI
        list.set_intros(1) set_sort)
  ultimately have "f y = f (arg_min_list f xs)" by simp
  moreover have "y \<in> set xs" using s by (metis list.set_intros(1) set_sort)
  ultimately show ?thesis
    using assms arg_min_list_in [OF assms(1), of f] s by (auto simp: distinct_map inj_on_def)
qed

lemma evict_one_lru:
  assumes inv: "cache_inv c" and ne: "entries c \<noteq> []"
  shows "lru (snd (evict_one c)) = tl (lru c)"
proof -
  let ?s = "sort_key entry_tick (entries c)"
  let ?v = "arg_min_list entry_tick (entries c)"
  obtain y ys where s: "?s = y # ys" using ne by (metis length_0_conv length_sort neq_Nil_conv)
  have "hd ?s = ?v" using inv ne by (intro hd_sort_arg_min) (simp_all add: cache_inv_def)
  with s have y: "y = ?v" by simp
  have "distinct (map fst ?s)"
    using inv distinct_map_mset [of ?s "entries c" fst] by (simp add: cache_inv_def hm_ok_def)
  then have "fst y \<notin> fst ` set ys" using s by simp
  then have "\<forall>p \<in> set ys. fst p \<noteq> fst ?v" using y by (metis imageI)
  then have "filter (\<lambda>p. fst p \<noteq> fst ?v) ys = ys" by (simp add: filter_id_conv)
  then have "lru_remove (fst ?v) (map lru_item ?s) = map lru_item ys"
    using s y by (simp add: lru_remove_def filter_map comp_def)
  then show ?thesis
    using ne s by (simp add: evict_one_def Let_def lru_def lru_remove_entries entry_tick_conv)
qed

lemma evict_to_fit_lru:
  "cache_inv c \<Longrightarrow> len \<le> max_bytes c \<Longrightarrow>
     lru (evict_to_fit len c) = lru_shrink (unat (max_bytes c)) (unat len) (lru c)"
proof (induction len c rule: evict_to_fit.induct)
  case (1 len c)
  have guard: "cur_bytes c + len > max_bytes c \<longleftrightarrow> unat (max_bytes c) < lru_size (lru c) + unat len"
    using "1.prems" no_wrap_sum [OF "1.prems"]
    by (simp add: word_less_nat_alt lru_size_held cache_inv_def)
  show ?case
  proof (cases "cur_bytes c + len > max_bytes c")
    case False
    with guard show ?thesis by (cases "lru c") (simp_all add: evict_to_fit.simps [of len c])
  next
    case True
    obtain ok c' where ev: "evict_one c = (ok, c')" by (cases "evict_one c")
    show ?thesis
    proof (cases ok)
      case True
      have "max_bytes c' = max_bytes c" using evict_one_cases [OF ev] True by auto
      moreover have "cache_inv c'" using evict_one_inv [OF "1.prems"(1) ev] .
      moreover have "lru c' = tl (lru c)"
        using evict_one_lru [OF "1.prems"(1)] evict_one_cases [OF ev] ev True by simp
      moreover have "lru c \<noteq> []"
        using evict_one_cases [OF ev] True by (auto simp: lru_def dest: arg_cong [where f = length])
      ultimately show ?thesis
        using "1.IH" [OF \<open>cur_bytes c + len > max_bytes c\<close> ev [symmetric] True] "1.prems" ev True
          \<open>cur_bytes c + len > max_bytes c\<close> guard
        by (cases "lru c") (simp_all add: evict_to_fit.simps [of len c])
    next
      case False
      then have "entries c = [] \<and> c' = c" using evict_one_cases [OF ev] by simp
      with ev False show ?thesis by (simp add: evict_to_fit.simps [of len c] lru_def)
    qed
  qed
qed

text \<open>
  C12: an insert implements the abstract LRU store. It is refused exactly when the object alone is
  over the budget, and then nothing changes; otherwise the least recently used entries, and no
  others, are dropped until the newcomer fits, and it becomes the most recently used entry with the
  expiry its time-to-live gives.
\<close>
theorem insert_refines_lru:
  assumes "cache_inv c" "vec_ok bs" "tick c \<noteq> u64_MAX"
    and ins: "insert_with_ttl cid bs ttl now c = (ok, c')"
  shows "(ok \<longleftrightarrow> length bs \<le> unat (max_bytes c)) \<and>
     lru c' = (if ok then lru_insert (unat (max_bytes c)) cid bs (expiry now ttl) (lru c) else lru c)"
proof -
  have fit: "len64 bs \<le> max_bytes c \<longleftrightarrow> length bs \<le> unat (max_bytes c)"
    using assms(2) by (simp add: word_le_nat_alt unat_len64)
  have ok: "ok \<longleftrightarrow> length bs \<le> unat (max_bytes c)"
    using ins fit by (auto simp: insert_with_ttl_def Let_def next_tick_def not_less split: if_splits)
  define c2 where "c2 = evict_to_fit (len64 bs) (snd (drop_entry cid c))"
  have "lru c' = lru_insert (unat (max_bytes c)) cid bs (expiry now ttl) (lru c)" if ok
  proof -
    have le: "len64 bs \<le> max_bytes c" using that ok fit by simp
    have inv2: "cache_inv c2" using assms(1) by (simp add: c2_def cache_inv_drop evict_to_fit_inv)
    have absent: "hm_get (entries c2) cid = None"
      using assms(1) unfolding c2_def by (intro evict_to_fit_absent) (simp add: cache_inv_def)
    have ticks: "\<forall>p \<in> set (entries c2). last_tick (snd p) < tick c + 1"
      using inv2 less_plus_one_u64 [OF assms(3)]
      by (auto simp: cache_inv_def c2_def intro: order.strict_trans1)
    have "lru c2 = lru_shrink (unat (max_bytes c)) (length bs) (lru_remove cid (lru c))"
      using evict_to_fit_lru [of "snd (drop_entry cid c)" "len64 bs"] assms(1,2) le
      by (simp add: c2_def cache_inv_drop unat_len64 lru_def lru_remove_entries)
    moreover have "c' = c2\<lparr>tombstones := hm_remove cid (tombstones c), tick := tick c + 1,
       cur_bytes := cur_bytes c2 + len64 bs,
       entries := hm_insert cid \<lparr>e_bytes = bs, inserted_at = now, expires_at = expiry now ttl,
         last_tick = tick c + 1, e_hits = 0, e_misses = 0\<rparr> (entries c2)\<rparr>"
      using ins insert_with_ttl_accept [OF le c2_def, of ttl now] by (simp add: expiry_def)
    ultimately show ?thesis
      using inv2 ticks absent
      by (simp add: lru_def lru_insert_def sort_put cache_inv_def hm_remove_absent lru_item_def)
  qed
  moreover have "c' = c" if "\<not> ok"
    using ins that ok fit by (simp add: insert_with_ttl_reject not_le [symmetric])
  ultimately show ?thesis using ok by simp
qed

lemma insert_refines_lru_witness:
  "lru (snd (insert_with_ttl ''b'' [1, 2] 0 7 (snd (insert_with_ttl ''a'' [9, 9] 5 3 (cache_new 3 60)))))
     = [(''b'', [1, 2], u64_MAX)]"
proof -
  let ?c0 = "cache_new 3 60"
  let ?c1 = "snd (insert_with_ttl ''a'' [9, 9] 5 3 ?c0)"
  have v: "vec_ok [9, 9 :: u8]" "vec_ok [1, 2 :: u8]" by (simp_all add: vec_ok_def)
  have i0: "cache_inv ?c0" by (rule cache_inv_new) simp
  have t0: "tick ?c0 \<noteq> u64_MAX" and m0: "max_bytes ?c0 = 3"
    by (simp_all add: cache_new_def u64_MAX_def)
  have le: "len64 [9, 9 :: u8] \<le> max_bytes ?c0"
    by (simp add: len64_def cache_new_def word_le_nat_alt)
  have i1: "cache_inv ?c1" by (rule insert_with_ttl_inv [OF i0 v(1) t0])
  have c1: "tick ?c1 = 1" "max_bytes ?c1 = 3"
    by (simp_all add: insert_with_ttl_accept [OF le refl]) (simp_all add: cache_new_def)
  have t1: "tick ?c1 \<noteq> u64_MAX" by (simp add: c1 u64_MAX_def)
  have l1: "lru ?c1 = lru_insert 3 ''a'' [9, 9] (expiry 3 5) []"
    using insert_refines_lru [OF i0 v(1) t0 surjective_pairing, of "''a''" 5 3] m0
    by (simp add: lru_def cache_new_def)
  show ?thesis
    using insert_refines_lru [OF i1 v(2) t1 surjective_pairing, of "''b''" 0 7]
    by (simp add: l1 c1 lru_insert_def lru_remove_def lru_size_def expiry_def)
qed

section \<open>Lookups\<close>

definition lru_get :: "u64 \<Rightarrow> string \<Rightarrow> lru_store \<Rightarrow> bytes option \<times> lru_store" where
  "lru_get now k l =
     (case map_of l k of
        None \<Rightarrow> (None, l)
      | Some (b, x) \<Rightarrow>
          if now \<le> x then (Some b, lru_remove k l @ [(k, b, x)]) else (None, lru_remove k l))"

text \<open>
  C13: a lookup implements the abstract one. It returns the stored bytes exactly while the entry has
  not expired, and makes it the most recently used; an expired entry is dropped, and no lookup
  changes anything else of what is stored.
\<close>
theorem get_refines_lru:
  assumes inv: "cache_inv c" and tick: "tick c \<noteq> u64_MAX"
  shows "(fst (cache_get cid now c), lru (snd (cache_get cid now c))) = lru_get now cid (lru c)"
proof (cases "hm_get (entries c) cid")
  case None
  with lru_lookup [OF inv, of cid] show ?thesis
    by (simp add: lru_get_def cache_get_def next_tick_def Let_def) (simp add: lru_def)
next
  case (Some e)
  have ok: "hm_ok (entries c)" using inv by (simp add: cache_inv_def)
  have map_of: "map_of (lru c) cid = Some (e_bytes e, expires_at e)"
    using lru_lookup [OF inv, of cid] Some by simp
  show ?thesis
  proof (cases "now \<le> expires_at e")
    case True
    let ?e = "e\<lparr>last_tick := tick c + 1, e_hits := e_hits e + 1\<rparr>"
    have "\<forall>p \<in> set (hm_remove cid (entries c)). last_tick (snd p) < last_tick ?e"
      using inv less_plus_one_u64 [OF tick]
      by (auto simp: cache_inv_def hm_remove_def intro: order.strict_trans1)
    moreover have "distinct (map entry_tick (hm_remove cid (entries c)))"
      using inv by (simp add: cache_inv_def hm_remove_def distinct_map_filter)
    ultimately have "sort_key entry_tick (hm_insert cid ?e (entries c))
        = sort_key entry_tick (hm_remove cid (entries c)) @ [(cid, ?e)]"
      using ok by (intro sort_put)
    with Some True map_of show ?thesis
      by (simp add: lru_get_def cache_get_def next_tick_def Let_def lru_def lru_remove_entries lru_item_pair)
  next
    case False
    with Some ok map_of show ?thesis
      by (simp add: lru_get_def cache_get_def next_tick_def Let_def lru_def hm_remove_insert lru_remove_entries)
  qed
qed

lemma get_refines_lru_witness:
  "fst (cache_get ''a'' 8 (snd (insert_with_ttl ''a'' [9, 9] 5 3 (cache_new 3 60)))) = Some [9, 9]
   \<and> fst (cache_get ''a'' 9 (snd (insert_with_ttl ''a'' [9, 9] 5 3 (cache_new 3 60)))) = None"
proof -
  let ?c0 = "cache_new 3 60"
  let ?c1 = "snd (insert_with_ttl ''a'' [9, 9] 5 3 ?c0)"
  have v: "vec_ok [9, 9 :: u8]" by (simp add: vec_ok_def)
  have i0: "cache_inv ?c0" by (rule cache_inv_new) simp
  have t0: "tick ?c0 \<noteq> u64_MAX" by (simp add: cache_new_def u64_MAX_def)
  have le: "len64 [9, 9 :: u8] \<le> max_bytes ?c0"
    by (simp add: len64_def cache_new_def word_le_nat_alt)
  have i1: "cache_inv ?c1" by (rule insert_with_ttl_inv [OF i0 v t0])
  have e: "evict_to_fit (len64 [9, 9]) ?c0 = ?c0"
    by (subst evict_to_fit.simps) (simp add: cache_new_def len64_def word_less_nat_alt)
  have c1: "tick ?c1 = 1" "lru ?c1 = [(''a'', [9, 9], 8)]"
    by (simp_all add: insert_with_ttl_accept [OF le refl] lru_def)
       (simp_all add: cache_new_def drop_entry_def hm_get_def hm_insert_def lru_item_def
          e [unfolded cache_new_def] sat_add_def)
  have t1: "tick ?c1 \<noteq> u64_MAX" by (simp add: c1 u64_MAX_def)
  show ?thesis
    using get_refines_lru [OF i1 t1, of "''a''" 8] get_refines_lru [OF i1 t1, of "''a''" 9]
    by (simp add: c1 lru_get_def word_le_nat_alt)
qed

section \<open>What the store holds, without any bound\<close>

text \<open>
  These facts need only that keys are distinct. They hold for any budget and after any number of
  operations, and they are the contract the server and the host rely on.
\<close>

definition cache_ok :: "edge_cache \<Rightarrow> bool" where
  "cache_ok c \<longleftrightarrow> hm_ok (entries c) \<and> hm_ok (tombstones c)"

definition content :: "edge_cache \<Rightarrow> string \<Rightarrow> bytes option" where
  "content c k = map_option e_bytes (hm_get (entries c) k)"

lemma evict_to_fit_hm_ok: "hm_ok (entries c) \<Longrightarrow> hm_ok (entries (evict_to_fit len c))"
proof (induction len c rule: evict_to_fit.induct)
  case (1 len c)
  obtain ok c' where ev: "evict_one c = (ok, c')" by (cases "evict_one c")
  have "hm_ok (entries c')"
    using evict_one_cases [OF ev] "1.prems" by (auto split: if_splits)
  with 1 ev show ?case by (subst evict_to_fit.simps) auto
qed

lemma insert_entry:
  assumes "cache_ok c" and ins: "insert_with_ttl cid bs ttl now c = (ok, c')"
    and get: "hm_get (entries c') k = Some e"
  shows "ok \<and> k = cid \<and> e_bytes e = bs \<and> expires_at e = expiry now ttl \<and> inserted_at e = now
       \<or> (k \<noteq> cid \<or> \<not> ok) \<and> hm_get (entries c) k = Some e"
proof (cases "len64 bs \<le> max_bytes c")
  case False
  with ins get show ?thesis by (auto simp: insert_with_ttl_reject not_le)
next
  case True
  let ?d = "snd (drop_entry cid c)"
  have okd: "hm_ok (entries ?d)" using assms(1) by (simp add: cache_ok_def)
  have sub: "hm_get (entries c) k = Some e"
    if "hm_get (entries (evict_to_fit (len64 bs) ?d)) k = Some e"
  proof -
    have "(k, e) \<in> set (entries ?d)"
      using hm_get_in [OF that] evict_to_fit_subset [of "len64 bs" ?d] by blast
    then have "hm_get (entries ?d) k = Some e" using okd by (rule hm_in_get [rotated])
    then show ?thesis using assms(1) by (auto simp: cache_ok_def split: if_splits)
  qed
  from True ins get sub show ?thesis
    using evict_to_fit_hm_ok [OF okd]
    by (auto simp: insert_with_ttl_accept [OF True refl] expiry_def split: if_splits)
qed

text \<open>What an accepted insert leaves under its id.\<close>

lemma insert_stored:
  assumes "cache_ok c" "len64 b \<le> max_bytes c"
  shows "\<exists>e. hm_get (entries (snd (insert_with_ttl k b ttl now c))) k = Some e \<and> e_bytes e = b \<and>
    expires_at e = expiry now ttl"
  using assms evict_to_fit_hm_ok [of "snd (drop_entry k c)" "len64 b"]
  by (simp add: insert_with_ttl_accept [OF assms(2) refl] expiry_def cache_ok_def)

lemma cache_ok_drop: "cache_ok c \<Longrightarrow> cache_ok (snd (drop_entry k c))"
  by (simp add: cache_ok_def)

lemma cache_ok_insert: "cache_ok c \<Longrightarrow> cache_ok (snd (insert_with_ttl cid bs ttl now c))"
proof (cases "len64 bs \<le> max_bytes c")
  case True
  assume "cache_ok c"
  then show ?thesis
    using evict_to_fit_hm_ok [of "snd (drop_entry cid c)" "len64 bs"]
    by (simp add: insert_with_ttl_accept [OF True refl] cache_ok_def)
qed (simp add: insert_with_ttl_reject not_le)

lemma get_entries:
  "cache_ok c \<Longrightarrow> hm_get (entries (snd (cache_get cid now c))) k =
     (case hm_get (entries c) k of
        None \<Rightarrow> None
      | Some e \<Rightarrow>
          if k = cid then (if now \<le> expires_at e
                           then Some (e\<lparr>last_tick := tick c + 1, e_hits := e_hits e + 1\<rparr>) else None)
          else Some e)"
  by (auto simp: cache_get_def next_tick_def Let_def cache_ok_def split: option.splits)

lemma get_result:
  "fst (cache_get cid now c) =
     (case hm_get (entries c) cid of None \<Rightarrow> None | Some e \<Rightarrow> if now \<le> expires_at e then Some (e_bytes e) else None)"
  by (simp add: cache_get_def next_tick_def Let_def split: option.splits)

lemma cache_ok_get: "cache_ok c \<Longrightarrow> cache_ok (snd (cache_get cid now c))"
  by (auto simp: cache_get_def next_tick_def Let_def cache_ok_def split: option.splits)

interpretation cache: content_store cache_get insert_with_ttl purge content cache_ok
proof
  fix s s' :: edge_cache and k k' :: string and now ttl :: u64 and b b' :: bytes
    and r :: "bytes option" and r2 :: bool
  assume ok: "cache_ok s"
  show "content s k = Some b" if "cache_get k now s = (Some b, s')"
    using that get_result [of k now s] by (auto simp: content_def split: option.splits if_splits)
  show "content s k' = Some b" if "cache_get k now s = (r, s')" "content s' k' = Some b"
    using that get_entries [OF ok, of k now k'] by (auto simp: content_def split: option.splits if_splits)
  show "k' = k \<and> b' = b \<or> content s k' = Some b'"
    if "insert_with_ttl k b ttl now s = (r2, s')" "content s' k' = Some b'"
    using that insert_entry [OF ok that(1), of k'] by (auto simp: content_def)
  show "content s k' = Some b" if "purge k s = (r2, s')" "content s' k' = Some b"
    using that ok entries_drop [of k s] by (auto simp: purge_def content_def cache_ok_def split: if_splits)
  show "content s' k = None" if "purge k s = (r2, s')"
    using that ok entries_drop [of k s] by (auto simp: purge_def content_def cache_ok_def)
  show "cache_ok s'" if "cache_get k now s = (r, s')"
    using that cache_ok_get [OF ok, of k now] by simp
  show "cache_ok s'" if "insert_with_ttl k b ttl now s = (r2, s')"
    using that cache_ok_insert [OF ok, of k b ttl now] by simp
  show "cache_ok s'" if "purge k s = (r2, s')"
    using that cache_ok_drop [OF ok, of k] by (simp add: purge_def)
qed

end
