(* ===== verification/Cache_Trace.thy ===== *)
theory Cache_Trace
  imports Cache_LRU
begin

text \<open>
  Whole runs of the edge cache of \<open>src/cache.rs\<close>: any sequence of its public operations from an
  empty cache. Two logs say what a run has stored and what it has noted as absent; the theorems read
  off what a later lookup or negative-cache query can answer, that the byte budget and the tombstone
  cap are never exceeded, and that the counters account for every read.
\<close>

datatype cache_op =
    InsertTtl string bytes u64 u64
  | Insert string bytes u64
  | Get string u64
  | Purge string
  | Sweep u64
  | NoteAbsent string u64
  | IsNegative string u64

fun cache_step :: "edge_cache \<Rightarrow> cache_op \<Rightarrow> edge_cache" where
  "cache_step c (InsertTtl k b ttl now) = snd (insert_with_ttl k b ttl now c)"
| "cache_step c (Insert k b now) = snd (cache_insert k b now c)"
| "cache_step c (Get k now) = snd (cache_get k now c)"
| "cache_step c (Purge k) = snd (purge k c)"
| "cache_step c (Sweep now) = snd (sweep_expired now c)"
| "cache_step c (NoteAbsent k now) = note_absent k now c"
| "cache_step c (IsNegative k now) = snd (is_negative k now c)"

definition cache_run :: "u64 \<Rightarrow> u64 \<Rightarrow> cache_op list \<Rightarrow> edge_cache" where
  "cache_run budget ttl ops = foldl cache_step (cache_new budget ttl) ops"

lemma cache_run_Nil [simp]: "cache_run m d [] = cache_new m d"
  by (simp add: cache_run_def)

lemma cache_run_snoc [simp]: "cache_run m d (ops @ [x]) = cache_step (cache_run m d ops) x"
  by (simp add: cache_run_def)

section \<open>Frames\<close>

lemma sweep_drop_frame [simp]:
  "config (sweep_drop k c) = config c" "tick (sweep_drop k c) = tick c"
  "hits (sweep_drop k c) = hits c" "misses (sweep_drop k c) = misses c"
  "tombstones (sweep_drop k c) = tombstones c"
  "entries (sweep_drop k c) = hm_remove k (entries c)"
  by (simp_all add: sweep_drop_def Let_def config_def)

lemma fold_sweep_frame [simp]:
  "config (fold sweep_drop ks c) = config c" "tick (fold sweep_drop ks c) = tick c"
  "hits (fold sweep_drop ks c) = hits c" "misses (fold sweep_drop ks c) = misses c"
  "tombstones (fold sweep_drop ks c) = tombstones c"
  by (induction ks arbitrary: c) simp_all

lemma fold_sweep_get:
  "hm_ok (entries c) \<Longrightarrow> hm_ok (entries (fold sweep_drop ks c)) \<and>
     hm_get (entries (fold sweep_drop ks c)) k = (if k \<in> set ks then None else hm_get (entries c) k)"
  by (induction ks arbitrary: c) auto

lemma config_update [simp]:
  "config (c\<lparr>entries := es\<rparr>) = config c" "config (c\<lparr>tombstones := ts\<rparr>) = config c"
  "config (c\<lparr>cur_bytes := n\<rparr>) = config c" "config (c\<lparr>tick := n\<rparr>) = config c"
  "config (c\<lparr>hits := n\<rparr>) = config c" "config (c\<lparr>misses := n\<rparr>) = config c"
  "config (c\<lparr>expirations := n\<rparr>) = config c" "config (c\<lparr>evictions := n\<rparr>) = config c"
  "config (c\<lparr>negative_hits := n\<rparr>) = config c"
  by (simp_all add: config_def)

lemma config_insert [simp]: "config (snd (insert_with_ttl k b ttl now c)) = config c"
  by (cases "len64 b \<le> max_bytes c")
     (simp_all add: insert_with_ttl_accept [OF _ refl] insert_with_ttl_reject not_le)

lemma config_get [simp]: "config (snd (cache_get k now c)) = config c"
  by (simp add: cache_get_def next_tick_def Let_def split: option.split)

lemma config_step [simp]: "config (cache_step c x) = config c"
  by (cases x)
     (simp_all add: cache_insert_def purge_def sweep_expired_def note_absent_def is_negative_def Let_def
        split: option.split)

lemma config_run: "config (cache_run m d ops) = config (cache_new m d)"
  by (induction ops rule: rev_induct) simp_all

lemma config_run_fields:
  "max_bytes (cache_run m d ops) = m" "default_ttl_secs (cache_run m d ops) = d"
  "negative_ttl_secs (cache_run m d ops) = DEFAULT_NEGATIVE_TTL_SECS"
  "max_tombstones (cache_run m d ops) = DEFAULT_MAX_TOMBSTONES"
  using config_run [of m d ops] by (simp_all add: config_def cache_new_def)

lemma cache_ok_note: "cache_ok c \<Longrightarrow> cache_ok (note_absent cid now c)"
  by (auto simp: note_absent_def Let_def cache_ok_def)

lemma cache_ok_negative: "cache_ok c \<Longrightarrow> cache_ok (snd (is_negative cid now c))"
  by (auto simp: is_negative_def cache_ok_def split: option.splits)

lemma cache_ok_sweep: "cache_ok c \<Longrightarrow> cache_ok (snd (sweep_expired now c))"
  using fold_sweep_get [of c] by (simp add: cache_ok_def sweep_expired_def Let_def hm_ok_retain)

lemma cache_ok_step: "cache_ok c \<Longrightarrow> cache_ok (cache_step c x)"
  by (cases x)
     (simp_all add: cache_ok_insert cache_insert_def cache_ok_get purge_def cache_ok_drop
        cache_ok_note cache_ok_negative cache_ok_sweep)

lemma cache_ok_run: "cache_ok (cache_run m d ops)"
  by (induction ops rule: rev_induct) (simp_all add: cache_ok_step, simp add: cache_ok_def cache_new_def)

section \<open>What a lookup can return\<close>

text \<open>
  The log of a run: for every id the bytes and the expiry second of the last insert that was not
  over budget, forgotten by a purge.
\<close>

fun put_step :: "u64 \<Rightarrow> u64 \<Rightarrow> (string \<rightharpoonup> bytes \<times> u64) \<Rightarrow> cache_op \<Rightarrow> (string \<rightharpoonup> bytes \<times> u64)" where
  "put_step m d lg (InsertTtl k b ttl now) =
     (if len64 b \<le> m then lg(k \<mapsto> (b, expiry now ttl)) else lg)"
| "put_step m d lg (Insert k b now) =
     (if len64 b \<le> m then lg(k \<mapsto> (b, expiry now d)) else lg)"
| "put_step m d lg (Purge k) = lg(k := None)"
| "put_step m d lg _ = lg"

definition put_log :: "u64 \<Rightarrow> u64 \<Rightarrow> cache_op list \<Rightarrow> (string \<rightharpoonup> bytes \<times> u64)" where
  "put_log m d ops = foldl (put_step m d) (\<lambda>_. None) ops"

definition logged :: "edge_cache \<Rightarrow> (string \<rightharpoonup> bytes \<times> u64) \<Rightarrow> bool" where
  "logged c lg \<longleftrightarrow>
     (\<forall>k e. hm_get (entries c) k = Some e \<longrightarrow> lg k = Some (e_bytes e, expires_at e))"

lemma insert_ok_iff: "insert_with_ttl k b ttl now c = (ok, c') \<Longrightarrow> ok \<longleftrightarrow> len64 b \<le> max_bytes c"
  by (auto simp: insert_with_ttl_def Let_def next_tick_def not_less split: if_splits)

lemma logged_insert:
  assumes "cache_ok c" "logged c lg"
  shows "logged (snd (insert_with_ttl k b ttl now c))
           (if len64 b \<le> max_bytes c then lg(k \<mapsto> (b, expiry now ttl)) else lg)"
proof -
  obtain ok c' where ins: "insert_with_ttl k b ttl now c = (ok, c')" by fastforce
  show ?thesis
    unfolding logged_def ins snd_conv
    using insert_ok_iff [OF ins] insert_entry [OF assms(1) ins] assms(2)
    by (fastforce simp: logged_def)
qed

lemma logged_step:
  assumes ok: "cache_ok c" and lg: "logged c lg"
  shows "logged (cache_step c x) (put_step (max_bytes c) (default_ttl_secs c) lg x)"
proof (cases x)
  case (Get k now)
  with lg get_entries [OF ok, of k now] show ?thesis
    by (auto simp: logged_def split: option.splits if_splits)
next
  case (Sweep now)
  with lg fold_sweep_get [of c] ok show ?thesis
    by (auto simp: logged_def sweep_expired_def Let_def cache_ok_def split: if_splits)
qed (use ok lg logged_insert [OF ok lg] in
    \<open>auto simp: cache_insert_def logged_def purge_def cache_ok_def note_absent_def Let_def
       is_negative_def split: option.splits if_splits\<close>)

lemma logged_run: "logged (cache_run m d ops) (put_log m d ops)"
proof (induction ops rule: rev_induct)
  case (snoc x ops)
  then show ?case
    using logged_step [OF cache_ok_run, of m d ops "put_log m d ops" x]
    by (simp add: put_log_def config_run_fields)
qed (simp add: logged_def cache_new_def hm_get_def)

text \<open>
  C14: after any sequence of operations, a lookup returns only the bytes of the last accepted insert
  under that very id, never after a purge of it, and never past the expiry that insert was given. So
  no entry is ever stale, mixed up between ids, or served after its time.
\<close>
theorem lookup_returns_last_insert:
  assumes "fst (cache_get cid now (cache_run m d ops)) = Some b"
  shows "\<exists>x. put_log m d ops cid = Some (b, x) \<and> now \<le> x"
  using assms logged_run [of m d ops]
  by (auto simp: get_result logged_def split: option.splits if_splits)

lemma lookup_returns_last_insert_witness:
  "\<exists>x. put_log 9 60 [InsertTtl ''a'' [1, 2] 5 3, NoteAbsent ''b'' 4] ''a'' = Some ([1, 2], x) \<and> 7 \<le> x"
proof (rule lookup_returns_last_insert)
  have e: "evict_to_fit (len64 [1, 2 :: u8]) (cache_new 9 60) = cache_new 9 60"
    by (subst evict_to_fit.simps) (simp add: cache_new_def len64_def word_less_nat_alt)
  have le: "len64 [1, 2 :: u8] \<le> max_bytes (cache_new 9 60)"
    by (simp add: len64_def cache_new_def word_le_nat_alt)
  have "snd (drop_entry ''a'' (cache_new 9 60)) = cache_new 9 60"
    by (simp add: cache_new_def drop_entry_def hm_get_def)
  then show "fst (cache_get ''a'' 7 (cache_run 9 60 [InsertTtl ''a'' [1, 2] 5 3, NoteAbsent ''b'' 4])) = Some [1, 2]"
    using e insert_with_ttl_accept [OF le refl, of "''a''" 5 3]
    by (simp add: cache_run_def get_result note_absent_def Let_def)
       (simp add: cache_new_def hm_get_def hm_insert_def sat_add_def word_le_nat_alt)
qed

section \<open>Budget and counters\<close>

fun op_ok :: "cache_op \<Rightarrow> bool" where
  "op_ok (InsertTtl k b ttl now) = vec_ok b"
| "op_ok (Insert k b now) = vec_ok b"
| "op_ok _ = True"

lemma tick_step_le: "unat (tick (cache_step c x)) \<le> Suc (unat (tick c))"
proof -
  have "unat (tick c + 1) \<le> Suc (unat (tick c))"
    using unat_plus_one [of "tick c"] by (cases "tick c = u64_MAX") (simp_all add: u64_MAX_def)
  then have "unat (tick (snd (insert_with_ttl k b ttl now c))) \<le> Suc (unat (tick c))" for k b ttl now
    by (cases "len64 b \<le> max_bytes c")
       (simp_all add: insert_with_ttl_accept [OF _ refl] insert_with_ttl_reject not_le)
  with \<open>unat (tick c + 1) \<le> Suc (unat (tick c))\<close> show ?thesis
    by (cases x)
       (simp_all add: cache_insert_def cache_get_def next_tick_def Let_def purge_def sweep_expired_def
          note_absent_def is_negative_def split: option.splits)
qed

lemma cache_inv_step:
  "cache_inv c \<Longrightarrow> tick c \<noteq> u64_MAX \<Longrightarrow> op_ok x \<Longrightarrow> cache_inv (cache_step c x)"
  by (cases x)
     (simp_all add: insert_with_ttl_inv cache_insert_def cache_get_inv purge_inv sweep_expired_inv
        note_absent_inv is_negative_inv)

lemma cache_inv_run:
  "unat m < 2 ^ 63 \<Longrightarrow> list_all op_ok ops \<Longrightarrow> length ops < 2 ^ 64 - 1 \<Longrightarrow>
     cache_inv (cache_run m d ops) \<and> unat (tick (cache_run m d ops)) \<le> length ops"
proof (induction ops rule: rev_induct)
  case Nil
  then show ?case by (simp add: cache_inv_new) (simp add: cache_new_def)
next
  case (snoc x ops)
  let ?c = "cache_run m d ops"
  have IH: "cache_inv ?c" "unat (tick ?c) \<le> length ops" using snoc by simp_all
  have "tick ?c \<noteq> u64_MAX"
    using IH(2) snoc.prems(3) by (auto simp: unat_u64_MAX)
  then show ?case
    using IH snoc.prems tick_step_le [of ?c x] by (simp add: cache_inv_step)
qed

text \<open>
  C15: the byte budget is never exceeded. After any run, the lengths of all stored objects add up to
  exactly the total the cache maintains incrementally, and that total is at most the budget. The
  budget is below \<open>2^63\<close> and the run shorter than the 64-bit tick counter.
\<close>
theorem run_within_budget:
  assumes "unat m < 2 ^ 63" "list_all op_ok ops" "length ops < 2 ^ 64 - 1"
  shows "held_bytes (entries (cache_run m d ops)) = unat (cur_bytes (cache_run m d ops)) \<and>
    cur_bytes (cache_run m d ops) \<le> m"
  using cache_inv_run [OF assms, of d]
  by (auto simp: cache_inv_def word_le_nat_alt config_run_fields)

lemma run_within_budget_witness:
  "cur_bytes (cache_run 3 0 [Insert ''a'' [1, 2] 0, Insert ''b'' [3, 4] 0, Get ''a'' 1]) \<le> 3"
  using run_within_budget [of 3 "[Insert ''a'' [1, 2] 0, Insert ''b'' [3, 4] 0, Get ''a'' 1]" 0]
  by (simp add: vec_ok_def)

text \<open>
  The hit and miss counters account for every lookup: their sum is the number of lookups of the
  run, modulo the width of the counters.
\<close>
theorem hits_and_misses_count_lookups:
  "hits (cache_run m d ops) + misses (cache_run m d ops)
     = of_nat (length (filter (\<lambda>x. \<exists>k now. x = Get k now) ops))"
proof (induction ops rule: rev_induct)
  case (snoc x ops)
  have ins: "hits (snd (insert_with_ttl k b ttl now c)) = hits c \<and>
      misses (snd (insert_with_ttl k b ttl now c)) = misses c" for k b ttl now c
    by (cases "len64 b \<le> max_bytes c")
       (simp_all add: insert_with_ttl_accept [OF _ refl] insert_with_ttl_reject not_le)
  from snoc show ?case
    by (cases x)
       (auto simp: ins cache_insert_def cache_get_def next_tick_def Let_def purge_def sweep_expired_def
          note_absent_def is_negative_def algebra_simps split: option.splits)
qed (simp add: cache_new_def)

section \<open>The negative cache\<close>

text \<open>
  The second log: for every id the second until which the last note of its absence holds, forgotten
  by an accepted insert.
\<close>

fun absent_step :: "u64 \<Rightarrow> (string \<rightharpoonup> u64) \<Rightarrow> cache_op \<Rightarrow> (string \<rightharpoonup> u64)" where
  "absent_step m lg (InsertTtl k b ttl now) = (if len64 b \<le> m then lg(k := None) else lg)"
| "absent_step m lg (Insert k b now) = (if len64 b \<le> m then lg(k := None) else lg)"
| "absent_step m lg (NoteAbsent k now) = lg(k \<mapsto> sat_add now DEFAULT_NEGATIVE_TTL_SECS)"
| "absent_step m lg _ = lg"

definition absent_log :: "u64 \<Rightarrow> cache_op list \<Rightarrow> (string \<rightharpoonup> u64)" where
  "absent_log m ops = foldl (absent_step m) (\<lambda>_. None) ops"

lemma absent_log_snoc: "absent_log m (ops @ [x]) = absent_step m (absent_log m ops) x"
  by (simp add: absent_log_def)

lemma tombstones_insert:
  "tombstones (snd (insert_with_ttl k b ttl now c)) =
     (if len64 b \<le> max_bytes c then hm_remove k (tombstones c) else tombstones c)"
  by (simp add: insert_with_ttl_accept [OF _ refl] insert_with_ttl_reject not_le)

lemma tombstones_get [simp]: "tombstones (snd (cache_get k now c)) = tombstones c"
  by (simp add: cache_get_def next_tick_def Let_def split: option.splits)

lemma note_absent_get:
  "hm_ok (tombstones c) \<Longrightarrow> hm_get (tombstones (note_absent cid now c)) k = Some t \<Longrightarrow>
     (k = cid \<and> t_expires_at t = sat_add now (negative_ttl_secs c)) \<or>
     (hm_get (tombstones c) k = Some t \<and> (k \<noteq> cid \<or> negative_ttl_secs c = 0))"
  by (auto simp: note_absent_def Let_def split: if_splits)

lemma tombs_logged_run:
  "hm_get (tombstones (cache_run m d ops)) k = Some t \<Longrightarrow> absent_log m ops k = Some (t_expires_at t)"
proof (induction ops arbitrary: t rule: rev_induct)
  case (snoc x ops)
  let ?c = "cache_run m d ops"
  have ok: "hm_ok (tombstones ?c)" using cache_ok_run by (simp add: cache_ok_def)
  show ?case
  proof (cases x)
    case (NoteAbsent cid now)
    with snoc note_absent_get [OF ok, of cid now k t] show ?thesis
      by (auto simp: absent_log_snoc config_run_fields DEFAULT_NEGATIVE_TTL_SECS_def)
  next
    case (IsNegative cid now)
    with snoc ok show ?thesis
      by (auto simp: absent_log_snoc is_negative_def split: option.splits if_splits)
  qed (use snoc ok in \<open>auto simp: absent_log_snoc cache_insert_def tombstones_insert config_run_fields purge_def
        sweep_expired_def Let_def hm_get_retain split: if_splits option.splits\<close>)
qed (simp add: cache_new_def hm_get_def)

text \<open>
  C37: a negative answer is always justified. When the cache answers that an id is known to be absent,
  the run noted its absence no more than the negative time-to-live ago and has not stored it since.
\<close>
theorem negative_answer_justified:
  assumes "fst (is_negative cid now (cache_run m d ops))"
  shows "\<exists>x. absent_log m ops cid = Some x \<and> now \<le> x"
  using assms tombs_logged_run [of m d ops cid]
  by (auto simp: is_negative_def split: option.splits if_splits)

lemma negative_answer_justified_witness:
  "\<exists>x. absent_log 9 [NoteAbsent ''a'' 5] ''a'' = Some x \<and> 15 \<le> x"
  by (rule negative_answer_justified [where d = 0])
     (simp add: cache_run_def is_negative_def note_absent_def Let_def cache_new_def hm_get_def
        hm_insert_def DEFAULT_NEGATIVE_TTL_SECS_def DEFAULT_MAX_TOMBSTONES_def sat_add_def word_le_nat_alt)

lemma note_absent_size:
  assumes "hm_ok (tombstones c)" "length (tombstones c) \<le> unat (max_tombstones c)"
    and "max_tombstones c \<noteq> 0"
  shows "length (tombstones (note_absent cid now c)) \<le> unat (max_tombstones c)"
proof -
  let ?ts = "tombstones c"
  let ?v = "fst (arg_min_list (\<lambda>(k, t). t_expires_at t) ?ts)"
  have size: "length (hm_insert cid t m) = (if hm_get m cid = None then Suc (length m) else length m)"
    if "hm_ok m" for t and m :: "tombstone hashmap"
    using hm.size_put [OF that, of cid t] by simp
  have "length (hm_remove ?v ?ts) < length ?ts" if "?ts \<noteq> []"
    using that by (intro length_hm_remove_less arg_min_list_get)
  then show ?thesis
    using assms unat_gt_0 [of "max_tombstones c"] by (auto simp: note_absent_def Let_def size)
qed

text \<open>
  C36: the negative cache cannot grow without bound: after any run it holds at most
  \<open>DEFAULT_MAX_TOMBSTONES\<close> tombstones.
\<close>
theorem tombstones_bounded:
  "length (tombstones (cache_run m d ops)) \<le> unat DEFAULT_MAX_TOMBSTONES"
proof (induction ops rule: rev_induct)
  case (snoc x ops)
  let ?c = "cache_run m d ops"
  have ok: "hm_ok (tombstones ?c)" using cache_ok_run by (simp add: cache_ok_def)
  note removed = order_trans [OF length_hm_remove_le snoc]
  show ?case
  proof (cases x)
    case (NoteAbsent cid now)
    with note_absent_size [OF ok] snoc show ?thesis
      by (simp add: config_run_fields DEFAULT_MAX_TOMBSTONES_def)
  next
    case (Sweep now)
    then show ?thesis by (simp add: sweep_expired_def Let_def hm_retain_def order_trans [OF length_filter_le snoc])
  next
    case (IsNegative cid now)
    with snoc removed show ?thesis by (simp add: is_negative_def split: option.split)
  qed (simp_all add: snoc removed cache_insert_def tombstones_insert purge_def)
qed (simp add: cache_new_def)

section \<open>Counters per object\<close>

text \<open>
  A read that finds an entry expired counts a miss in it and drops it at once, so the misses that
  \<open>object_stats\<close> reports are always zero.
\<close>

definition no_misses :: "cache_entry hashmap \<Rightarrow> bool" where
  "no_misses es \<longleftrightarrow> (\<forall>(k, e) \<in> set es. e_misses e = 0)"

lemma no_misses_sub: "no_misses es \<Longrightarrow> set es' \<subseteq> set es \<Longrightarrow> no_misses es'"
  by (auto simp: no_misses_def)

lemma no_misses_remove: "no_misses es \<Longrightarrow> no_misses (hm_remove k es)"
  by (rule no_misses_sub) (auto simp: hm_remove_def)

lemma no_misses_insert: "no_misses es \<Longrightarrow> e_misses e = 0 \<Longrightarrow> no_misses (hm_insert k e es)"
  by (induction es) (auto simp: no_misses_def hm_insert_def)

lemma retract_put: "hm_remove k (hm_insert k e m) = hm_remove k m"
  by (induction m) (auto simp: hm_remove_def hm_insert_def)

lemma no_misses_evict: "no_misses (entries c) \<Longrightarrow> no_misses (entries (evict_to_fit len c))"
  using no_misses_sub evict_to_fit_subset by blast

lemma no_misses_sweep: "no_misses (entries c) \<Longrightarrow> no_misses (entries (fold sweep_drop ks c))"
  by (induction ks arbitrary: c) (simp_all add: no_misses_remove)

lemma no_misses_step:
  assumes "no_misses (entries c)"
  shows "no_misses (entries (cache_step c x))"
proof -
  have ins: "no_misses (entries (snd (insert_with_ttl k b ttl now c)))" for k b ttl now
  proof (cases "len64 b \<le> max_bytes c")
    case True
    show ?thesis
      using assms True
      by (simp add: insert_with_ttl_accept [OF True refl] no_misses_insert no_misses_evict no_misses_remove)
  qed (use assms in \<open>simp add: insert_with_ttl_reject not_le\<close>)
  show ?thesis
  proof (cases x)
    case (Get k now)
    have "hm_get (entries c) k = Some e \<Longrightarrow> e_misses e = 0" for e
      using assms hm_get_in [of "entries c" k e] by (auto simp: no_misses_def)
    with Get assms show ?thesis
      by (auto simp: cache_get_def next_tick_def Let_def no_misses_insert no_misses_remove retract_put split: option.split)
  next
    case (Sweep now)
    with assms no_misses_sweep show ?thesis by (simp add: sweep_expired_def Let_def)
  qed (use assms ins in \<open>auto simp: cache_insert_def purge_def no_misses_remove note_absent_def is_negative_def Let_def
      split: option.split\<close>)
qed

lemma object_misses_zero: "(k, st) \<in> set (object_stats (cache_run m d ops)) \<Longrightarrow> os_misses st = 0"
proof -
  have "no_misses (entries (cache_run m d ops))"
    by (induction ops rule: rev_induct) (simp_all add: no_misses_step, simp add: no_misses_def cache_new_def)
  then show "(k, st) \<in> set (object_stats (cache_run m d ops)) \<Longrightarrow> os_misses st = 0"
    by (auto simp: no_misses_def object_stats_def)
qed

end
