(* ===== verification/Cidrange.thy ===== *)
theory Cidrange
  imports Rust_Strings
begin

text \<open>
  Model of \<open>src/cidrange.rs\<close>: parsing an HTTP \<open>Range\<close> header against the size of an object,
  mapping a byte range onto the fixed-size chunks of a manifest, and cutting the range out of the
  joined chunks. \<open>usize\<close> is 64 bits wide, so the casts between \<open>u64\<close> and \<open>usize\<close> keep the value.
\<close>

section \<open>Data\<close>

record byte_range =
  br_start :: u64
  br_end :: u64

definition range_len :: "byte_range \<Rightarrow> u64" where
  "range_len r = br_end r - br_start r + 1"

definition range_is_empty :: "byte_range \<Rightarrow> bool" where
  "range_is_empty r \<longleftrightarrow> False"

definition content_range_header :: "byte_range \<Rightarrow> u64 \<Rightarrow> string" where
  "content_range_header r tot =
     ''bytes '' @ show_u64 (br_start r) @ ''-'' @ show_u64 (br_end r) @ ''/'' @ show_u64 tot"

datatype range_outcome = Full | Partial byte_range | Unsatisfiable

text \<open>
  The manifest of \<open>ce-rs\<close>, as far as the crate uses it: the fields its code and tests name.
\<close>

record manifest =
  kind :: string
  chunk_size :: u64
  total_size :: u64
  chunks :: "string list"

record chunk_span =
  first_chunk :: u64
  last_chunk :: u64
  head_skip :: u64
  out_len :: u64

section \<open>Operations\<close>

definition parse_range :: "string option \<Rightarrow> u64 \<Rightarrow> range_outcome" where
  "parse_range header tot =
     (case header of
        None \<Rightarrow> Full
      | Some h \<Rightarrow>
     (case strip_prefix ''bytes='' (trim h) of
        None \<Rightarrow> Full
      | Some spec0 \<Rightarrow>
     (let spec = trim spec0 in
      if CHR '','' \<in> set spec then Full
      else if tot = 0 then Unsatisfiable
      else (case split_once CHR ''-'' spec of
        None \<Rightarrow> Full
      | Some (lhs0, rhs0) \<Rightarrow>
     (let lhs = trim lhs0; rhs = trim rhs0 in
      if lhs = [] then
        (if rhs = [] then Full
         else (case parse_u64 rhs of
                 None \<Rightarrow> Full
               | Some suffix0 \<Rightarrow>
                   if suffix0 = 0 then Unsatisfiable
                   else (let suffix = min suffix0 tot
                         in Partial \<lparr>br_start = tot - suffix, br_end = tot - 1\<rparr>)))
      else if rhs = [] then
        (case parse_u64 lhs of
           None \<Rightarrow> Full
         | Some start \<Rightarrow>
             if start \<ge> tot then Unsatisfiable
             else Partial \<lparr>br_start = start, br_end = tot - 1\<rparr>)
      else
        (case (parse_u64 lhs, parse_u64 rhs) of
           (Some start, Some end') \<Rightarrow>
             if start > end' \<or> start \<ge> tot then Unsatisfiable
             else Partial \<lparr>br_start = start, br_end = min end' (tot - 1)\<rparr>
         | _ \<Rightarrow> Full))))))"

definition chunks_for_range :: "manifest \<Rightarrow> byte_range \<Rightarrow> chunk_span option" where
  "chunks_for_range m r =
     (let cs = chunk_size m in
      if cs = 0 then None
      else (let first = br_start r div cs; last = br_end r div cs in
            Some \<lparr>first_chunk = first, last_chunk = last,
                  head_skip = br_start r - first * cs, out_len = range_len r\<rparr>))"

definition slice_span :: "bytes \<Rightarrow> chunk_span \<Rightarrow> bytes result" where
  "slice_span joined span =
     (let start = head_skip span in
      case checked_add start (out_len span) of
        None \<Rightarrow> Inl ''range length overflow''
      | Some end' \<Rightarrow>
          if length joined < unat end' then
            Inl (''joined chunk bytes ('' @ show_nat (length joined) @ '') too short for range [''
                 @ show_u64 start @ '', '' @ show_u64 end' @ '')'')
          else Inr (take (unat end' - unat start) (drop (unat start) joined)))"

section \<open>What a resolved range is\<close>

definition range_ok :: "byte_range \<Rightarrow> u64 \<Rightarrow> bool" where
  "range_ok r tot \<longleftrightarrow> br_start r \<le> br_end r \<and> br_end r < tot"

lemma range_ok_unat:
  "range_ok r tot \<Longrightarrow> unat (br_start r) \<le> unat (br_end r) \<and> unat (br_end r) < unat tot"
  by (simp add: range_ok_def word_le_nat_alt word_less_nat_alt)

lemma unat_range_len:
  assumes "range_ok r tot"
  shows "unat (range_len r) = Suc (unat (br_end r)) - unat (br_start r)"
proof -
  have le: "br_start r \<le> br_end r" and lt: "unat (br_end r) < unat tot"
    using assms by (auto simp: range_ok_def word_less_nat_alt)
  have ne: "br_end r - br_start r \<noteq> u64_MAX"
    using le lt unat_lt_2p64 [of tot]
    by (auto simp: word_unat_eq_iff unat_sub unat_u64_MAX)
  have "unat (br_end r - br_start r + 1) = unat (br_end r) - unat (br_start r) + 1"
    using unat_plus_one [OF ne] le by (simp add: unat_sub)
  with le show ?thesis by (simp add: range_len_def word_le_nat_alt)
qed

lemma minus_one_less: "tot \<noteq> 0 \<Longrightarrow> tot - 1 < tot" for tot :: u64
  by (simp add: word_less_nat_alt unat_minus_one unat_gt_0)

lemma min_minus_one_less: "tot \<noteq> 0 \<Longrightarrow> min x (tot - 1) < tot" for tot :: u64
  by (rule order.strict_trans1 [OF min.cobounded2 minus_one_less])

lemma le_minus_one: "start < tot \<Longrightarrow> start \<le> tot - 1" for tot :: u64
proof -
  assume lt: "start < tot"
  then have "tot \<noteq> 0" by auto
  with lt show "start \<le> tot - 1" by (simp add: word_less_nat_alt word_le_nat_alt unat_minus_one)
qed

lemma parse_range_Partial:
  assumes "parse_range h tot = Partial r"
  shows "range_ok r tot"
proof -
  have suffix: "range_ok \<lparr>br_start = tot - min s tot, br_end = tot - 1\<rparr> tot"
    if "s \<noteq> 0" "tot \<noteq> 0" for s
  proof -
    have "min s tot \<noteq> 0" "min s tot \<le> tot" using that by (auto simp: min_def)
    then have "unat (tot - min s tot) \<le> unat tot - 1"
      using unat_gt_0 [of "min s tot"] by (simp add: unat_sub)
    with that show ?thesis
      by (simp add: range_ok_def minus_one_less word_le_nat_alt unat_minus_one)
  qed
  show ?thesis
    using assms
    by (auto simp: parse_range_def Let_def suffix not_le le_minus_one minus_one_less
        min_minus_one_less range_ok_def dest: suffix
        split: option.splits if_splits prod.splits)
qed

section \<open>Header syntax and meaning\<close>

text \<open>
  The three forms of a single byte range (RFC 7233, section 2.1), how a client prints them, and the
  byte positions of an object of \<open>tot\<close> bytes they ask for.
\<close>

datatype range_spec = Span u64 u64 | From u64 | Last u64

fun print_spec :: "range_spec \<Rightarrow> string" where
  "print_spec (Span a b) = ''bytes='' @ show_u64 a @ ''-'' @ show_u64 b"
| "print_spec (From a) = ''bytes='' @ show_u64 a @ ''-''"
| "print_spec (Last n) = ''bytes='' @ ''-'' @ show_u64 n"

fun wanted :: "range_spec \<Rightarrow> u64 \<Rightarrow> nat set" where
  "wanted (Span a b) tot = {i. unat a \<le> i \<and> i \<le> unat b \<and> i < unat tot}"
| "wanted (From a) tot = {i. unat a \<le> i \<and> i < unat tot}"
| "wanted (Last n) tot = {i. unat tot - unat n \<le> i \<and> i < unat tot}"

lemma parse_range_Span:
  "parse_range (Some (print_spec (Span a b))) tot =
     (if tot = 0 \<or> a > b \<or> a \<ge> tot then Unsatisfiable
      else Partial \<lparr>br_start = a, br_end = min b (tot - 1)\<rparr>)"
  by (simp add: parse_range_def trim_simps strip_prefix_def)

lemma parse_range_From:
  "parse_range (Some (print_spec (From a))) tot =
     (if tot = 0 \<or> a \<ge> tot then Unsatisfiable
      else Partial \<lparr>br_start = a, br_end = tot - 1\<rparr>)"
  by (simp add: parse_range_def trim_simps strip_prefix_def)

lemma parse_range_Last:
  "parse_range (Some (print_spec (Last n))) tot =
     (if tot = 0 \<or> n = 0 then Unsatisfiable
      else Partial \<lparr>br_start = tot - min n tot, br_end = tot - 1\<rparr>)"
  by (simp add: parse_range_def trim_simps strip_prefix_def)

lemma wanted_interval:
  "range_ok r tot \<Longrightarrow> unat (br_start r) \<in> {unat (br_start r)..unat (br_end r)}"
  by (auto dest: range_ok_unat)

lemma parse_range_meaning:
  "case parse_range (Some (print_spec sp)) tot of
     Full \<Rightarrow> False
   | Unsatisfiable \<Rightarrow> wanted sp tot = {}
   | Partial r \<Rightarrow> wanted sp tot = {unat (br_start r)..unat (br_end r)} \<and> wanted sp tot \<noteq> {}"
proof (cases sp)
  case (Span a b)
  show ?thesis
    by (auto simp: Span parse_range_Span word_le_nat_alt word_less_nat_alt unat_minus_one min_def
        simp del: print_spec.simps) (meson le_refl not_le)
next
  case (From a)
  show ?thesis
    by (auto simp: From parse_range_From word_le_nat_alt word_less_nat_alt unat_minus_one
        simp del: print_spec.simps)
next
  case (Last n)
  show ?thesis
    using unat_gt_0 [of tot] unat_gt_0 [of n]
    by (auto simp: Last parse_range_Last word_le_nat_alt unat_sub min_def unat_minus_one
        simp del: print_spec.simps)
qed

lemma print_spec_not_Full: "parse_range (Some (print_spec sp)) tot \<noteq> Full"
  using parse_range_meaning [of sp tot] by (cases "parse_range (Some (print_spec sp)) tot") auto

lemma parse_range_wanted:
  "parse_range (Some (print_spec sp)) tot = Partial r \<Longrightarrow>
     wanted sp tot = {unat (br_start r)..unat (br_end r)} \<and> wanted sp tot \<noteq> {}"
  by (insert parse_range_meaning [of sp tot], simp only: range_outcome.case, blast)

lemma parse_range_unwanted:
  "parse_range (Some (print_spec sp)) tot = Unsatisfiable \<Longrightarrow> wanted sp tot = {}"
  using parse_range_meaning [of sp tot] by simp


text \<open>
  Whatever the header is, a range that \<open>parse_range\<close> resolves lies inside the object: its
  start is not past its end and its end is below the size, the invariant \<open>ByteRange\<close> promises.
\<close>
theorem parse_range_in_bounds:
  "parse_range h tot = Partial r \<Longrightarrow> br_start r \<le> br_end r \<and> br_end r < tot"
  using parse_range_Partial by (simp add: range_ok_def)

lemma parse_range_in_bounds_witness:
  "br_start \<lparr>br_start = 50, br_end = 99\<rparr> \<le> br_end \<lparr>br_start = 50, br_end = (99::u64)\<rparr>
     \<and> br_end \<lparr>br_start = 50, br_end = (99::u64)\<rparr> < (100::u64)"
proof (rule parse_range_in_bounds)
  show "parse_range (Some (print_spec (Span 50 9999))) 100 = Partial \<lparr>br_start = 50, br_end = 99\<rparr>"
    unfolding parse_range_Span by (simp add: min_def)
qed

text \<open>
  Rust's integer parser takes a leading plus sign, which the grammar of RFC 7233 does not have: such
  a header is malformed but is honoured as a range.
\<close>

lemma parse_range_plus_sign:
  "parse_range (Some ''bytes=+1-+5'') 10 = Partial \<lparr>br_start = 1, br_end = 5\<rparr>"
  by (simp add: parse_range_def strip_prefix_def trim_Cons_plain parse_u64_def is_digit_def min_def
      word_le_nat_alt word_less_nat_alt)

text \<open>A range without the unit is not a range: the whole object is served.\<close>

lemma parse_range_no_unit: "parse_range (Some ''0-1023'') tot = Full"
  by (simp add: parse_range_def strip_prefix_def trim_Cons_plain)

section \<open>Ranges and chunks\<close>

text \<open>Chunk number \<open>i\<close> of an object cut into pieces of \<open>cs\<close> bytes; the last may be shorter.\<close>

definition chunk_at :: "nat \<Rightarrow> 'a list \<Rightarrow> nat \<Rightarrow> 'a list" where
  "chunk_at cs xs i = take cs (drop (i * cs) xs)"

lemma concat_chunks:
  "a \<le> b \<Longrightarrow> concat (map (chunk_at cs xs) [a..<b]) = take ((b - a) * cs) (drop (a * cs) xs)"
proof (induction b)
  case (Suc b)
  show ?case
  proof (cases "a = Suc b")
    case False
    with Suc have ab: "a \<le> b" by simp
    then have "(Suc b - a) * cs = (b - a) * cs + cs" by (simp add: Suc_diff_le)
    moreover have "drop ((b - a) * cs) (drop (a * cs) xs) = drop (b * cs) xs"
      using ab by (simp add: algebra_simps diff_mult_distrib2)
    ultimately show ?thesis
      using Suc ab by (simp add: chunk_at_def take_add)
  qed simp
qed simp

lemma chunks_for_range_Some:
  "chunks_for_range m r = Some span \<longleftrightarrow>
     chunk_size m \<noteq> 0 \<and>
     span = \<lparr>first_chunk = br_start r div chunk_size m, last_chunk = br_end r div chunk_size m,
             head_skip = br_start r mod chunk_size m, out_len = range_len r\<rparr>"
  by (auto simp: chunks_for_range_def Let_def minus_div_mult_eq_mod)

lemma slice_span_Inr:
  assumes "unat (head_skip span) + unat (out_len span) \<le> length joined"
    and "unat (head_skip span) + unat (out_len span) < 2 ^ 64"
  shows "slice_span joined span = Inr (take (unat (out_len span)) (drop (unat (head_skip span)) joined))"
  using assms by (simp add: slice_span_def checked_add_def unat_word_ariths Let_def)

lemma slice_span_length:
  assumes "slice_span joined span = Inr out"
  shows "length out = unat (out_len span)"
  using assms
  by (auto simp: slice_span_def Let_def dest!: checked_add_Some split: option.splits if_splits)

text \<open>The covering chunks are long enough for the cut the span describes.\<close>

lemma div_mult_le_end: "e div cs * cs \<le> (e::nat)"
  by simp

lemma end_below_next_chunk: "0 < cs \<Longrightarrow> e < Suc (e div cs) * (cs::nat)"
  by (metis dividend_less_div_times mult.commute mult_Suc)

lemma cut_of_cover:
  fixes s e cs :: nat
  assumes "0 < cs" "s \<le> e" "e < length xs"
  shows "take (Suc e - s) (drop (s mod cs) (take ((Suc (e div cs) - s div cs) * cs) (drop (s div cs * cs) xs)))
       = take (Suc e - s) (drop s xs)"
    and "s mod cs + (Suc e - s) \<le> length (take ((Suc (e div cs) - s div cs) * cs) (drop (s div cs * cs) xs))"
proof -
  have s: "s = s div cs * cs + s mod cs" by simp
  have "s div cs \<le> e div cs" using assms by (simp add: div_le_mono)
  then have cov: "(Suc (e div cs) - s div cs) * cs = Suc (e div cs) * cs - s div cs * cs"
    by (simp add: diff_mult_distrib)
  have e: "Suc e \<le> Suc (e div cs) * cs"
    using end_below_next_chunk [OF assms(1), of e] by simp
  have room: "s mod cs + (Suc e - s) \<le> (Suc (e div cs) - s div cs) * cs"
    unfolding cov using s e assms(2) by linarith
  then show "take (Suc e - s) (drop (s mod cs) (take ((Suc (e div cs) - s div cs) * cs) (drop (s div cs * cs) xs)))
       = take (Suc e - s) (drop s xs)"
    using s by (simp add: drop_take min_def add.commute)
  show "s mod cs + (Suc e - s) \<le> length (take ((Suc (e div cs) - s div cs) * cs) (drop (s div cs * cs) xs))"
  proof -
    have "s mod cs + (Suc e - s) = Suc e - s div cs * cs"
      using s assms(2) by linarith
    also have "\<dots> \<le> length xs - s div cs * cs" using assms(3) by (simp add: diff_le_mono)
    finally show ?thesis using room by simp
  qed
qed

lemma covering_chunks:
  assumes "range_ok r (len64 obj)" "vec_ok obj"
    and "chunks_for_range m r = Some span"
  shows "slice_span (concat (map (chunk_at (unat (chunk_size m)) obj)
            [unat (first_chunk span)..<Suc (unat (last_chunk span))])) span
       = Inr (take (Suc (unat (br_end r)) - unat (br_start r)) (drop (unat (br_start r)) obj))"
proof -
  define cs where "cs = unat (chunk_size m)"
  define s where "s = unat (br_start r)"
  define e where "e = unat (br_end r)"
  have bounds: "0 < cs" "s \<le> e" "e < length obj" "e < 2 ^ 63"
    using assms range_ok_unat [OF assms(1)]
    by (auto simp: cs_def s_def e_def chunks_for_range_Some unat_gt_0 unat_len64 vec_ok_def)
  have span: "unat (first_chunk span) = s div cs" "unat (last_chunk span) = e div cs"
    "unat (head_skip span) = s mod cs" "unat (out_len span) = Suc e - s"
    using assms by (auto simp: chunks_for_range_Some cs_def s_def e_def unat_div unat_mod unat_range_len)
  let ?joined = "take ((Suc (e div cs) - s div cs) * cs) (drop (s div cs * cs) obj)"
  have "s mod cs + (Suc e - s) \<le> Suc e"
    using bounds by (metis Nat.add_diff_assoc add.commute le_SucI add_diff_cancel_right' diff_le_mono2
        mod_less_eq_dividend nat_add_left_cancel_le le_add_diff_inverse2)
  then have "slice_span ?joined span = Inr (take (Suc e - s) (drop (s mod cs) ?joined))"
    using bounds cut_of_cover(2) [OF bounds(1-3)] by (subst slice_span_Inr) (auto simp: span)
  moreover have "s div cs \<le> Suc (e div cs)" using bounds by (simp add: div_le_mono le_SucI)
  ultimately show ?thesis
    using cut_of_cover(1) [OF bounds(1-3)]
    by (simp only: concat_chunks span cs_def [symmetric] s_def [symmetric] e_def [symmetric])
qed

text \<open>
  C11: fetching only the chunks a range touches and cutting the joined bytes gives exactly the bytes
  of the range, for every object, chunk size and in-bounds range. The chunk indices, the offset in
  the first chunk and the length are those \<open>chunks_for_range\<close> computes.
\<close>
theorem covering_chunks_give_range:
  assumes "range_ok r (len64 obj)" "vec_ok obj"
    and "chunks_for_range m r = Some span"
  shows "slice_span (concat (map (chunk_at (unat (chunk_size m)) obj)
            [unat (first_chunk span)..<Suc (unat (last_chunk span))])) span
       = Inr (take (Suc (unat (br_end r)) - unat (br_start r)) (drop (unat (br_start r)) obj))"
  using assms by (rule covering_chunks)

lemma covering_chunks_give_range_witness:
  "slice_span [10, 20, 30, 40] \<lparr>first_chunk = 0, last_chunk = 1, head_skip = 1, out_len = 3\<rparr>
     = Inr [20, 30, 40 :: u8]"
proof -
  let ?r = "\<lparr>br_start = 1, br_end = 3\<rparr>"
  let ?m = "\<lparr>kind = ''m'', chunk_size = 2, total_size = 5, chunks = []\<rparr>"
  let ?span = "\<lparr>first_chunk = 0, last_chunk = 1, head_skip = 1, out_len = 3\<rparr>"
  have r: "range_ok ?r (len64 [10, 20, 30, 40, 50 :: u8])"
    by (simp add: range_ok_def len64_def word_le_nat_alt word_less_nat_alt)
  have v: "vec_ok [10, 20, 30, 40, 50 :: u8]" by (simp add: vec_ok_def)
  have c: "chunks_for_range ?m ?r = Some ?span"
    by (simp add: chunks_for_range_def range_len_def word_unat_eq_iff unat_div unat_mod)
  show ?thesis
    using covering_chunks_give_range [OF r v c] by (simp add: chunk_at_def upt_rec)
qed

end
