(* ===== verification/Proto.thy ===== *)
theory Proto
  imports Rust_Strings
begin

text \<open>
  Model of \<open>src/proto.rs\<close>: the topics, abilities and service names of the \<open>cdn/*\<close> mesh protocol and
  its request and reply messages. The JSON encoding of the messages is done by \<open>serde_json\<close> and is a
  parameter where it matters.
\<close>

section \<open>Names\<close>

definition TOPIC_PREFIX :: string where "TOPIC_PREFIX = ''cdn/''"
definition TOPIC_CACHE :: string where "TOPIC_CACHE = ''cdn/cache''"
definition TOPIC_READ :: string where "TOPIC_READ = ''cdn/read''"
definition TOPIC_PURGE :: string where "TOPIC_PURGE = ''cdn/purge''"
definition TOPIC_STATUS :: string where "TOPIC_STATUS = ''cdn/status''"

definition ABILITY_CACHE :: string where "ABILITY_CACHE = ''cdn:cache''"
definition ABILITY_READ :: string where "ABILITY_READ = ''cdn:read''"
definition ABILITY_PURGE :: string where "ABILITY_PURGE = ''cdn:purge''"

lemmas topic_defs = TOPIC_CACHE_def TOPIC_READ_def TOPIC_PURGE_def TOPIC_STATUS_def
lemmas ability_defs = ABILITY_CACHE_def ABILITY_READ_def ABILITY_PURGE_def

definition service_for :: "string \<Rightarrow> string" where
  "service_for cid = ''cdn:'' @ cid"

definition SERVICE_EDGE :: string where "SERVICE_EDGE = ''cdn:edge''"

lemma service_for_inject [simp]: "service_for a = service_for b \<longleftrightarrow> a = b"
  by (simp add: service_for_def)

definition denied :: "string \<Rightarrow> string" where
  "denied reason = ''denied: '' @ reason"

section \<open>Messages\<close>

record cache_req =
  cq_caps :: string
  cq_cid :: string
  cq_bytes_len :: u64
  cq_ttl_secs :: u64

record cache_resp =
  cr_cached :: bool
  cr_stored_bytes :: u64
  cr_ttl_secs :: u64
  cr_reason :: "string option"

record read_req =
  rdq_caps :: string
  rdq_cid :: string
  rdq_range :: "string option"

record read_resp =
  rd_ok :: bool
  rd_bytes_hex :: string
  rd_total_len :: u64
  rd_partial :: bool
  rd_range_start :: u64
  rd_range_end :: u64
  rd_cache_hit :: bool
  rd_reason :: "string option"

record purge_req =
  pq_caps :: string
  pq_cid :: string

record purge_resp =
  pr_purged :: bool
  pr_reason :: "string option"

record status_req =
  sq_caps :: string
  sq_cid :: string

record status_resp =
  sr_held :: bool
  sr_bytes :: u64
  sr_ttl_remaining :: u64

text \<open>\<open>ReadResp::default()\<close>, the starting point of the struct updates in the host.\<close>

definition read_resp_default :: read_resp where
  "read_resp_default =
     \<lparr>rd_ok = False, rd_bytes_hex = [], rd_total_len = 0, rd_partial = False, rd_range_start = 0,
      rd_range_end = 0, rd_cache_hit = False, rd_reason = None\<rparr>"

end
