(* ===== verification/Ce_Rs.thy ===== *)
theory Ce_Rs
  imports Cidrange Proto
begin

text \<open>
  The interface to the code that is not in the repository: the operations of the \<open>ce-rs\<close> SDK the
  crate calls, as fields of a record over an arbitrary world \<open>'w\<close> that every call may change, and the
  chunk fetching that the client and the edge host share. The locale \<open>verified_fetch\<close> states what
  both fetch loops promise, and derives from it that a range read cannot return a wrong byte.
\<close>

section \<open>The SDK as a parameter\<close>

record atlas_entry =
  ae_node_id :: string
  ae_last_seen_secs :: u64
  ae_mem_mb :: u32

record 'w sdk =
  cid_of :: "bytes \<Rightarrow> string"
  get_blob :: "string \<Rightarrow> 'w \<Rightarrow> bytes result \<times> 'w"
  get_object :: "string \<Rightarrow> 'w \<Rightarrow> bytes result \<times> 'w"
  put_object :: "bytes \<Rightarrow> 'w \<Rightarrow> string result \<times> 'w"
  advertise_service :: "string \<Rightarrow> 'w \<Rightarrow> unit result \<times> 'w"
  find_service :: "string \<Rightarrow> 'w \<Rightarrow> string list result \<times> 'w"
  atlas :: "'w \<Rightarrow> atlas_entry list result \<times> 'w"
  history_work :: "string \<Rightarrow> 'w \<Rightarrow> u64 result \<times> 'w"
  send_request :: "string \<Rightarrow> string \<Rightarrow> bytes \<Rightarrow> u64 \<Rightarrow> 'w \<Rightarrow> bytes result \<times> 'w"
  parse_manifest :: "bytes \<Rightarrow> manifest result"
  is_v1 :: "manifest \<Rightarrow> bool"

text \<open>\<open>with_context\<close> of \<open>anyhow\<close>: the printed error is the context.\<close>

definition with_context :: "string \<Rightarrow> 'a result \<times> 'w \<Rightarrow> 'a result \<times> 'w" where
  "with_context msg r = (case fst r of Inl e \<Rightarrow> (Inl msg, snd r) | Inr x \<Rightarrow> r)"

lemma with_context_Inr [simp]: "with_context msg r = (Inr x, w) \<longleftrightarrow> r = (Inr x, w)"
  by (cases r; cases "fst r") (auto simp: with_context_def)

definition unwrap_or :: "'a \<Rightarrow> 'a result \<Rightarrow> 'a" where
  "unwrap_or d r = (case r of Inl e \<Rightarrow> d | Inr x \<Rightarrow> x)"

section \<open>Fetching and verifying chunks\<close>

text \<open>
  The loop over \<open>manifest.chunks[first..=last]\<close> of \<open>EdgeState::fetch_chunks\<close> and
  \<open>CdnClient::reassemble_span\<close>: get each chunk, compare its content id, append it.
\<close>

fun verified_chunks ::
  "(bytes \<Rightarrow> string) \<Rightarrow> (string \<Rightarrow> 'w \<Rightarrow> bytes result \<times> 'w) \<Rightarrow> string list \<Rightarrow> bytes \<Rightarrow> 'w
     \<Rightarrow> bytes result \<times> 'w" where
  "verified_chunks hash get [] out w = (Inr out, w)"
| "verified_chunks hash get (chunk_cid # cs) out w =
     (case get chunk_cid w of
        (Inl e, w1) \<Rightarrow> (Inl e, w1)
      | (Inr chunk, w1) \<Rightarrow>
          (let got = hash chunk in
           if got \<noteq> chunk_cid
           then (Inl (''chunk verification failed: expected '' @ chunk_cid @ '', got '' @ got), w1)
           else verified_chunks hash get cs (out @ chunk) w1))"

lemma verified_chunks_Inr:
  "verified_chunks hash get cs acc w = (Inr out, w') \<Longrightarrow>
     \<exists>parts. out = acc @ concat parts \<and> map hash parts = cs"
proof (induction cs arbitrary: acc w)
  case Nil
  then show ?case by (intro exI [of _ "[]"]) simp
next
  case (Cons c cs)
  then obtain chunk w1 where "hash chunk = c" "verified_chunks hash get cs (acc @ chunk) w1 = (Inr out, w')"
    by (auto simp: Let_def split: prod.splits sum.splits if_splits)
  with Cons.IH [of "acc @ chunk" w1] obtain parts
    where "out = acc @ chunk @ concat parts" "map hash parts = cs" by auto
  with \<open>hash chunk = c\<close> show ?case by (intro exI [of _ "chunk # parts"]) simp
qed

text \<open>A store that answers every chunk with bytes of the right content id makes the loop succeed.\<close>

definition serves :: "(bytes \<Rightarrow> string) \<Rightarrow> (string \<Rightarrow> 'w \<Rightarrow> bytes result \<times> 'w) \<Rightarrow> string list \<Rightarrow> bool" where
  "serves hash get cs \<longleftrightarrow> (\<forall>c \<in> set cs. \<forall>w. \<exists>b w'. get c w = (Inr b, w') \<and> hash b = c)"

lemma verified_chunks_served:
  "serves hash get cs \<Longrightarrow> \<exists>out w'. verified_chunks hash get cs acc w = (Inr out, w')"
proof (induction cs arbitrary: acc w)
  case (Cons c cs)
  then obtain b w1 where "get c w = (Inr b, w1)" "hash b = c"
    unfolding serves_def by (meson list.set_intros(1))
  moreover have "serves hash get cs" using Cons.prems by (simp add: serves_def)
  ultimately show ?case using Cons.IH [of "acc @ b" w1] by simp
qed simp

section \<open>Objects and their manifests\<close>

definition chunk_count :: "nat \<Rightarrow> nat \<Rightarrow> nat" where
  "chunk_count cs len = (len + cs - 1) div cs"

text \<open>The manifest of an object, as \<open>put_object\<close> writes it.\<close>

definition describes :: "(bytes \<Rightarrow> string) \<Rightarrow> manifest \<Rightarrow> bytes \<Rightarrow> bool" where
  "describes hash m obj \<longleftrightarrow>
     chunk_size m \<noteq> 0 \<and> vec_ok obj \<and> total_size m = len64 obj \<and>
     chunks m = map (\<lambda>i. hash (chunk_at (unat (chunk_size m)) obj i))
                  [0..<chunk_count (unat (chunk_size m)) (length obj)]"

text \<open>No other bytes have the content id of a chunk of the object.\<close>

definition collision_free :: "(bytes \<Rightarrow> string) \<Rightarrow> manifest \<Rightarrow> bytes \<Rightarrow> bool" where
  "collision_free hash m obj \<longleftrightarrow>
     (\<forall>i b. hash b = hash (chunk_at (unat (chunk_size m)) obj i) \<longrightarrow>
        b = chunk_at (unat (chunk_size m)) obj i)"

lemma chunk_count_bound: "0 < cs \<Longrightarrow> e < len \<Longrightarrow> e div cs < chunk_count cs len"
proof -
  assume a: "0 < cs" "e < len"
  have "e div cs * cs < len" using a(2) div_mult_le_end [of e cs] by linarith
  then have "Suc (e div cs) * cs \<le> len + cs - 1" using a(1) by simp
  then show ?thesis
    using a(1) by (metis Suc_le_lessD chunk_count_def div_le_mono nonzero_mult_div_cancel_right not_gr_zero)
qed

lemma chunk_count_cover: "0 < cs \<Longrightarrow> len \<le> chunk_count cs len * cs"
proof -
  assume a: "0 < cs"
  show ?thesis
  proof (cases "len = 0")
    case False
    then have "len - 1 < chunk_count cs len * cs"
      using chunk_count_bound [OF a, of "len - 1" len] a
      by (simp add: div_less_iff_less_mult)
    then show ?thesis by simp
  qed simp
qed

lemma chunk_count_0: "0 < cs \<Longrightarrow> chunk_count cs len = 0 \<longleftrightarrow> len = 0"
  using chunk_count_cover [of cs len] by (auto simp: chunk_count_def)

lemma verified_parts:
  assumes "describes hash m obj" "collision_free hash m obj"
    and "map hash parts = take (b - a) (drop a (chunks m))" "b \<le> length (chunks m)"
  shows "parts = map (chunk_at (unat (chunk_size m)) obj) [a..<b]"
proof -
  let ?n = "chunk_count (unat (chunk_size m)) (length obj)"
  have "take (b - a) (drop a [0..<?n]) = [a..<b]"
    using assms(1,4) by (cases "a \<le> b") (simp_all add: describes_def)
  then have eq: "map hash parts = map (\<lambda>i. hash (chunk_at (unat (chunk_size m)) obj i)) [a..<b]"
    using assms(1,3) by (simp add: describes_def take_map drop_map del: drop_upt take_upt)
  then have len: "length parts = b - a" using map_eq_imp_length_eq by fastforce
  show ?thesis
  proof (rule nth_equalityI)
    show "length parts = length (map (chunk_at (unat (chunk_size m)) obj) [a..<b])"
      using len by simp
    fix i assume i: "i < length parts"
    have "map hash parts ! i
        = map (\<lambda>i. hash (chunk_at (unat (chunk_size m)) obj i)) [a..<b] ! i" by (simp only: eq)
    with i len have "hash (parts ! i) = hash (chunk_at (unat (chunk_size m)) obj (a + i))" by simp
    with assms(2) \<open>i < length parts\<close> len
    show "parts ! i = map (chunk_at (unat (chunk_size m)) obj) [a..<b] ! i"
      by (simp add: collision_free_def)
  qed
qed

section \<open>The contract of a verifying fetch\<close>

locale verified_fetch =
  fixes hash :: "bytes \<Rightarrow> string"
    and fetch :: "manifest \<Rightarrow> chunk_span \<Rightarrow> 'w \<Rightarrow> (bytes result \<times> 'w) option"
  assumes fetch_verified:
      "fetch m span w = Some (Inr out, w') \<Longrightarrow> first_chunk span \<le> last_chunk span \<Longrightarrow>
       unat (last_chunk span) < length (chunks m) \<Longrightarrow>
       \<exists>parts. out = concat parts \<and> map hash parts =
         take (Suc (unat (last_chunk span)) - unat (first_chunk span))
           (drop (unat (first_chunk span)) (chunks m))"
    and fetch_returns:
      "first_chunk span \<le> last_chunk span \<Longrightarrow> unat (last_chunk span) < length (chunks m) \<Longrightarrow>
       fetch m span w \<noteq> None"
begin

lemma fetched_chunks:
  assumes "describes hash m obj" "collision_free hash m obj"
    and "fetch m span w = Some (Inr out, w')"
    and "first_chunk span \<le> last_chunk span" "unat (last_chunk span) < length (chunks m)"
  shows "out = concat (map (chunk_at (unat (chunk_size m)) obj)
           [unat (first_chunk span)..<Suc (unat (last_chunk span))])"
proof -
  obtain parts where p: "out = concat parts" "map hash parts =
      take (Suc (unat (last_chunk span)) - unat (first_chunk span))
        (drop (unat (first_chunk span)) (chunks m))"
    using fetch_verified [OF assms(3-5)] by blast
  from verified_parts [OF assms(1,2) p(2)] assms(5) p(1) show ?thesis by simp
qed

end

lemma span_in_manifest:
  assumes "describes hash m obj" "range_ok r (len64 obj)" "chunks_for_range m r = Some span"
  shows "first_chunk span \<le> last_chunk span \<and> unat (last_chunk span) < length (chunks m)"
proof -
  have v: "vec_ok obj" and cs: "0 < unat (chunk_size m)"
    using assms(1) by (auto simp: describes_def unat_gt_0)
  have e: "unat (br_start r) \<le> unat (br_end r)" "unat (br_end r) < length obj"
    using range_ok_unat [OF assms(2)] by (simp_all add: unat_len64 [OF v])
  then have "unat (br_start r) div unat (chunk_size m) \<le> unat (br_end r) div unat (chunk_size m)"
    by (simp add: div_le_mono)
  with assms(1,3) chunk_count_bound [OF cs e(2)] show ?thesis
    by (auto simp: chunks_for_range_Some describes_def unat_div word_le_nat_alt)
qed

context verified_fetch
begin

text \<open>Whatever the store answers, a range assembled from verified chunks is the right range.\<close>

lemma fetched_range:
  assumes "describes hash m obj" "collision_free hash m obj"
    and "range_ok r (len64 obj)" "chunks_for_range m r = Some span"
    and "fetch m span w = Some (Inr out, w')"
  shows "slice_span out span = Inr (nths obj {unat (br_start r)..unat (br_end r)})"
proof -
  have "vec_ok obj" using assms(1) by (simp add: describes_def)
  with covering_chunks [OF assms(3) _ assms(4)] span_in_manifest [OF assms(1,3,4)]
    fetched_chunks [OF assms(1,2,5)]
  show ?thesis by (simp add: nths_interval)
qed

end

end
