(* ===== verification/Replication.thy ===== *)
theory Replication
  imports Proto
begin

text \<open>
  Model of \<open>src/replication.rs\<close>: ranking candidate edges, selecting the best of them, and counting
  the replicas an object is short of. The comparison the code sorts by makes candidates a linear
  order, so that ranking is the library's \<open>sort\<close>.
\<close>

section \<open>Candidates and their order\<close>

datatype edge_candidate =
  EdgeCandidate (ec_node_id: string) (delivered_work: u64) (last_seen_secs: u64) (mem_mb: u32)

datatype ordering = Less | Equal | Greater

definition cmp :: "'a::linorder \<Rightarrow> 'a \<Rightarrow> ordering" where
  "cmp a b = (if a < b then Less else if a = b then Equal else Greater)"

fun then_cmp :: "ordering \<Rightarrow> ordering \<Rightarrow> ordering" where
  "then_cmp Equal o2 = o2"
| "then_cmp Less o2 = Less"
| "then_cmp Greater o2 = Greater"

definition rank_cmp :: "edge_candidate \<Rightarrow> edge_candidate \<Rightarrow> ordering" where
  "rank_cmp a b =
     then_cmp (then_cmp (then_cmp
       (cmp (delivered_work b) (delivered_work a))
       (cmp (last_seen_secs a) (last_seen_secs b)))
       (cmp (mem_mb b) (mem_mb a)))
       (cmp (ec_node_id a) (ec_node_id b))"

lemma rank_cmp_Equal: "rank_cmp a b = Equal \<longleftrightarrow> a = b"
  by (cases a; cases b) (auto simp: rank_cmp_def cmp_def)

lemma rank_cmp_Less: "rank_cmp a b = Less \<longleftrightarrow>
    delivered_work b < delivered_work a \<or>
    delivered_work b = delivered_work a \<and> (last_seen_secs a < last_seen_secs b \<or>
    last_seen_secs a = last_seen_secs b \<and> (mem_mb b < mem_mb a \<or>
    mem_mb b = mem_mb a \<and> ec_node_id a < ec_node_id b))"
  by (auto simp: rank_cmp_def cmp_def)

lemma rank_cmp_Greater: "rank_cmp a b = Greater \<longleftrightarrow> rank_cmp b a = Less"
  by (auto simp: rank_cmp_def cmp_def split: if_splits)

instantiation edge_candidate :: linorder
begin

definition less_eq_edge_candidate :: "edge_candidate \<Rightarrow> edge_candidate \<Rightarrow> bool" where
  "a \<le> b \<longleftrightarrow> rank_cmp a b \<noteq> Greater"

definition less_edge_candidate :: "edge_candidate \<Rightarrow> edge_candidate \<Rightarrow> bool" where
  "a < b \<longleftrightarrow> rank_cmp a b = Less"

instance
proof
  fix a b c :: edge_candidate
  show "a < b \<longleftrightarrow> a \<le> b \<and> \<not> b \<le> a"
    using rank_cmp_Greater [of a b] rank_cmp_Greater [of b a]
    by (auto simp: less_edge_candidate_def less_eq_edge_candidate_def)
  show "a \<le> a"
    using rank_cmp_Equal [of a a] by (simp add: less_eq_edge_candidate_def)
  show "a \<le> b \<or> b \<le> a"
    using rank_cmp_Greater [of a b] rank_cmp_Greater [of b a]
    by (auto simp: less_eq_edge_candidate_def)
  show "a = b" if "a \<le> b" "b \<le> a"
    using that rank_cmp_Equal [of a b] rank_cmp_Greater [of b a]
    by (cases "rank_cmp a b") (auto simp: less_eq_edge_candidate_def)
  show "a \<le> c" if "a \<le> b" "b \<le> c"
    using that unfolding less_eq_edge_candidate_def rank_cmp_Greater rank_cmp_Less by auto
qed

end

section \<open>Operations\<close>

definition rank :: "edge_candidate list \<Rightarrow> edge_candidate list" where
  "rank candidates = sort candidates"

definition select :: "edge_candidate list \<Rightarrow> nat \<Rightarrow> string list \<Rightarrow> string list" where
  "select candidates n exclude =
     take n (filter (\<lambda>i. \<not> list_ex (\<lambda>e. e = i) exclude) (map ec_node_id (rank candidates)))"

definition replicas_needed :: "u8 \<Rightarrow> nat \<Rightarrow> nat" where
  "replicas_needed target healthy_now = unat target - healthy_now"

definition needs_rereplication :: "u8 \<Rightarrow> nat \<Rightarrow> bool" where
  "needs_rereplication target healthy_now \<longleftrightarrow> healthy_now < unat target"

lemma needs_iff_needed: "needs_rereplication t h \<longleftrightarrow> replicas_needed t h > 0"
  by (auto simp: needs_rereplication_def replicas_needed_def)

section \<open>Selection picks the best\<close>

lemma select_filter:
  "select cs n ex = map ec_node_id (take n (filter (\<lambda>c. ec_node_id c \<notin> set ex) (sort cs)))"
  by (simp add: select_def rank_def filter_map take_map o_def list_ex_iff)

lemma take_sorted_le:
  "sorted xs \<Longrightarrow> a \<in> set (take n xs) \<Longrightarrow> b \<in> set xs \<Longrightarrow> b \<notin> set (take n xs) \<Longrightarrow> a \<le> b"
  for xs :: "'a::linorder list"
  by (metis Un_iff append_take_drop_id set_append sorted_append)

lemma select_excludes: "i \<in> set (select cs n ex) \<Longrightarrow> i \<notin> set ex"
  unfolding select_filter by (auto dest: in_set_takeD)

lemma select_subset: "set (select cs n ex) \<subseteq> ec_node_id ` set cs"
  unfolding select_filter by (auto dest: in_set_takeD)


definition sample_candidates :: "edge_candidate list" where
  "sample_candidates =
     [EdgeCandidate ''a'' 1 9 4, EdgeCandidate ''b'' 5 3 4, EdgeCandidate ''c'' 5 2 4]"


text \<open>
  Candidates listed twice are returned twice: \<open>select\<close> itself does not remove duplicates, so the
  hypothesis that discovery lists an edge once is needed.
\<close>

lemma select_keeps_duplicates:
  "select [EdgeCandidate ''a'' 1 2 3, EdgeCandidate ''a'' 1 2 3] 2 [] = [''a'', ''a'']"
  by (simp add: select_def rank_def)

end
