(* ===== verification/Hex.thy ===== *)
theory Hex
  imports Rust_Strings
begin

text \<open>
  The contract the crate relies on of the \<open>hex\<close> crate: decoding what was encoded gives the bytes
  back, and an encoding consists of lower-case hexadecimal digits, two per byte. \<open>hex::encode\<close> and
  \<open>hex::decode\<close> are parameters of the model; the small reference codec at the end shows that the
  contract can hold and serves the concrete examples.
\<close>

definition hex_digit :: "char \<Rightarrow> bool" where
  "hex_digit c \<longleftrightarrow> c \<in> set ''0123456789abcdef''"

definition hex_codec :: "(bytes \<Rightarrow> string) \<Rightarrow> (string \<Rightarrow> bytes option) \<Rightarrow> bool" where
  "hex_codec enc dec \<longleftrightarrow>
     (\<forall>bs. dec (enc bs) = Some bs \<and> length (enc bs) = 2 * length bs \<and> list_all hex_digit (enc bs))"

lemma hex_decode_encode: "hex_codec enc dec \<Longrightarrow> dec (enc bs) = Some bs"
  by (simp add: hex_codec_def)

lemma length_hex_encode: "hex_codec enc dec \<Longrightarrow> length (enc bs) = 2 * length bs"
  by (simp add: hex_codec_def)

lemma hex_digit_plain:
  "hex_digit c \<Longrightarrow> plain c \<and> c \<noteq> CHR ''.'' \<and> c \<noteq> CHR ''&'' \<and> c \<noteq> CHR ''='' \<and> c \<noteq> CHR '':'' \<and> c \<noteq> CHR '',''"
  by (auto simp: hex_digit_def)

lemma hex_encode_no:
  assumes "hex_codec enc dec"
  shows "CHR ''.'' \<notin> set (enc bs)" "CHR ''&'' \<notin> set (enc bs)" "CHR ''='' \<notin> set (enc bs)"
    "CHR '':'' \<notin> set (enc bs)" "CHR '','' \<notin> set (enc bs)"
  using assms hex_digit_plain unfolding hex_codec_def list_all_iff by blast+

lemma trim_hex_encode:
  assumes "hex_codec enc dec"
  shows "trim (enc bs) = enc bs"
  by (rule trim_all_plain) (use assms hex_digit_plain in \<open>auto simp: hex_codec_def list_all_iff\<close>)

lemma plain_last_hex:
  assumes "hex_codec enc dec" "bs \<noteq> []"
  shows "enc bs \<noteq> []" "plain (last (enc bs))"
proof -
  show "enc bs \<noteq> []" using assms length_hex_encode [OF assms(1), of bs] by auto
  then show "plain (last (enc bs))"
    using assms(1) hex_digit_plain last_in_set by (auto simp: hex_codec_def list_all_iff)
qed

text \<open>\<open>try_into\<close> a fixed-size array: the length has to be exact.\<close>

definition to_array :: "nat \<Rightarrow> bytes \<Rightarrow> bytes option" where
  "to_array n bs = (if length bs = n then Some bs else None)"

lemma to_array_Some [simp]: "to_array n bs = Some a \<longleftrightarrow> a = bs \<and> length bs = n"
  by (auto simp: to_array_def)

section \<open>A reference codec\<close>

definition ref_nibble :: "nat \<Rightarrow> char" where
  "ref_nibble n = ''0123456789abcdef'' ! n"

definition ref_value :: "char \<Rightarrow> nat option" where
  "ref_value c = map_of (zip ''0123456789abcdef'' [0..<16]) c"

definition ref_encode :: "bytes \<Rightarrow> string" where
  "ref_encode bs = concat (map (\<lambda>b. [ref_nibble (unat b div 16), ref_nibble (unat b mod 16)]) bs)"

fun ref_decode :: "string \<Rightarrow> bytes option" where
  "ref_decode [] = Some []"
| "ref_decode [c] = None"
| "ref_decode (c # d # cs) =
     (case (ref_value c, ref_value d, ref_decode cs) of
        (Some hi, Some lo, Some bs) \<Rightarrow> Some (of_nat (hi * 16 + lo) # bs)
      | _ \<Rightarrow> None)"

lemma all_nibbles: "(\<forall>n < 16. P n) \<longleftrightarrow> list_all P [0..<16]" for P :: "nat \<Rightarrow> bool"
  by (auto simp: list_all_iff)

lemma ref_nibble_value: "n < 16 \<Longrightarrow> ref_value (ref_nibble n) = Some n \<and> hex_digit (ref_nibble n)"
proof -
  have "\<forall>n < 16. ref_value (ref_nibble n) = Some n \<and> hex_digit (ref_nibble n)"
    unfolding all_nibbles by (simp add: upt_rec ref_nibble_def ref_value_def hex_digit_def)
  then show "n < 16 \<Longrightarrow> ref_value (ref_nibble n) = Some n \<and> hex_digit (ref_nibble n)" by blast
qed

lemma ref_hex_codec: "hex_codec ref_encode ref_decode"
  unfolding hex_codec_def
proof (rule allI)
  fix bs :: bytes
  show "ref_decode (ref_encode bs) = Some bs \<and> length (ref_encode bs) = 2 * length bs
      \<and> list_all hex_digit (ref_encode bs)"
  proof (induction bs)
    case (Cons b bs)
    have "unat b < 256" using unsigned_less [of b, where ?'a = nat] by simp
    then have hi: "unat b div 16 < 16" by simp
    have "of_nat (unat b div 16 * 16 + unat b mod 16) = b" by simp
    with Cons ref_nibble_value [OF hi] ref_nibble_value [of "unat b mod 16"]
    show ?case by (simp add: ref_encode_def)
  qed (simp add: ref_encode_def)
qed

end
