(* ===== verification/Client.thy ===== *)
theory Client
  imports Ce_Rs Replication Hex
begin

text \<open>
  Model of \<open>src/client.rs\<close>: publishing an object, reading it whole or by range, choosing edges, and
  the three requests to an edge. The SDK is the record \<open>sdk\<close>, the JSON of requests and replies the
  parameters \<open>to_json\<close> and \<open>from_json\<close>. A range read that indexes past the manifest panics in Rust
  and is \<open>None\<close> here.
\<close>

record put_result =
  pt_cid :: string
  pt_bytes_len :: u64
  pt_url :: string

definition url_for :: "string \<Rightarrow> string" where
  "url_for cid = ''/cdn/'' @ cid"

definition put :: "'w sdk \<Rightarrow> bytes \<Rightarrow> 'w \<Rightarrow> put_result result \<times> 'w" where
  "put ce bs w =
     (case with_context ''storing object in blob store'' (put_object ce bs w) of
        (Inl e, w1) \<Rightarrow> (Inl e, w1)
      | (Inr cid, w1) \<Rightarrow>
          (let (_, w2) = advertise_service ce (service_for cid) w1
           in (Inr \<lparr>pt_cid = cid, pt_bytes_len = len64 bs, pt_url = url_for cid\<rparr>, w2)))"

definition client_get :: "'w sdk \<Rightarrow> string \<Rightarrow> 'w \<Rightarrow> bytes result \<times> 'w" where
  "client_get ce cid w = with_context (''fetching object '' @ cid) (get_object ce cid w)"

definition fetch_manifest :: "'w sdk \<Rightarrow> string \<Rightarrow> 'w \<Rightarrow> manifest result \<times> 'w" where
  "fetch_manifest ce cid w =
     (case with_context (''fetching manifest '' @ cid) (get_blob ce cid w) of
        (Inl e, w1) \<Rightarrow> (Inl e, w1)
      | (Inr manifest_bytes, w1) \<Rightarrow>
          (case parse_manifest ce manifest_bytes of
             Inl e \<Rightarrow> (Inl (cid @ '' is not a v1 object manifest: '' @ e), w1)
           | Inr m \<Rightarrow>
               if \<not> is_v1 ce m then (Inl (''unsupported manifest kind: '' @ kind m), w1)
               else (Inr m, w1)))"

definition reassemble_span ::
  "'w sdk \<Rightarrow> manifest \<Rightarrow> chunk_span \<Rightarrow> 'w \<Rightarrow> (bytes result \<times> 'w) option" where
  "reassemble_span ce m span w =
     (if chunks m = [] then Some (Inr [], w)
      else (let last = min (unat (last_chunk span)) (length (chunks m) - 1);
                first = unat (first_chunk span)
            in case slice_incl (chunks m) first last of
                 None \<Rightarrow> None
               | Some cids \<Rightarrow>
                   Some (verified_chunks (cid_of ce)
                     (\<lambda>c w. with_context (''fetching chunk '' @ c) (get_blob ce c w)) cids [] w)))"

text \<open>\<open>dbg\<close> is the \<open>{:?}\<close> rendering of the header in the error message.\<close>

definition get_range ::
  "'w sdk \<Rightarrow> (string option \<Rightarrow> string) \<Rightarrow> string \<Rightarrow> string option \<Rightarrow> 'w \<Rightarrow> ((bytes \<times> byte_range \<times> u64) result \<times> 'w) option" where
  "get_range ce dbg cid range_header w =
     (case fetch_manifest ce cid w of
        (Inl e, w1) \<Rightarrow> Some (Inl e, w1)
      | (Inr m, w1) \<Rightarrow>
          (let tot = total_size m in
           case parse_range range_header tot of
             Full \<Rightarrow>
               map_option (\<lambda>(r, w2).
                   (map_sum id (\<lambda>bs. (bs, \<lparr>br_start = 0, br_end = sat_sub tot 1\<rparr>, tot)) r, w2))
                 (reassemble_span ce m
                   \<lparr>first_chunk = 0, last_chunk = of_nat (length (chunks m) - 1), head_skip = 0,
                    out_len = tot\<rparr> w1)
           | Partial rng \<Rightarrow>
               (case chunks_for_range m rng of
                  None \<Rightarrow> Some (Inl (''manifest '' @ cid @ '' has zero chunk_size''), w1)
                | Some span \<Rightarrow>
                    (case reassemble_span ce m span w1 of
                       None \<Rightarrow> None
                     | Some (Inl e, w2) \<Rightarrow> Some (Inl e, w2)
                     | Some (Inr joined, w2) \<Rightarrow>
                         Some (map_sum id (\<lambda>bs. (bs, rng, tot)) (slice_span joined span), w2)))
           | Unsatisfiable \<Rightarrow>
               Some (Inl (''range '' @ dbg range_header @ '' not satisfiable for object of '' @ show_u64 tot @ '' bytes''), w1)))"

text \<open>The loop of \<open>pick_edges\<close> over the advertised edges, one history lookup each.\<close>

fun edge_candidates ::
  "'w sdk \<Rightarrow> atlas_entry list \<Rightarrow> string list \<Rightarrow> 'w \<Rightarrow> edge_candidate list \<times> 'w" where
  "edge_candidates ce atl [] w = ([], w)"
| "edge_candidates ce atl (i # ids) w =
     (let entry = find (\<lambda>e. ae_node_id e = i) atl;
          (h, w1) = history_work ce i w;
          c = EdgeCandidate i (unwrap_or 0 h)
                (case entry of None \<Rightarrow> u64_MAX | Some e \<Rightarrow> ae_last_seen_secs e)
                (case entry of None \<Rightarrow> 0 | Some e \<Rightarrow> ae_mem_mb e);
          (cs, w2) = edge_candidates ce atl ids w1
      in (c # cs, w2))"

definition pick_edges :: "'w sdk \<Rightarrow> nat \<Rightarrow> string list \<Rightarrow> 'w \<Rightarrow> string list result \<times> 'w" where
  "pick_edges ce n exclude w =
     (let (adv, w1) = find_service ce SERVICE_EDGE w;
          (atl, w2) = atlas ce w1;
          (candidates, w3) = edge_candidates ce (unwrap_or [] atl) (unwrap_or [] adv) w2
      in (Inr (select candidates n exclude), w3))"

text \<open>One request to an edge: encode, send, decode the reply.\<close>

definition edge_request ::
  "'w sdk \<Rightarrow> (bytes \<Rightarrow> 'r result) \<Rightarrow> string \<Rightarrow> string \<Rightarrow> bytes result \<Rightarrow> u64 \<Rightarrow> 'w \<Rightarrow> 'r result \<times> 'w" where
  "edge_request ce from_json edge topic payload timeout w =
     (case payload of
        Inl e \<Rightarrow> (Inl e, w)
      | Inr p \<Rightarrow>
          (case with_context (topic @ '' request to '' @ edge) (send_request ce edge topic p timeout w) of
             (Inl e, w1) \<Rightarrow> (Inl e, w1)
           | (Inr reply, w1) \<Rightarrow>
               (case from_json reply of
                  Inl e \<Rightarrow> (Inl (''bad '' @ topic @ '' reply from '' @ edge @ '': '' @ e), w1)
                | Inr r \<Rightarrow> (Inr r, w1))))"

definition replicate_to ::
  "'w sdk \<Rightarrow> (cache_req \<Rightarrow> bytes result) \<Rightarrow> (bytes \<Rightarrow> cache_resp result) \<Rightarrow> string \<Rightarrow> string \<Rightarrow> u64
     \<Rightarrow> u64 \<Rightarrow> string \<Rightarrow> 'w \<Rightarrow> cache_resp result \<times> 'w" where
  "replicate_to ce to_json from_json edge cid bytes_len ttl caps w =
     (let req = \<lparr>cq_caps = caps, cq_cid = cid, cq_bytes_len = bytes_len, cq_ttl_secs = ttl\<rparr>
      in edge_request ce from_json edge TOPIC_CACHE (to_json req) 30000 w)"

definition probe ::
  "'w sdk \<Rightarrow> (status_req \<Rightarrow> bytes result) \<Rightarrow> (bytes \<Rightarrow> status_resp result) \<Rightarrow> string \<Rightarrow> string
     \<Rightarrow> string \<Rightarrow> 'w \<Rightarrow> status_resp result \<times> 'w" where
  "probe ce to_json from_json edge cid caps w =
     (let req = \<lparr>sq_caps = caps, sq_cid = cid\<rparr>
      in edge_request ce from_json edge TOPIC_STATUS (to_json req) 15000 w)"

definition purge_at ::
  "'w sdk \<Rightarrow> (purge_req \<Rightarrow> bytes result) \<Rightarrow> (bytes \<Rightarrow> purge_resp result) \<Rightarrow> string \<Rightarrow> string
     \<Rightarrow> string \<Rightarrow> 'w \<Rightarrow> purge_resp result \<times> 'w" where
  "purge_at ce to_json from_json edge cid caps w =
     (let req = \<lparr>pq_caps = caps, pq_cid = cid\<rparr>
      in edge_request ce from_json edge TOPIC_PURGE (to_json req) 15000 w)"

section \<open>Range reads are trustless\<close>

lemma reassemble_in_range:
  assumes "first_chunk span \<le> last_chunk span" "unat (last_chunk span) < length (chunks m)"
  shows "reassemble_span ce m span w =
    Some (verified_chunks (cid_of ce) (\<lambda>c w. with_context (''fetching chunk '' @ c) (get_blob ce c w))
      (take (Suc (unat (last_chunk span)) - unat (first_chunk span))
        (drop (unat (first_chunk span)) (chunks m))) [] w)"
proof -
  have "min (unat (last_chunk span)) (length (chunks m) - 1) = unat (last_chunk span)"
    using assms(2) by simp
  moreover have "slice_incl (chunks m) (unat (first_chunk span)) (unat (last_chunk span))
      = Some (take (Suc (unat (last_chunk span)) - unat (first_chunk span))
                (drop (unat (first_chunk span)) (chunks m)))"
    using assms by (intro slice_incl_Some) (simp_all add: word_le_nat_alt)
  ultimately show ?thesis
    using assms(2) by (auto simp: reassemble_span_def Let_def)
qed

interpretation client: verified_fetch "cid_of ce" "reassemble_span ce" for ce :: "'w sdk"
proof
  fix m :: manifest and span :: chunk_span and w w' :: 'w and out :: bytes
  assume a: "first_chunk span \<le> last_chunk span" "unat (last_chunk span) < length (chunks m)"
  show "reassemble_span ce m span w \<noteq> None" by (simp add: reassemble_in_range [OF a])
  assume "reassemble_span ce m span w = Some (Inr out, w')"
  then show "\<exists>parts. out = concat parts \<and> map (cid_of ce) parts =
      take (Suc (unat (last_chunk span)) - unat (first_chunk span))
        (drop (unat (first_chunk span)) (chunks m))"
    using verified_chunks_Inr [of "cid_of ce" _ _ "[]" w out w']
    by (simp add: reassemble_in_range [OF a])
qed

text \<open>The span of a whole read.\<close>

definition whole_span :: "manifest \<Rightarrow> chunk_span" where
  "whole_span m = \<lparr>first_chunk = 0, last_chunk = of_nat (length (chunks m) - 1), head_skip = 0,
     out_len = total_size m\<rparr>"

lemma length_chunks_bound:
  assumes "describes hash m obj"
  shows "length (chunks m) \<le> length obj"
proof -
  let ?cs = "unat (chunk_size m)"
  have cs: "0 < ?cs" using assms by (auto simp: describes_def unat_gt_0)
  have "(length obj + ?cs - 1) div ?cs \<le> length obj"
  proof (cases "length obj = 0")
    case False
    then have "length obj + ?cs - 1 \<le> length obj * ?cs"
      using cs by (cases "length obj"; cases ?cs) auto
    then have "(length obj + ?cs - 1) div ?cs \<le> (length obj * ?cs) div ?cs" by (rule div_le_mono)
    also have "\<dots> = length obj" using cs by simp
    finally show ?thesis .
  qed (use cs in simp)
  then show ?thesis using assms by (simp add: describes_def chunk_count_def)
qed

lemma whole_span_in:
  assumes "describes hash m obj" "chunks m \<noteq> []"
  shows "first_chunk (whole_span m) \<le> last_chunk (whole_span m)"
    and "unat (last_chunk (whole_span m)) = length (chunks m) - 1"
proof -
  have "length (chunks m) < 2 ^ 63"
    using length_chunks_bound [OF assms(1)] assms(1)
    by (meson describes_def vec_ok_def order.strict_trans1)
  then have "length (chunks m) - 1 < 2 ^ 64" by simp
  then show "unat (last_chunk (whole_span m)) = length (chunks m) - 1"
    by (simp add: whole_span_def unat_of_nat)
qed (simp add: whole_span_def)

lemma all_chunks:
  assumes "describes hash m obj"
  shows "concat (map (chunk_at (unat (chunk_size m)) obj) [0..<length (chunks m)]) = obj"
proof -
  have "0 < unat (chunk_size m)" using assms by (auto simp: describes_def unat_gt_0)
  from chunk_count_cover [OF this, of "length obj"] show ?thesis
    using assms by (simp add: concat_chunks describes_def)
qed

lemma reassemble_whole:
  assumes "describes (cid_of ce) m obj" "collision_free (cid_of ce) m obj"
    and "reassemble_span ce m (whole_span m) w = Some (Inr out, w')"
  shows "out = obj"
proof (cases "chunks m = []")
  case True
  with assms(1) all_chunks [OF assms(1)] assms(3) show ?thesis by (simp add: reassemble_span_def)
next
  case False
  then have suc: "Suc (length (chunks m) - 1) = length (chunks m)" by (cases "chunks m") auto
  have "length (chunks m) - 1 < length (chunks m)" using False by simp
  with client.fetched_chunks [OF assms] whole_span_in [OF assms(1) False]
  have "out = concat (map (chunk_at (unat (chunk_size m)) obj)
      [unat (first_chunk (whole_span m))..<Suc (length (chunks m) - 1)])" by metis
  then show ?thesis
    unfolding suc using all_chunks [OF assms(1)] by (simp add: whole_span_def)
qed

lemma reassemble_returns:
  assumes "describes hash m obj"
  shows "\<exists>r w'. reassemble_span ce m (whole_span m) w = Some (r, w')"
proof (cases "chunks m = []")
  case False
  then have "length (chunks m) - 1 < length (chunks m)" by simp
  with client.fetch_returns [of "whole_span m" m ce w] whole_span_in [OF assms False]
  show ?thesis by auto
qed (simp add: reassemble_span_def)

lemma get_range_right:
  assumes "fetch_manifest ce cid w = (Inr m, w1)"
    and "describes (cid_of ce) m obj" and "collision_free (cid_of ce) m obj"
  shows "\<exists>r w'. get_range ce dbg cid hdr w = Some (r, w') \<and>
    (\<forall>bs rng tot. r = Inr (bs, rng, tot) \<longrightarrow> tot = len64 obj \<and>
       (case parse_range hdr (len64 obj) of
          Full \<Rightarrow> bs = obj
        | Partial p \<Rightarrow> rng = p \<and> bs = nths obj {unat (br_start p)..unat (br_end p)}
        | Unsatisfiable \<Rightarrow> False))"
proof (cases "parse_range hdr (len64 obj)")
  case Full
  have tot: "total_size m = len64 obj" using assms(2) by (simp add: describes_def)
  obtain r w' where r: "reassemble_span ce m (whole_span m) w1 = Some (r, w')"
    using reassemble_returns [OF assms(2)] by fast
  have whole: "get_range ce dbg cid hdr w = Some
      (map_sum id (\<lambda>bs. (bs, \<lparr>br_start = 0, br_end = sat_sub (len64 obj) 1\<rparr>, len64 obj)) r, w')"
    using r Full assms(1) by (simp add: get_range_def tot Let_def whole_span_def)
  show ?thesis
  proof (cases r)
    case (Inr bs)
    with whole Full reassemble_whole [OF assms(2,3), of w1 bs w'] r show ?thesis by simp
  qed (use whole Full in simp)
next
  case (Partial p)
  have tot: "total_size m = len64 obj" and cs: "chunk_size m \<noteq> 0"
    using assms(2) by (simp_all add: describes_def)
  have ok: "range_ok p (len64 obj)" using Partial by (rule parse_range_Partial)
  obtain span where span: "chunks_for_range m p = Some span"
    using cs by (simp add: chunks_for_range_Some)
  note inside = span_in_manifest [OF assms(2) ok span]
  obtain r w' where r: "reassemble_span ce m span w1 = Some (r, w')"
    using client.fetch_returns [of span m ce w1] inside by auto
  with client.fetched_range [OF assms(2,3) ok span] Partial assms(1) span show ?thesis
    by (cases r) (auto simp: get_range_def tot)
next
  case Unsatisfiable
  with assms(1,2) show ?thesis by (simp add: get_range_def describes_def)
qed


text \<open>
  A concrete store for the examples: the content id of some bytes is their hexadecimal form, so the
  store can answer every content id, and the one manifest describes a three-byte object.
\<close>

definition demo_object :: bytes where
  "demo_object = [1, 2, 3]"

definition demo_manifest :: manifest where
  "demo_manifest = \<lparr>kind = ''v1'', chunk_size = 2, total_size = 3, chunks = [ref_encode [1, 2], ref_encode [3]]\<rparr>"

definition demo_sdk :: "nat sdk" where
  "demo_sdk =
     \<lparr>cid_of = ref_encode,
      get_blob = (\<lambda>c w. (case ref_decode c of None \<Rightarrow> Inl ''not found'' | Some b \<Rightarrow> Inr b, w + 1)),
      get_object = (\<lambda>c w. (Inr demo_object, w + 1)),
      put_object = (\<lambda>b w. (Inr (ref_encode b), w + 1)),
      advertise_service = (\<lambda>s w. (Inr (), w + 1)),
      find_service = (\<lambda>s w. (Inr [''e1'', ''e2''], w + 1)),
      atlas = (\<lambda>w. (Inr [], w + 1)),
      history_work = (\<lambda>i w. (Inr 0, w + 1)),
      send_request = (\<lambda>e t p to w. (Inl ''offline'', w + 1)),
      parse_manifest = (\<lambda>b. Inr demo_manifest),
      is_v1 = (\<lambda>m. kind m = ''v1'')\<rparr>"

lemma demo_describes: "describes (cid_of demo_sdk) demo_manifest demo_object"
proof -
  have "[0..<2] = [0, 1 :: nat]" by (simp add: upt_rec)
  then show ?thesis
    by (simp add: describes_def demo_sdk_def demo_manifest_def demo_object_def vec_ok_def len64_def
        chunk_count_def chunk_at_def)
qed

lemma demo_collision_free: "collision_free (cid_of demo_sdk) m obj"
proof -
  have "ref_encode a = ref_encode b \<Longrightarrow> a = b" for a b
    using hex_decode_encode [OF ref_hex_codec] by (metis option.inject)
  then show ?thesis unfolding collision_free_def demo_sdk_def sdk.select_convs by blast
qed

lemma demo_fetch_manifest: "fetch_manifest demo_sdk [] w = (Inr demo_manifest, w + 1)"
  by (simp add: fetch_manifest_def demo_sdk_def with_context_def demo_manifest_def)


section \<open>Range reads complete\<close>

lemma serves_part:
  "serves hash get cs \<Longrightarrow> serves hash get (take n (drop k cs))"
  unfolding serves_def by (meson in_set_dropD in_set_takeD)

lemma serves_with_context:
  "serves hash get cs \<Longrightarrow> serves hash (\<lambda>c w. with_context (ctx c) (get c w)) cs"
  by (simp add: serves_def)

lemma reassemble_served:
  assumes "serves (cid_of ce) (get_blob ce) (chunks m)"
    and "first_chunk span \<le> last_chunk span" "unat (last_chunk span) < length (chunks m)"
  shows "\<exists>out w'. reassemble_span ce m span w = Some (Inr out, w')"
  using verified_chunks_served [OF serves_with_context [OF serves_part [OF assms(1)]]]
  by (simp add: reassemble_in_range [OF assms(2,3)])

text \<open>
  C27: a client read completes. When the manifest describes the object and the blob store answers each
  of its chunks with bytes of that content id, \<open>get_range\<close> succeeds for every header except one that
  asks for no byte of the object.
\<close>
theorem get_range_completes:
  assumes "fetch_manifest ce cid w = (Inr m, w1)"
    and "describes (cid_of ce) m obj" and "collision_free (cid_of ce) m obj"
    and "serves (cid_of ce) (get_blob ce) (chunks m)"
  shows "\<exists>r w'. get_range ce dbg cid hdr w = Some (r, w') \<and>
    (isl r \<longleftrightarrow> parse_range hdr (len64 obj) = Unsatisfiable)"
proof (cases "parse_range hdr (len64 obj)")
  case Full
  have tot: "total_size m = len64 obj" using assms(2) by (simp add: describes_def)
  have "\<exists>out w'. reassemble_span ce m (whole_span m) w1 = Some (Inr out, w')"
  proof (cases "chunks m = []")
    case False
    with reassemble_served [OF assms(4) whole_span_in(1) [OF assms(2) False]]
      whole_span_in(2) [OF assms(2) False]
    show ?thesis by simp
  qed (simp add: reassemble_span_def)
  with Full assms(1) show ?thesis
    by (auto simp: get_range_def tot Let_def whole_span_def)
next
  case (Partial p)
  have tot: "total_size m = len64 obj" and cs: "chunk_size m \<noteq> 0"
    using assms(2) by (simp_all add: describes_def)
  have ok: "range_ok p (len64 obj)" using Partial by (rule parse_range_Partial)
  obtain span where span: "chunks_for_range m p = Some span"
    using cs by (simp add: chunks_for_range_Some)
  obtain out w' where "reassemble_span ce m span w1 = Some (Inr out, w')"
    using reassemble_served [OF assms(4)] span_in_manifest [OF assms(2) ok span] by blast
  with client.fetched_range [OF assms(2,3) ok span] Partial assms(1) span show ?thesis
    by (auto simp: get_range_def tot)
next
  case Unsatisfiable
  with assms(1,2) show ?thesis by (simp add: get_range_def describes_def)
qed

lemma get_range_completes_witness:
  "\<exists>r w'. get_range demo_sdk (\<lambda>h. []) [] (Some (print_spec (Last 2))) 0 = Some (r, w') \<and>
    (isl r \<longleftrightarrow> parse_range (Some (print_spec (Last 2))) (len64 demo_object) = Unsatisfiable)"
proof (rule get_range_completes [OF demo_fetch_manifest demo_describes demo_collision_free])
  show "serves (cid_of demo_sdk) (get_blob demo_sdk) (chunks demo_manifest)"
    by (simp add: serves_def demo_sdk_def demo_manifest_def hex_decode_encode [OF ref_hex_codec])
qed

text \<open>
  A manifest whose size promises more chunks than it lists makes the client index past the end: the
  start of a range read beyond the listed chunks panics. The host clamps the index instead.
\<close>

lemma reassemble_span_panics:
  "reassemble_span ce \<lparr>kind = ''v1'', chunk_size = 2, total_size = 100, chunks = [''0102'']\<rparr>
     \<lparr>first_chunk = 5, last_chunk = 5, head_skip = 0, out_len = 1\<rparr> w = None"
  by (simp add: reassemble_span_def slice_incl_def slice_excl_def)

end
