(* ===== verification/Seen_Window.thy ===== *)
theory Seen_Window
  imports Prelude
begin

text \<open>
  The contract shared by the two bounded seen-sets of the crate, \<open>SeenTokens\<close> (mesh reply tokens,
  \<open>src/host.rs\<close>) and \<open>ReplayGuard\<close> (proof nonces, \<open>src/pop.rs\<close>): a FIFO window of the most recently
  accepted keys, at most \<open>capacity\<close> of them. What a client relies on is proved once, in the locale:
  memory stays bounded, and a key is accepted again only after \<open>capacity\<close> other keys were accepted.
\<close>

section \<open>Runs of a seen-set\<close>

fun run_accept :: "('k \<Rightarrow> 's \<Rightarrow> bool \<times> 's) \<Rightarrow> 'k list \<Rightarrow> 's \<Rightarrow> bool list \<times> 's" where
  "run_accept acc [] s = ([], s)"
| "run_accept acc (k # ks) s =
     (let (ok, s1) = acc k s; (oks, s2) = run_accept acc ks s1 in (ok # oks, s2))"

definition accepted :: "bool list \<Rightarrow> nat" where
  "accepted oks = length (filter id oks)"

lemma accepted_simps [simp]:
  "accepted [] = 0" "accepted (ok # oks) = (if ok then Suc (accepted oks) else accepted oks)"
  by (simp_all add: accepted_def)

lemma run_accept_Cons [simp]:
  "fst (run_accept acc (k # ks) s) = fst (acc k s) # fst (run_accept acc ks (snd (acc k s)))"
  "snd (run_accept acc (k # ks) s) = snd (run_accept acc ks (snd (acc k s)))"
  by (simp_all add: Let_def split_def)

declare run_accept.simps(2) [simp del]

lemma length_run_accept: "length (fst (run_accept acc ks s)) = length ks"
  by (induction ks arbitrary: s) simp_all

text \<open>The last \<open>n\<close> elements of a list.\<close>

definition last_n :: "nat \<Rightarrow> 'a list \<Rightarrow> 'a list" where
  "last_n n xs = drop (length xs - n) xs"

lemma length_last_n [simp]: "length (last_n n xs) = min n (length xs)"
  by (simp add: last_n_def min_def)

lemma last_n_id [simp]: "length xs \<le> n \<Longrightarrow> last_n n xs = xs"
  by (simp add: last_n_def)

lemma last_n_keeps:
  "length ys < n \<Longrightarrow> \<exists>xs'. last_n n (xs @ k # ys) = xs' @ k # ys"
  by (auto simp: last_n_def)

lemma distinct_last_n: "distinct xs \<Longrightarrow> distinct (last_n n xs)"
  by (simp add: last_n_def)

lemma last_n_append: "last_n n (last_n n xs @ ys) = last_n n (xs @ ys)"
proof (cases "n \<le> length xs")
  case True
  then show ?thesis by (simp add: last_n_def add.commute)
qed simp

lemma in_last_n: "k \<in> set (last_n n xs) \<Longrightarrow> k \<in> set xs"
  unfolding last_n_def by (rule in_set_dropD)

section \<open>The contract\<close>

locale seen_window =
  fixes acc :: "'k \<Rightarrow> 's \<Rightarrow> bool \<times> 's"
    and window :: "'s \<Rightarrow> 'k list"
    and cap :: "'s \<Rightarrow> nat"
    and ok :: "'s \<Rightarrow> bool"
  assumes acc_result: "ok s \<Longrightarrow> fst (acc k s) \<longleftrightarrow> k \<notin> set (window s)"
    and acc_new: "ok s \<Longrightarrow> k \<notin> set (window s) \<Longrightarrow>
          window (snd (acc k s)) = last_n (cap s) (window s @ [k])"
    and acc_seen: "ok s \<Longrightarrow> k \<in> set (window s) \<Longrightarrow> snd (acc k s) = s"
    and acc_cap: "ok s \<Longrightarrow> cap (snd (acc k s)) = cap s"
    and acc_ok: "ok s \<Longrightarrow> ok (snd (acc k s))"
    and bounded: "ok s \<Longrightarrow> length (window s) \<le> cap s"
    and cap_pos: "ok s \<Longrightarrow> 0 < cap s"
begin

lemma run_ok: "ok s \<Longrightarrow> ok (snd (run_accept acc ks s)) \<and> cap (snd (run_accept acc ks s)) = cap s"
proof (induction ks arbitrary: s)
  case (Cons k ks)
  then show ?case
    using acc_ok [of s k] acc_cap [of s k] Cons.IH [of "snd (acc k s)"] by simp
qed simp

lemma run_bounded: "ok s \<Longrightarrow> length (window (snd (run_accept acc ks s))) \<le> cap s"
  using run_ok [of s ks] bounded [of "snd (run_accept acc ks s)"] by simp

text \<open>A key followed by fewer than \<open>cap\<close> keys in the window survives that many accepts less.\<close>

lemma run_keeps:
  assumes "ok s" "window s = xs @ k # ys"
    and "length ys + accepted (fst (run_accept acc ks s)) < cap s"
  shows "k \<in> set (window (snd (run_accept acc ks s)))"
  using assms
proof (induction ks arbitrary: s xs ys)
  case (Cons k' ks)
  obtain a s1 where a: "acc k' s = (a, s1)" by (cases "acc k' s")
  have next_s: "ok s1" "cap s1 = cap s"
    using acc_ok [OF Cons.prems(1), of k'] acc_cap [OF Cons.prems(1), of k'] a by simp_all
  show ?case
  proof (cases "k' \<in> set (window s)")
    case True
    with a Cons.prems(1) have "a = False" "s1 = s"
      using acc_result [of s k'] acc_seen [of s k'] by auto
    with Cons.IH [OF Cons.prems(1,2)] Cons.prems(3) a show ?thesis
      by auto
  next
    case False
    with a Cons.prems(1) have acc': "a = True"
      and "window s1 = last_n (cap s) (xs @ k # (ys @ [k']))"
      using acc_result [of s k'] acc_new [of s k'] Cons.prems(2) by auto
    moreover have short: "length (ys @ [k']) < cap s"
      using Cons.prems(3) a acc' by auto
    ultimately obtain xs' where "window s1 = xs' @ k # (ys @ [k'])"
      using last_n_keeps by metis
    from Cons.IH [OF next_s(1) this] Cons.prems(3) a acc' next_s(2) show ?thesis
      by auto
  qed
qed simp

text \<open>Between two accepts of the same key lie at least \<open>cap\<close> accepts of other keys.\<close>

lemma reaccept_distance:
  assumes "ok s" "fst (acc k s)"
    and "fst (acc k (snd (run_accept acc ks (snd (acc k s)))))"
  shows "cap s \<le> accepted (fst (run_accept acc ks (snd (acc k s))))"
proof (rule ccontr)
  let ?s1 = "snd (acc k s)"
  assume "\<not> cap s \<le> accepted (fst (run_accept acc ks ?s1))"
  moreover have s1: "ok ?s1" "cap ?s1 = cap s"
    using assms(1) by (simp_all add: acc_ok acc_cap)
  moreover have "\<exists>xs. window ?s1 = xs @ k # []"
    using assms(1,2) cap_pos [OF assms(1)] last_n_keeps [of "[]" "cap s" "window s" k]
    by (simp add: acc_result acc_new)
  ultimately have "k \<in> set (window (snd (run_accept acc ks ?s1)))"
    using run_keeps by fastforce
  moreover have "ok (snd (run_accept acc ks ?s1))" using s1(1) run_ok by blast
  ultimately show False using assms(3) acc_result by blast
qed

text \<open>In particular a key presented again while the window is not exhausted is refused.\<close>

lemma replay_refused:
  assumes "ok s" "fst (acc k s)" "length ks < cap s"
  shows "\<not> fst (acc k (snd (run_accept acc ks (snd (acc k s)))))"
proof
  assume "fst (acc k (snd (run_accept acc ks (snd (acc k s)))))"
  from reaccept_distance [OF assms(1,2) this] assms(3) show False
    using length_filter_le [of id "fst (run_accept acc ks (snd (acc k s)))"]
    by (simp add: accepted_def length_run_accept)
qed

text \<open>After fresh keys the window is the last of them.\<close>

lemma run_fresh:
  assumes "ok s" "distinct ks" "set ks \<inter> set (window s) = {}"
  shows "window (snd (run_accept acc ks s)) = last_n (cap s) (window s @ ks)"
  using assms
proof (induction ks arbitrary: s)
  case Nil
  then show ?case using bounded [of s] by simp
next
  case (Cons k ks)
  let ?s1 = "snd (acc k s)"
  have w: "window ?s1 = last_n (cap s) (window s @ [k])"
    using Cons.prems acc_new [of s k] by simp
  have "k' \<notin> set (window ?s1)" if "k' \<in> set ks" for k'
    using that Cons.prems(2,3) in_last_n [of k' "cap s" "window s @ [k]"] by (auto simp: w)
  then have "window (snd (run_accept acc ks ?s1)) = last_n (cap ?s1) (window ?s1 @ ks)"
    using Cons.prems acc_ok [of s k] by (intro Cons.IH) auto
  then show ?case
    using Cons.prems(1) by (simp add: w acc_cap last_n_append)
qed

end

end
