(* ===== verification/Seen_Tokens.thy ===== *)
theory Seen_Tokens
  imports Seen_Window
begin

text \<open>
  Model of \<open>SeenTokens\<close> in \<open>src/host.rs\<close>: the bounded set of mesh reply tokens the edge host has
  already handled, as an interpretation of \<open>seen_window\<close>.
\<close>

record seen_tokens =
  tok_set :: "u64 set"
  tok_order :: "u64 list"
  tok_capacity :: usize

definition seen_new :: "usize \<Rightarrow> seen_tokens" where
  "seen_new capacity = \<lparr>tok_set = {}, tok_order = [], tok_capacity = max capacity 1\<rparr>"

function seen_evict :: "seen_tokens \<Rightarrow> seen_tokens" where
  "seen_evict s =
     (if length (tok_order s) > unat (tok_capacity s)
      then (case tok_order s of
              [] \<Rightarrow> s
            | old # rest \<Rightarrow> seen_evict (s\<lparr>tok_order := rest, tok_set := tok_set s - {old}\<rparr>))
      else s)"
  by pat_completeness auto
termination by (relation "measure (\<lambda>s. length (tok_order s))") auto

declare seen_evict.simps [simp del]

definition seen_insert :: "u64 \<Rightarrow> seen_tokens \<Rightarrow> bool \<times> seen_tokens" where
  "seen_insert token s =
     (if token \<in> tok_set s then (False, s)
      else (True, seen_evict (s\<lparr>tok_set := insert token (tok_set s),
                               tok_order := tok_order s @ [token]\<rparr>)))"

definition SEEN_TOKENS_CAPACITY :: usize where
  "SEEN_TOKENS_CAPACITY = 16384"

definition seen_ok :: "seen_tokens \<Rightarrow> bool" where
  "seen_ok s \<longleftrightarrow> tok_set s = set (tok_order s) \<and> distinct (tok_order s) \<and>
     length (tok_order s) \<le> unat (tok_capacity s) \<and> tok_capacity s \<noteq> 0"

definition seen_len :: "seen_tokens \<Rightarrow> nat" where
  "seen_len s = card (tok_set s)"

definition seen_is_empty :: "seen_tokens \<Rightarrow> bool" where
  "seen_is_empty s \<longleftrightarrow> tok_set s = {}"

lemma seen_new_ok: "seen_ok (seen_new n)"
  by (auto simp: seen_ok_def seen_new_def max_def)

lemma seen_evict_eq:
  "tok_set s = set (tok_order s) \<Longrightarrow> distinct (tok_order s) \<Longrightarrow>
     seen_evict s = s\<lparr>tok_order := last_n (unat (tok_capacity s)) (tok_order s),
                      tok_set := set (last_n (unat (tok_capacity s)) (tok_order s))\<rparr>"
proof (induction s rule: seen_evict.induct)
  case (1 s)
  show ?case
  proof (cases "length (tok_order s) > unat (tok_capacity s)")
    case True
    then obtain old rest where o: "tok_order s = old # rest" by (cases "tok_order s") auto
    have "tok_set s - {old} = set rest" using 1(2,3) o by auto
    with 1(1) [OF True o] 1(3) True o show ?thesis
      by (simp add: seen_evict.simps [of s] last_n_def Suc_diff_le less_Suc_eq_le)
  next
    case False
    with 1(2) show ?thesis by (simp add: seen_evict.simps [of s])
  qed
qed

lemma seen_insert_new:
  assumes "seen_ok s" "token \<notin> tok_set s"
  shows "seen_insert token s =
    (True, s\<lparr>tok_order := last_n (unat (tok_capacity s)) (tok_order s @ [token]),
             tok_set := set (last_n (unat (tok_capacity s)) (tok_order s @ [token]))\<rparr>)"
  using assms by (simp add: seen_insert_def seen_ok_def seen_evict_eq)

interpretation tokens: seen_window seen_insert tok_order "\<lambda>s. unat (tok_capacity s)" seen_ok
proof
  fix s :: seen_tokens and k :: u64
  assume ok: "seen_ok s"
  then have set_order: "tok_set s = set (tok_order s)" by (simp add: seen_ok_def)
  show "fst (seen_insert k s) \<longleftrightarrow> k \<notin> set (tok_order s)"
    by (simp add: seen_insert_def set_order)
  show "tok_order (snd (seen_insert k s)) = last_n (unat (tok_capacity s)) (tok_order s @ [k])"
    if "k \<notin> set (tok_order s)"
    using that seen_insert_new [OF ok] by (simp add: set_order)
  show "snd (seen_insert k s) = s" if "k \<in> set (tok_order s)"
    using that by (simp add: seen_insert_def set_order)
  show "unat (tok_capacity (snd (seen_insert k s))) = unat (tok_capacity s)"
    using seen_insert_new [OF ok, of k] by (cases "k \<in> tok_set s") (simp_all add: seen_insert_def)
  show "seen_ok (snd (seen_insert k s))"
  proof (cases "k \<in> tok_set s")
    case False
    with ok seen_insert_new [OF ok False] show ?thesis
      by (simp add: seen_ok_def distinct_last_n)
  qed (simp add: seen_insert_def ok)
  show "length (tok_order s) \<le> unat (tok_capacity s)" "0 < unat (tok_capacity s)"
    using ok by (simp_all add: seen_ok_def unat_gt_0)
qed

text \<open>
  C38: mesh requests are handled at most once. After a reply token has been accepted, the same token
  is refused as long as fewer than \<open>capacity\<close> further tokens have arrived, whatever they are; and the
  set never holds more than \<open>capacity\<close> tokens.
\<close>
theorem token_handled_once:
  assumes "seen_ok s" and "fst (seen_insert token s)" and "length later < unat (tok_capacity s)"
  shows "\<not> fst (seen_insert token (snd (run_accept seen_insert later (snd (seen_insert token s)))))
    \<and> seen_len (snd (run_accept seen_insert later (snd (seen_insert token s)))) \<le> unat (tok_capacity s)"
proof
  let ?s = "snd (run_accept seen_insert later (snd (seen_insert token s)))"
  show "\<not> fst (seen_insert token ?s)"
    by (rule tokens.replay_refused [OF assms])
  have "seen_ok (snd (seen_insert token s))" by (rule tokens.acc_ok [OF assms(1)])
  then have "length (tok_order ?s) \<le> unat (tok_capacity s)" "seen_ok ?s"
    using tokens.run_bounded [of "snd (seen_insert token s)" later]
      tokens.run_ok [of "snd (seen_insert token s)" later] tokens.acc_cap [OF assms(1), of token]
    by simp_all
  then show "seen_len ?s \<le> unat (tok_capacity s)"
    by (simp add: seen_len_def seen_ok_def distinct_card)
qed

lemma token_handled_once_witness:
  "\<not> fst (seen_insert 7 (snd (run_accept seen_insert [8, 7, 9] (snd (seen_insert 7 (seen_new 4))))))
    \<and> seen_len (snd (run_accept seen_insert [8, 7, 9] (snd (seen_insert 7 (seen_new 4)))))
        \<le> unat (tok_capacity (seen_new 4))"
  by (rule token_handled_once)
     (rule seen_new_ok, simp_all add: seen_insert_def seen_new_def max_def word_le_nat_alt)

end
