(* ===== verification/Edge_Limits.thy ===== *)
theory Edge_Limits
  imports Rust_Strings
begin

text \<open>
  Model of \<open>src/limits.rs\<close>: the size bounds on everything an edge accepts from a peer, and the two
  content-id checks, the strict one (64 lower-case hex characters) and the lenient first-line filter
  on an HTTP path segment.
\<close>

section \<open>Bounds\<close>

definition MAX_MESH_OBJECT_BYTES :: u64 where
  "MAX_MESH_OBJECT_BYTES = 8 * 1024 * 1024"

definition MAX_MESH_RANGE_BYTES :: u64 where
  "MAX_MESH_RANGE_BYTES = MAX_MESH_OBJECT_BYTES"

definition MAX_REQUEST_BYTES :: usize where
  "MAX_REQUEST_BYTES = 256 * 1024"

definition MAX_CAPS_HEX_LEN :: usize where
  "MAX_CAPS_HEX_LEN = 128 * 1024"

definition MAX_CID_LEN :: usize where
  "MAX_CID_LEN = 128"

section \<open>Content-id checks\<close>

definition is_ascii_digit :: "char \<Rightarrow> bool" where
  "is_ascii_digit b \<longleftrightarrow> CHR ''0'' \<le> b \<and> b \<le> CHR ''9''"

definition is_ascii_alphanumeric :: "char \<Rightarrow> bool" where
  "is_ascii_alphanumeric b \<longleftrightarrow>
     is_ascii_digit b \<or> CHR ''a'' \<le> b \<and> b \<le> CHR ''z'' \<or> CHR ''A'' \<le> b \<and> b \<le> CHR ''Z''"

definition is_valid_cid :: "string \<Rightarrow> bool" where
  "is_valid_cid cid \<longleftrightarrow>
     length cid = 64 \<and> list_all (\<lambda>b. is_ascii_digit b \<or> CHR ''a'' \<le> b \<and> b \<le> CHR ''f'') cid"

definition is_acceptable_cid_charset :: "string \<Rightarrow> bool" where
  "is_acceptable_cid_charset cid \<longleftrightarrow>
     cid \<noteq> [] \<and> length cid \<le> unat MAX_CID_LEN \<and>
     list_all (\<lambda>b. is_ascii_alphanumeric b \<or> b = CHR ''-'' \<or> b = CHR ''_'' \<or> b = CHR ''.'') cid"

text \<open>The strict check implies the lenient one.\<close>

lemma valid_imp_acceptable: "is_valid_cid cid \<Longrightarrow> is_acceptable_cid_charset cid"
proof -
  assume v: "is_valid_cid cid"
  have "b \<le> CHR ''f'' \<Longrightarrow> b \<le> CHR ''z''" for b :: char
    by (erule order_trans) (simp add: less_eq_char_def)
  with v show ?thesis
    by (auto simp: is_valid_cid_def is_acceptable_cid_charset_def MAX_CID_LEN_def
        is_ascii_alphanumeric_def list_all_iff)
qed

text \<open>
  A segment that passes the lenient check has no quote, slash, percent sign or white space, so it
  can be quoted into an \<open>ETag\<close>, a JSON string or a metrics label as it is.
\<close>

lemma acceptable_no_special:
  assumes "is_acceptable_cid_charset cid"
  shows "CHR ''/'' \<notin> set cid" "CHR ''%'' \<notin> set cid" "CHR 0x22 \<notin> set cid" "CHR 0x5C \<notin> set cid"
    "CHR '' '' \<notin> set cid" "CHR '','' \<notin> set cid"
  using assms
  by (auto simp: is_acceptable_cid_charset_def list_all_iff is_ascii_alphanumeric_def
      is_ascii_digit_def less_eq_char_def)

end
