(* ===== verification/Host.thy ===== *)
theory Host
  imports Cache_Trace Client Seen_Tokens Edge_Limits
begin

text \<open>
  Model of \<open>src/host.rs\<close>: the edge host that authorises and serves the \<open>cdn/*\<close> requests of the mesh.
  The host loop is one task, so an operation takes the edge state and the world and returns both.
  Parameters are the SDK, the JSON and hex codecs, the capability library (\<open>decode_chain\<close>,
  \<open>authorize\<close>) and the clock. A slice that would panic is \<open>None\<close>.
\<close>

section \<open>Decision\<close>

datatype decision = Allow | Deny

record public_set =
  pub_cids :: "string set"

definition public_new :: public_set where
  "public_new = \<lparr>pub_cids = {}\<rparr>"

definition allow_public :: "string \<Rightarrow> public_set \<Rightarrow> public_set" where
  "allow_public cid p = p\<lparr>pub_cids := insert cid (pub_cids p)\<rparr>"

definition revoke_public :: "string \<Rightarrow> public_set \<Rightarrow> public_set" where
  "revoke_public cid p = p\<lparr>pub_cids := pub_cids p - {cid}\<rparr>"

definition is_public :: "string \<Rightarrow> public_set \<Rightarrow> bool" where
  "is_public cid p \<longleftrightarrow> cid \<in> pub_cids p"

definition decide ::
  "string \<Rightarrow> string \<Rightarrow> public_set \<Rightarrow> (string \<Rightarrow> unit result) \<Rightarrow> decision \<times> string option" where
  "decide action cid public auth =
     (if action = ABILITY_READ \<and> is_public cid public then (Allow, None)
      else (case auth action of
              Inr _ \<Rightarrow> (Allow, None)
            | Inl reason \<Rightarrow> (Deny, Some reason)))"

section \<open>Edge state and its operations\<close>

record edge_state =
  es_cache :: edge_cache
  es_public :: public_set

definition edge_state_new :: "u64 \<Rightarrow> u64 \<Rightarrow> edge_state" where
  "edge_state_new max_b ttl = \<lparr>es_cache = cache_new max_b ttl, es_public = public_new\<rparr>"

definition object_total_size :: "'w sdk \<Rightarrow> string \<Rightarrow> 'w \<Rightarrow> u64 result \<times> 'w" where
  "object_total_size ce cid w =
     (case get_blob ce cid w of
        (Inl e, w1) \<Rightarrow> (Inl e, w1)
      | (Inr bs, w1) \<Rightarrow>
          (case parse_manifest ce bs of
             Inl e \<Rightarrow> (Inl (cid @ '' is not a v1 object manifest: '' @ e), w1)
           | Inr m \<Rightarrow>
               if \<not> is_v1 ce m then (Inl (''unsupported manifest kind: '' @ kind m), w1)
               else (Inr (total_size m), w1)))"

definition over_budget :: "string \<Rightarrow> u64 \<Rightarrow> string" where
  "over_budget cid n =
     ''object '' @ cid @ '' ('' @ show_u64 n @ '' bytes) exceeds this edge'' @ [CHR 0x27] @ ''s cache budget''"

definition cache_object ::
  "'w sdk \<Rightarrow> string \<Rightarrow> u64 \<Rightarrow> u64 \<Rightarrow> edge_cache \<Rightarrow> 'w \<Rightarrow> u64 result \<times> edge_cache \<times> 'w" where
  "cache_object ce cid ttl_secs now c w =
     (case object_total_size ce cid w of
        (Inl e, w1) \<Rightarrow> (Inl e, c, w1)
      | (Inr tot, w1) \<Rightarrow>
          if tot > max_bytes c then (Inl (over_budget cid tot), c, w1)
          else (case get_object ce cid w1 of
                  (Inl e, w2) \<Rightarrow> (Inl e, c, w2)
                | (Inr bs, w2) \<Rightarrow>
                    (let len = len64 bs;
                         ttl = (if ttl_secs = 0 then default_ttl_secs c else ttl_secs);
                         (ok, c1) = insert_with_ttl cid bs ttl now c
                     in if \<not> ok then (Inl (over_budget cid len), c1, w2) else (Inr len, c1, w2))))"

definition read_object ::
  "'w sdk \<Rightarrow> string \<Rightarrow> u64 \<Rightarrow> edge_cache \<Rightarrow> 'w \<Rightarrow> (bytes \<times> bool) result \<times> edge_cache \<times> 'w" where
  "read_object ce cid now c w =
     (case cache_get cid now c of
        (Some bs, c1) \<Rightarrow> (Inr (bs, True), c1, w)
      | (None, c1) \<Rightarrow>
          (case object_total_size ce cid w of
             (Inl e, w1) \<Rightarrow> (Inl e, c1, w1)
           | (Inr tot, w1) \<Rightarrow>
               if tot > MAX_MESH_OBJECT_BYTES
               then (Inl (''object '' @ cid @ '' ('' @ show_u64 tot @ '' bytes) exceeds the mesh read limit (''
                       @ show_u64 MAX_MESH_OBJECT_BYTES @ '' bytes); fetch by range or over HTTP''), c1, w1)
               else (case get_object ce cid w1 of
                       (Inl e, w2) \<Rightarrow> (Inl e, c1, w2)
                     | (Inr bs, w2) \<Rightarrow> (Inr (bs, False), snd (cache_insert cid bs now c1), w2))))"

definition fetch_chunks ::
  "'w sdk \<Rightarrow> manifest \<Rightarrow> chunk_span \<Rightarrow> 'w \<Rightarrow> (bytes result \<times> 'w) option" where
  "fetch_chunks ce m sp w =
     (if chunks m = [] then Some (Inr [], w)
      else (let last = min (unat (last_chunk sp)) (length (chunks m) - 1);
                first = min (unat (first_chunk sp)) last
            in map_option (\<lambda>cids. verified_chunks (cid_of ce) (get_blob ce) cids [] w)
                 (slice_incl (chunks m) first last)))"

definition cold_range ::
  "'w sdk \<Rightarrow> string \<Rightarrow> byte_range \<Rightarrow> 'w \<Rightarrow> (bytes result \<times> 'w) option" where
  "cold_range ce cid rng w =
     (case get_blob ce cid w of
        (Inl e, w1) \<Rightarrow> Some (Inl e, w1)
      | (Inr mb, w1) \<Rightarrow>
          (case parse_manifest ce mb of
             Inl e \<Rightarrow> Some (Inl (cid @ '' is not a v1 object manifest: '' @ e), w1)
           | Inr m \<Rightarrow>
               if \<not> is_v1 ce m then Some (Inl (''unsupported manifest kind: '' @ kind m), w1)
               else (case chunks_for_range m rng of
                  None \<Rightarrow> Some (Inl (''manifest '' @ cid @ '' has zero chunk_size''), w1)
                | Some sp \<Rightarrow>
                    (let covering_chunks = sat_add (sat_sub (last_chunk sp) (first_chunk sp)) 1;
                         covering_bytes = sat_mul covering_chunks (chunk_size m)
                     in if covering_bytes > MAX_MESH_RANGE_BYTES
                        then Some (Inl (''range covers '' @ show_u64 covering_bytes
                               @ '' bytes, exceeding the mesh range limit (''
                               @ show_u64 MAX_MESH_RANGE_BYTES @ '' bytes)''), w1)
                        else (case fetch_chunks ce m sp w1 of
                                None \<Rightarrow> None
                              | Some (Inl e, w2) \<Rightarrow> Some (Inl e, w2)
                              | Some (Inr joined, w2) \<Rightarrow> Some (slice_span joined sp, w2))))))"

definition read_range ::
  "'w sdk \<Rightarrow> string \<Rightarrow> byte_range \<Rightarrow> u64 \<Rightarrow> edge_cache \<Rightarrow> 'w
     \<Rightarrow> ((bytes \<times> bool) result \<times> edge_cache \<times> 'w) option" where
  "read_range ce cid rng now c w =
     (let (hot, c1) = cache_get cid now c;
          cold = map_option (\<lambda>(r, w1). (map_sum id (\<lambda>bs. (bs, False)) r, c1, w1)) (cold_range ce cid rng w)
      in case hot of
           None \<Rightarrow> cold
         | Some bs \<Rightarrow>
             if unat (br_end rng) < length bs
             then map_option (\<lambda>part. (Inr (part, True), c1, w))
                    (slice_incl bs (unat (br_start rng)) (unat (br_end rng)))
             else cold)"

section \<open>Serving a read\<close>

definition whole_resp :: "(bytes \<Rightarrow> string) \<Rightarrow> (bytes \<times> bool) result \<Rightarrow> read_resp" where
  "whole_resp enc res =
     (case res of
        Inl e \<Rightarrow> read_resp_default\<lparr>rd_reason := Some (''not retrievable: '' @ e)\<rparr>
      | Inr (bs, hit) \<Rightarrow>
          read_resp_default\<lparr>rd_ok := True, rd_bytes_hex := enc bs, rd_total_len := len64 bs,
            rd_partial := False, rd_cache_hit := hit\<rparr>)"

definition part_resp :: "(bytes \<Rightarrow> string) \<Rightarrow> u64 \<Rightarrow> byte_range \<Rightarrow> (bytes \<times> bool) result \<Rightarrow> read_resp" where
  "part_resp enc tot r res =
     (case res of
        Inr (bs, hit) \<Rightarrow>
          read_resp_default\<lparr>rd_ok := True, rd_bytes_hex := enc bs, rd_total_len := tot,
            rd_partial := True, rd_range_start := br_start r, rd_range_end := br_end r,
            rd_cache_hit := hit\<rparr>
      | Inl e \<Rightarrow>
          read_resp_default\<lparr>rd_total_len := tot, rd_reason := Some (''range read failed: '' @ e)\<rparr>)"

definition do_read ::
  "'w sdk \<Rightarrow> (bytes \<Rightarrow> string) \<Rightarrow> read_req \<Rightarrow> u64 \<Rightarrow> edge_cache \<Rightarrow> 'w
     \<Rightarrow> (read_resp \<times> edge_cache \<times> 'w) option" where
  "do_read ce enc req now c w =
     (let cid = rdq_cid req;
          whole = (\<lambda>w. Some (map_prod (whole_resp enc) id (read_object ce cid now c w)))
      in case rdq_range req of
           None \<Rightarrow> whole w
         | Some hdr \<Rightarrow>
             (case object_total_size ce cid w of
                (Inl e, w1) \<Rightarrow>
                  Some (read_resp_default\<lparr>rd_reason := Some (''not retrievable: '' @ e)\<rparr>, c, w1)
              | (Inr tot, w1) \<Rightarrow>
                  (case parse_range (Some hdr) tot of
                     Full \<Rightarrow> whole w1
                   | Partial r \<Rightarrow>
                       map_option (map_prod (part_resp enc tot r) id) (read_range ce cid r now c w1)
                   | Unsatisfiable \<Rightarrow>
                       Some (read_resp_default\<lparr>rd_total_len := tot, rd_reason :=
                         Some (''range not satisfiable for '' @ show_u64 tot @ '' bytes'')\<rparr>, c, w1))))"

section \<open>Handling a request\<close>

definition ability_for :: "string \<Rightarrow> string option" where
  "ability_for topic =
     (if topic = TOPIC_CACHE then Some ABILITY_CACHE
      else if topic = TOPIC_READ then Some ABILITY_READ
      else if topic = TOPIC_PURGE then Some ABILITY_PURGE
      else if topic = TOPIC_STATUS then Some ABILITY_READ
      else None)"

text \<open>The JSON and hex codecs of the host; \<open>head_of\<close> extracts the \<open>caps\<close> and \<open>cid\<close> fields.\<close>

record codecs =
  hex_enc :: "bytes \<Rightarrow> string"
  hex_dec :: "string \<Rightarrow> bytes option"
  head_of :: "bytes \<Rightarrow> (string \<times> string) option"
  cache_req_of :: "bytes \<Rightarrow> cache_req result"
  read_req_of :: "bytes \<Rightarrow> read_req result"
  purge_req_of :: "bytes \<Rightarrow> purge_req result"
  status_req_of :: "bytes \<Rightarrow> status_req result"
  cache_resp_json :: "cache_resp \<Rightarrow> bytes result"
  read_resp_json :: "read_resp \<Rightarrow> bytes result"
  purge_resp_json :: "purge_resp \<Rightarrow> bytes result"
  status_resp_json :: "status_resp \<Rightarrow> bytes result"
  failure_json :: "string \<Rightarrow> bytes"

text \<open>The capability library: parsing a chain and authorising an action with it.\<close>

type_synonym revocations = "(node_id \<times> u64) set"

record 'ch iam =
  decode_chain :: "string \<Rightarrow> 'ch option"
  authorize :: "node_id \<Rightarrow> node_id list \<Rightarrow> u64 \<Rightarrow> node_id \<Rightarrow> string \<Rightarrow> 'ch \<Rightarrow> revocations \<Rightarrow> unit result"

record host_config =
  hc_edge_id :: node_id
  hc_roots :: "node_id list"
  hc_revoked :: revocations

definition authorize_fn ::
  "'ch iam \<Rightarrow> host_config \<Rightarrow> u64 \<Rightarrow> string \<Rightarrow> node_id \<Rightarrow> string \<Rightarrow> unit result" where
  "authorize_fn iam cfg now caps from action =
     (case decode_chain iam caps of
        None \<Rightarrow> Inl ''bad capability''
      | Some chain \<Rightarrow>
          authorize iam (hc_edge_id cfg) (hc_roots cfg) now from action chain (hc_revoked cfg))"

definition caps_and_cid :: "codecs \<Rightarrow> bytes \<Rightarrow> (string \<times> string) result" where
  "caps_and_cid cod payload =
     (case head_of cod payload of None \<Rightarrow> Inl ''payload missing cid'' | Some h \<Rightarrow> Inr h)"

text \<open>
  The first half of \<open>handle_inner\<close>, up to the decision: bound and decode the payload, check the
  sender, the topic, the content id and the chain size, and authorise. It yields the payload.
\<close>

definition admit ::
  "codecs \<Rightarrow> 'ch iam \<Rightarrow> host_config \<Rightarrow> public_set \<Rightarrow> u64 \<Rightarrow> string \<Rightarrow> string \<Rightarrow> string \<Rightarrow> bytes result" where
  "admit cod iam cfg pub now topic from_hex payload_hex =
     (if length payload_hex > unat (sat_mul MAX_REQUEST_BYTES 2) then Inl ''request payload too large''
      else (case hex_dec cod payload_hex of
        None \<Rightarrow> Inl ''payload hex''
      | Some payload \<Rightarrow>
      if length payload > unat MAX_REQUEST_BYTES then Inl ''request payload too large''
      else (case Option.bind (hex_dec cod from_hex) (to_array 32) of
        None \<Rightarrow> Inl ''bad sender id''
      | Some from \<Rightarrow>
      (case ability_for topic of
        None \<Rightarrow> Inl (''unknown cdn topic '' @ [CHR 0x27] @ topic @ [CHR 0x27])
      | Some ability \<Rightarrow>
      (case caps_and_cid cod payload of
        Inl e \<Rightarrow> Inl e
      | Inr (caps, cid) \<Rightarrow>
      if \<not> is_valid_cid cid then Inl (denied ''malformed cid'')
      else if length caps > unat MAX_CAPS_HEX_LEN then Inl (denied ''capability chain too large'')
      else
        (let public = \<lparr>pub_cids = (if is_public cid pub then {cid} else {})\<rparr>
         in case decide ability cid public (authorize_fn iam cfg now caps from) of
              (Deny, reason) \<Rightarrow>
                Inl (denied (case reason of None \<Rightarrow> ''unauthorized'' | Some r \<Rightarrow> r))
            | (Allow, _) \<Rightarrow> Inr payload))))))"

text \<open>The second half of \<open>handle_inner\<close>: parse the action body, act, serialise the reply.\<close>

definition act_cache ::
  "'w sdk \<Rightarrow> cache_req \<Rightarrow> u64 \<Rightarrow> edge_cache \<Rightarrow> 'w \<Rightarrow> cache_resp \<times> edge_cache \<times> 'w" where
  "act_cache ce req now c w =
     (case cache_object ce (cq_cid req) (cq_ttl_secs req) now c w of
        (Inr len, c1, w1) \<Rightarrow>
          (let (_, w2) = advertise_service ce (service_for (cq_cid req)) w1;
               ttl = (if cq_ttl_secs req = 0 then default_ttl_secs c1 else cq_ttl_secs req)
           in (\<lparr>cr_cached = True, cr_stored_bytes = len, cr_ttl_secs = ttl, cr_reason = None\<rparr>, c1, w2))
      | (Inl e, c1, w1) \<Rightarrow>
          (\<lparr>cr_cached = False, cr_stored_bytes = 0, cr_ttl_secs = 0,
            cr_reason = Some (''fetch failed: '' @ e)\<rparr>, c1, w1))"

definition act_status :: "status_req \<Rightarrow> u64 \<Rightarrow> edge_cache \<Rightarrow> status_resp" where
  "act_status req now c =
     (let held = contains_fresh (sq_cid req) now c;
          bs = (if held then (case byte_len (sq_cid req) c of None \<Rightarrow> 0 | Some n \<Rightarrow> n) else 0);
          ttl = (case ttl_remaining (sq_cid req) now c of
                   None \<Rightarrow> 0 | Some t \<Rightarrow> if t = u64_MAX then 0 else t)
      in \<lparr>sr_held = held, sr_bytes = bs, sr_ttl_remaining = ttl\<rparr>)"

definition dispatch ::
  "'w sdk \<Rightarrow> codecs \<Rightarrow> u64 \<Rightarrow> string \<Rightarrow> bytes \<Rightarrow> edge_cache \<Rightarrow> 'w
     \<Rightarrow> (bytes result \<times> edge_cache \<times> 'w) option" where
  "dispatch ce cod now topic payload c w =
     (if topic = TOPIC_CACHE then
        (case cache_req_of cod payload of
           Inl e \<Rightarrow> Some (Inl e, c, w)
         | Inr req \<Rightarrow>
             (let (resp, c1, w1) = act_cache ce req now c w
              in Some (cache_resp_json cod resp, c1, w1)))
      else if topic = TOPIC_READ then
        (case read_req_of cod payload of
           Inl e \<Rightarrow> Some (Inl e, c, w)
         | Inr req \<Rightarrow>
             map_option (\<lambda>(resp, c1, w1). (read_resp_json cod resp, c1, w1))
               (do_read ce (hex_enc cod) req now c w))
      else if topic = TOPIC_PURGE then
        (case purge_req_of cod payload of
           Inl e \<Rightarrow> Some (Inl e, c, w)
         | Inr req \<Rightarrow>
             (let (purged, c1) = purge (pq_cid req) c
              in Some (purge_resp_json cod \<lparr>pr_purged = purged, pr_reason = None\<rparr>, c1, w)))
      else if topic = TOPIC_STATUS then
        (case status_req_of cod payload of
           Inl e \<Rightarrow> Some (Inl e, c, w)
         | Inr req \<Rightarrow> Some (status_resp_json cod (act_status req now c), c, w))
      else None)"

definition handle_inner ::
  "'w sdk \<Rightarrow> codecs \<Rightarrow> 'ch iam \<Rightarrow> host_config \<Rightarrow> u64 \<Rightarrow> u64 \<Rightarrow> edge_state
     \<Rightarrow> string \<Rightarrow> string \<Rightarrow> string \<Rightarrow> 'w \<Rightarrow> (bytes result \<times> edge_state \<times> 'w) option" where
  "handle_inner ce cod iam cfg now_auth now st topic from_hex payload_hex w =
     (case admit cod iam cfg (es_public st) now_auth topic from_hex payload_hex of
        Inl e \<Rightarrow> Some (Inl e, st, w)
      | Inr payload \<Rightarrow>
          map_option (\<lambda>(r, c1, w1). (r, st\<lparr>es_cache := c1\<rparr>, w1))
            (dispatch ce cod now topic payload (es_cache st) w))"

definition handle ::
  "'w sdk \<Rightarrow> codecs \<Rightarrow> 'ch iam \<Rightarrow> host_config \<Rightarrow> u64 \<Rightarrow> u64 \<Rightarrow> edge_state
     \<Rightarrow> string \<Rightarrow> string \<Rightarrow> string \<Rightarrow> 'w \<Rightarrow> (bytes \<times> edge_state \<times> 'w) option" where
  "handle ce cod iam cfg now_auth now st topic from_hex payload_hex w =
     map_option (\<lambda>(r, st1, w1).
         (case r of Inr bs \<Rightarrow> bs | Inl e \<Rightarrow> failure_json cod e, st1, w1))
       (handle_inner ce cod iam cfg now_auth now st topic from_hex payload_hex w)"

section \<open>The host loop\<close>

record mesh_message =
  mm_token :: "u64 option"
  mm_topic :: string
  mm_from :: string
  mm_payload :: string

text \<open>
  One message of the inbox: skipped when it has no reply token, another topic, or a token already
  seen; otherwise handled and answered. The reply, if any, is part of the result.
\<close>

definition host_message ::
  "'w sdk \<Rightarrow> codecs \<Rightarrow> 'ch iam \<Rightarrow> host_config \<Rightarrow> u64 \<Rightarrow> u64 \<Rightarrow> mesh_message
     \<Rightarrow> seen_tokens \<times> edge_state \<times> 'w \<Rightarrow> ((u64 \<times> bytes) option \<times> seen_tokens \<times> edge_state \<times> 'w) option" where
  "host_message ce cod iam cfg now_auth now m s =
     (case s of (seen, st, w) \<Rightarrow>
     (case mm_token m of
        None \<Rightarrow> Some (None, s)
      | Some token \<Rightarrow>
          if strip_prefix TOPIC_PREFIX (mm_topic m) = None then Some (None, s)
          else (case seen_insert token seen of
                  (False, seen1) \<Rightarrow> Some (None, seen1, st, w)
                | (True, seen1) \<Rightarrow>
                    map_option (\<lambda>(reply, st1, w1). (Some (token, reply), seen1, st1, w1))
                      (handle ce cod iam cfg now_auth now st (mm_topic m) (mm_from m) (mm_payload m) w))))"

text \<open>The periodic part of the loop: the revocations a node lists are decoded, malformed ones dropped.\<close>

definition parse_revoked :: "(string \<Rightarrow> bytes option) \<Rightarrow> (string \<times> u64) list \<Rightarrow> revocations" where
  "parse_revoked dec pairs =
     set (List.map_filter (\<lambda>(issuer, nonce).
       map_option (\<lambda>i. (i, nonce)) (Option.bind (dec issuer) (to_array 32))) pairs)"

fun advertise_all :: "'w sdk \<Rightarrow> string list \<Rightarrow> 'w \<Rightarrow> 'w" where
  "advertise_all ce [] w = w"
| "advertise_all ce (service # services) w =
     advertise_all ce services (snd (advertise_service ce service w))"

text \<open>
  Every twentieth round: refresh the revocations, advertise the edge and the public ids, sweep the
  cache. \<open>order\<close> is the order in which the hash set of public ids is iterated, \<open>revoked_now\<close> the answer
  of the node.
\<close>

definition host_tick ::
  "'w sdk \<Rightarrow> (string \<Rightarrow> bytes option) \<Rightarrow> (string \<times> u64) list result \<Rightarrow> u64 \<Rightarrow> string list \<Rightarrow> u32
     \<Rightarrow> host_config \<times> edge_state \<times> 'w \<Rightarrow> host_config \<times> edge_state \<times> 'w" where
  "host_tick ce dec revoked_now now order ticks s =
     (case s of (cfg, st, w) \<Rightarrow>
       if ticks mod 20 = 0 then
         (case revoked_now of Inl e \<Rightarrow> cfg | Inr pairs \<Rightarrow> cfg\<lparr>hc_revoked := parse_revoked dec pairs\<rparr>,
          st\<lparr>es_cache := snd (sweep_expired now (es_cache st))\<rparr>,
          advertise_all ce (SERVICE_EDGE # map service_for order) w)
       else (cfg, st, w))"

text \<open>Messages in the order the loop sees them, each with the two clock readings of its handler.\<close>

fun host_run ::
  "'w sdk \<Rightarrow> codecs \<Rightarrow> 'ch iam \<Rightarrow> host_config \<Rightarrow> (u64 \<times> u64 \<times> mesh_message) list
     \<Rightarrow> seen_tokens \<times> edge_state \<times> 'w
     \<Rightarrow> ((u64 \<times> bytes) list \<times> seen_tokens \<times> edge_state \<times> 'w) option" where
  "host_run ce cod iam cfg [] s = Some ([], s)"
| "host_run ce cod iam cfg ((t1, t2, m) # ms) s =
     (case host_message ce cod iam cfg t1 t2 m s of
        None \<Rightarrow> None
      | Some (reply, s1) \<Rightarrow>
          map_option (\<lambda>(rs, s2). (case reply of None \<Rightarrow> rs | Some r \<Rightarrow> r # rs, s2))
            (host_run ce cod iam cfg ms s1))"

text \<open>
  The loop of \<open>serve\<close>: what each round receives from outside is one record, and \<open>ticks\<close> wraps. The
  result is the replies sent and the state after the rounds.
\<close>

record round_input =
  ri_revoked :: "(string \<times> u64) list result"
  ri_now :: u64
  ri_order :: "string list"
  ri_inbox :: "(u64 \<times> u64 \<times> mesh_message) list"

fun host_loop ::
  "'w sdk \<Rightarrow> codecs \<Rightarrow> 'ch iam \<Rightarrow> round_input list \<Rightarrow> u32 \<Rightarrow> host_config \<Rightarrow> seen_tokens \<times> edge_state \<times> 'w
     \<Rightarrow> ((u64 \<times> bytes) list \<times> seen_tokens \<times> edge_state \<times> 'w) option" where
  "host_loop ce cod iam [] ticks cfg s = Some ([], s)"
| "host_loop ce cod iam (x # xs) ticks cfg (seen, st, w) =
     (case host_tick ce (hex_dec cod) (ri_revoked x) (ri_now x) (ri_order x) ticks (cfg, st, w) of
        (cfg1, st1, w1) \<Rightarrow>
          (case host_run ce cod iam cfg1 (ri_inbox x) (seen, st1, w1) of
             None \<Rightarrow> None
           | Some (rs, s2) \<Rightarrow>
               map_option (\<lambda>(rs', s3). (rs @ rs', s3)) (host_loop ce cod iam xs (ticks + 1) cfg1 s2)))"

text \<open>\<open>serve\<close> up to the loop: the node's own id, the public ids, the first advertisement.\<close>

definition host_serve ::
  "'w sdk \<Rightarrow> codecs \<Rightarrow> 'ch iam \<Rightarrow> string result \<Rightarrow> node_id list \<Rightarrow> u64 \<Rightarrow> u64 \<Rightarrow> string list \<Rightarrow> round_input list \<Rightarrow> 'w
     \<Rightarrow> (string + ((u64 \<times> bytes) list \<times> seen_tokens \<times> edge_state \<times> 'w)) option" where
  "host_serve ce cod iam edge_hex roots max_b ttl public_cids rounds w =
     (case edge_hex of
        Inl e \<Rightarrow> Some (Inl e)
      | Inr h \<Rightarrow>
          (case Option.bind (hex_dec cod h) (to_array 32) of
             None \<Rightarrow> Some (Inl ''node returned a malformed node id'')
           | Some edge_id \<Rightarrow>
               (let st = edge_state_new max_b ttl;
                    st1 = st\<lparr>es_public := fold allow_public public_cids (es_public st)\<rparr>;
                    w1 = snd (advertise_service ce SERVICE_EDGE w);
                    cfg = \<lparr>hc_edge_id = edge_id, hc_roots = roots, hc_revoked = {}\<rparr>
                in map_option Inr
                     (host_loop ce cod iam rounds 0 cfg (seen_new SEEN_TOKENS_CAPACITY, st1, w1)))))"

section \<open>Authorisation\<close>

text \<open>
  What admits a request: a sender id of 32 bytes, a well-formed content id, and either a public read
  or a chain the capability library accepts for the sender and for the ability of the topic.
\<close>

definition admitted ::
  "codecs \<Rightarrow> 'ch iam \<Rightarrow> host_config \<Rightarrow> public_set \<Rightarrow> u64 \<Rightarrow> string \<Rightarrow> string \<Rightarrow> bytes \<Rightarrow> bool" where
  "admitted cod iam cfg pub now topic from_hex payload \<longleftrightarrow>
     (\<exists>from ability caps cid. hex_dec cod from_hex = Some from \<and> length from = 32 \<and>
        ability_for topic = Some ability \<and> head_of cod payload = Some (caps, cid) \<and> is_valid_cid cid \<and>
        (ability = ABILITY_READ \<and> cid \<in> pub_cids pub \<or>
         (\<exists>chain. decode_chain iam caps = Some chain \<and>
            authorize iam (hc_edge_id cfg) (hc_roots cfg) now from ability chain (hc_revoked cfg) = Inr ())))"

lemma decide_Allow:
  "fst (decide ability cid public auth) = Allow \<longleftrightarrow>
     ability = ABILITY_READ \<and> is_public cid public \<or> auth ability = Inr ()"
  by (auto simp: decide_def split: sum.splits)

lemma request_bounds: "unat MAX_REQUEST_BYTES = 262144" "unat (sat_mul MAX_REQUEST_BYTES 2) = 524288"
  by (simp_all add: unat_sat_mul MAX_REQUEST_BYTES_def)

lemma admit_sound:
  assumes "admit cod iam cfg pub now topic from_hex payload_hex = Inr payload"
  shows "hex_dec cod payload_hex = Some payload \<and> length payload \<le> 262144 \<and>
     length payload_hex \<le> 524288 \<and> admitted cod iam cfg pub now topic from_hex payload"
proof -
  obtain who ability caps cid where p: "length payload_hex \<le> 524288" "hex_dec cod payload_hex = Some payload"
    "length payload \<le> 262144" "hex_dec cod from_hex = Some who" "length who = 32"
    "ability_for topic = Some ability" "head_of cod payload = Some (caps, cid)" "is_valid_cid cid"
    and d: "fst (decide ability cid \<lparr>pub_cids = if is_public cid pub then {cid} else {}\<rparr>
              (authorize_fn iam cfg now caps who)) = Allow"
    using assms
    by (auto simp: admit_def caps_and_cid_def request_bounds not_less bind_eq_Some_conv
        split: if_splits option.splits sum.splits prod.splits decision.splits)
  from d have "ability = ABILITY_READ \<and> cid \<in> pub_cids pub \<or>
      (\<exists>chain. decode_chain iam caps = Some chain \<and>
         authorize iam (hc_edge_id cfg) (hc_roots cfg) now who ability chain (hc_revoked cfg) = Inr ())"
    unfolding decide_Allow
    by (auto simp: is_public_def authorize_fn_def split: option.splits if_splits)
  with p show ?thesis unfolding admitted_def by blast
qed

text \<open>
  C8: the mesh host acts for authorised requests only. A request that is not a public read, and whose
  chain the capability library does not accept for the sender and the ability of its topic, or whose
  content id is malformed, leaves the edge state and the world untouched and is answered with an
  error; so does one whose payload exceeds the size limits. In particular a public content id opens
  reads and status probes, never \<open>cdn/cache\<close> or \<open>cdn/purge\<close>.
\<close>
theorem unauthorised_request_has_no_effect:
  assumes "\<forall>payload. hex_dec cod payload_hex = Some payload \<longrightarrow>
    524288 < length payload_hex \<or> 262144 < length payload \<or>
    \<not> admitted cod iam cfg (es_public st) now_auth topic from_hex payload"
  shows "\<exists>reason. handle_inner ce cod iam cfg now_auth now st topic from_hex payload_hex w = Some (Inl reason, st, w)
    \<and> handle ce cod iam cfg now_auth now st topic from_hex payload_hex w = Some (failure_json cod reason, st, w)"
proof (cases "admit cod iam cfg (es_public st) now_auth topic from_hex payload_hex")
  case (Inl e)
  then show ?thesis by (simp add: handle_def handle_inner_def)
next
  case (Inr payload)
  from admit_sound [OF this] assms show ?thesis by fastforce
qed

section \<open>Integrity of the cache\<close>

text \<open>
  \<open>obj cid\<close> is the object published under a content id. The SDK's \<open>get_object\<close> verifies what it
  returns; the cache then holds, under each id, that object or nothing.
\<close>

definition verifies_objects :: "'w sdk \<Rightarrow> (string \<Rightarrow> bytes) \<Rightarrow> bool" where
  "verifies_objects ce obj \<longleftrightarrow> (\<forall>cid w bs w'. get_object ce cid w = (Inr bs, w') \<longrightarrow> bs = obj cid)"

abbreviation honest :: "(string \<Rightarrow> bytes) \<Rightarrow> edge_cache \<Rightarrow> bool" where
  "honest obj c \<equiv> cache.good (\<lambda>cid bs. bs = obj cid) c"

lemma honest_new: "honest obj (cache_new m ttl)"
  by (rule cache.goodI) (simp_all add: cache_ok_def cache_new_def content_def hm_get_def)

lemma fetched_object: "verifies_objects ce obj \<Longrightarrow> get_object ce cid w = (Inr bs, w') \<Longrightarrow> bs = obj cid"
  unfolding verifies_objects_def by blast

lemma honest_insert:
  "honest obj c \<Longrightarrow> bs = obj cid \<Longrightarrow> honest obj (snd (insert_with_ttl cid bs ttl now c))"
  using cache.good_store [where P = "\<lambda>cid bs. bs = obj cid"] by (metis prod.collapse)

lemma honest_cache_object:
  assumes "verifies_objects ce obj" "honest obj c" "cache_object ce cid ttl now c w = (r, c1, w1)"
  shows "honest obj c1"
  using assms(2,3) honest_insert [OF assms(2) fetched_object [OF assms(1)]]
  by (auto simp: cache_object_def Let_def case_prod_beta split: prod.splits sum.splits if_splits)

lemma honest_read_object:
  assumes "verifies_objects ce obj" "honest obj c" "read_object ce cid now c w = (r, c1, w1)"
  shows "honest obj c1 \<and> (\<forall>bs hit. r = Inr (bs, hit) \<longrightarrow> bs = obj cid)"
proof -
  obtain hot c' where get: "cache_get cid now c = (hot, c')" by (cases "cache_get cid now c")
  have c': "honest obj c'" using cache.good_after_lookup [OF assms(2) get] .
  show ?thesis
  proof (cases hot)
    case (Some bs)
    with get cache.good_lookup [OF assms(2), of cid now bs c'] c' assms(3) show ?thesis
      by (auto simp: read_object_def)
  next
    case None
    with get c' assms(3) show ?thesis
      using fetched_object [OF assms(1)] honest_insert [OF c' fetched_object [OF assms(1)]]
      by (auto simp: read_object_def cache_insert_def split: prod.splits sum.splits if_splits)
  qed
qed

section \<open>Range reads\<close>

lemma fetch_chunks_in_range:
  assumes "first_chunk sp \<le> last_chunk sp" "unat (last_chunk sp) < length (chunks m)"
  shows "fetch_chunks ce m sp w =
    Some (verified_chunks (cid_of ce) (get_blob ce)
      (take (Suc (unat (last_chunk sp)) - unat (first_chunk sp))
        (drop (unat (first_chunk sp)) (chunks m))) [] w)"
proof -
  have "min (unat (last_chunk sp)) (length (chunks m) - 1) = unat (last_chunk sp)"
    "min (unat (first_chunk sp)) (unat (last_chunk sp)) = unat (first_chunk sp)"
    using assms by (simp_all add: word_le_nat_alt)
  moreover have "slice_incl (chunks m) (unat (first_chunk sp)) (unat (last_chunk sp))
      = Some (take (Suc (unat (last_chunk sp)) - unat (first_chunk sp))
                (drop (unat (first_chunk sp)) (chunks m)))"
    using assms by (intro slice_incl_Some) (simp_all add: word_le_nat_alt)
  ultimately show ?thesis
    using assms(2) by (auto simp: fetch_chunks_def Let_def)
qed

text \<open>Clamping both indices keeps the slice in bounds for every manifest and span.\<close>

lemma fetch_chunks_returns: "fetch_chunks ce m sp w \<noteq> None"
proof (cases "chunks m = []")
  case False
  define l where "l = min (unat (last_chunk sp)) (length (chunks m) - 1)"
  have "l < length (chunks m)"
    using False by (simp add: l_def min_less_iff_disj)
  then have "slice_incl (chunks m) (min (unat (first_chunk sp)) l) l
      = Some (take (Suc l - min (unat (first_chunk sp)) l) (drop (min (unat (first_chunk sp)) l) (chunks m)))"
    by (intro slice_incl_Some) simp_all
  with False show ?thesis
    unfolding fetch_chunks_def Let_def l_def [symmetric] by simp
qed (simp add: fetch_chunks_def)

interpretation host: verified_fetch "cid_of ce" "fetch_chunks ce" for ce :: "'w sdk"
proof
  fix m :: manifest and sp :: chunk_span and w w' :: 'w and out :: bytes
  assume a: "first_chunk sp \<le> last_chunk sp" "unat (last_chunk sp) < length (chunks m)"
  show "fetch_chunks ce m sp w \<noteq> None" by (rule fetch_chunks_returns)
  assume "fetch_chunks ce m sp w = Some (Inr out, w')"
  then show "\<exists>parts. out = concat parts \<and> map (cid_of ce) parts =
      take (Suc (unat (last_chunk sp)) - unat (first_chunk sp))
        (drop (unat (first_chunk sp)) (chunks m))"
    using verified_chunks_Inr [of "cid_of ce" "get_blob ce" _ "[]" w out w']
    by (simp add: fetch_chunks_in_range [OF a])
qed

text \<open>The manifest the store returns for a content id describes the object published under it.\<close>

definition true_manifests :: "'w sdk \<Rightarrow> (string \<Rightarrow> bytes) \<Rightarrow> bool" where
  "true_manifests ce obj \<longleftrightarrow>
     (\<forall>cid w mb w' m. get_blob ce cid w = (Inr mb, w') \<longrightarrow> parse_manifest ce mb = Inr m \<longrightarrow>
        is_v1 ce m \<longrightarrow> describes (cid_of ce) m (obj cid) \<and> collision_free (cid_of ce) m (obj cid))"

lemma true_manifest:
  "true_manifests ce obj \<Longrightarrow> get_blob ce cid w = (Inr mb, w') \<Longrightarrow> parse_manifest ce mb = Inr m \<Longrightarrow>
     is_v1 ce m \<Longrightarrow> describes (cid_of ce) m (obj cid) \<and> collision_free (cid_of ce) m (obj cid)"
  unfolding true_manifests_def by blast

lemma total_size_true:
  "true_manifests ce obj \<Longrightarrow> object_total_size ce cid w = (Inr tot, w1) \<Longrightarrow>
     tot = len64 (obj cid) \<and> vec_ok (obj cid)"
  by (auto simp: object_total_size_def describes_def dest: true_manifest
      split: prod.splits sum.splits if_splits)

lemma cold_range_returns:
  fixes ce :: "'w sdk"
  shows "cold_range ce cid rng w \<noteq> None"
proof -
  have "fetch_chunks ce m sp w = None \<Longrightarrow> False" for m sp w
    using fetch_chunks_returns [of ce m sp w] by simp
  then show ?thesis
    unfolding cold_range_def Let_def
    by (auto simp del: not_None_eq split: prod.splits sum.splits option.splits)
qed

lemma cover_length:
  fixes s e cs :: nat
  assumes "0 < cs" "s \<le> e"
  shows "Suc e - s \<le> (Suc (e div cs) - s div cs) * cs"
proof -
  have "s mod cs + (Suc e - s) \<le> length (take ((Suc (e div cs) - s div cs) * cs)
      (drop (s div cs * cs) (replicate (Suc e) ())))"
    by (rule cut_of_cover(2)) (use assms in simp_all)
  then show ?thesis by simp
qed

lemma covering_bound:
  assumes "range_ok rng tot" "chunks_for_range m rng = Some sp"
    and "\<not> sat_mul (sat_add (sat_sub (last_chunk sp) (first_chunk sp)) 1) (chunk_size m) > MAX_MESH_RANGE_BYTES"
  shows "Suc (unat (br_end rng)) - unat (br_start rng) \<le> unat MAX_MESH_RANGE_BYTES"
proof -
  let ?cs = "unat (chunk_size m)" and ?s = "unat (br_start rng)" and ?e = "unat (br_end rng)"
  have cs: "0 < ?cs" and se: "?s \<le> ?e"
    using assms(2) range_ok_unat [OF assms(1)] by (auto simp: chunks_for_range_Some unat_gt_0)
  have fl: "unat (first_chunk sp) = ?s div ?cs" "unat (last_chunk sp) = ?e div ?cs"
    using assms(2) by (auto simp: chunks_for_range_Some unat_div)
  have le: "?s div ?cs \<le> ?e div ?cs" using se by (rule div_le_mono)
  have "Suc ?e - ?s \<le> (Suc (?e div ?cs) - ?s div ?cs) * ?cs" by (rule cover_length [OF cs se])
  moreover have "Suc ?e - ?s < 2 ^ 64"
    using range_ok_unat [OF assms(1)] unat_lt_2p64 [of tot] by linarith
  moreover have "unat (sat_mul (sat_add (sat_sub (last_chunk sp) (first_chunk sp)) 1) (chunk_size m))
      = min (min (?e div ?cs - ?s div ?cs + 1) (2 ^ 64 - 1) * ?cs) (2 ^ 64 - 1)"
    by (simp add: unat_sat_mul unat_sat_add unat_sat_sub fl)
  moreover have "unat (sat_mul (sat_add (sat_sub (last_chunk sp) (first_chunk sp)) 1) (chunk_size m))
      \<le> unat MAX_MESH_RANGE_BYTES"
    using assms(3) by (simp add: word_less_nat_alt)
  moreover have "unat MAX_MESH_RANGE_BYTES = 8388608"
    by (simp add: MAX_MESH_RANGE_BYTES_def MAX_MESH_OBJECT_BYTES_def)
  moreover have "2 ^ 64 - 1 \<le> (2 ^ 64 - 1) * ?cs" using cs by simp
  ultimately show ?thesis using le
    by (auto simp: min_def Suc_diff_le split: if_splits)
qed

lemma cold_range_bytes:
  assumes "true_manifests ce obj" "range_ok rng (len64 (obj cid))"
    and "cold_range ce cid rng w = Some (Inr bs, w')"
  shows "bs = nths (obj cid) {unat (br_start rng)..unat (br_end rng)} \<and>
    length bs \<le> unat MAX_MESH_RANGE_BYTES"
proof -
  obtain mb w1 m sp joined where g: "get_blob ce cid w = (Inr mb, w1)" "parse_manifest ce mb = Inr m"
    "is_v1 ce m" "chunks_for_range m rng = Some sp"
    and small: "\<not> sat_mul (sat_add (sat_sub (last_chunk sp) (first_chunk sp)) 1) (chunk_size m)
      > MAX_MESH_RANGE_BYTES"
    and f: "fetch_chunks ce m sp w1 = Some (Inr joined, w')" "slice_span joined sp = Inr bs"
    using assms(3)
    by (auto simp: cold_range_def Let_def split: prod.splits sum.splits option.splits if_splits)
  from true_manifest [OF assms(1) g(1-3)]
  have d: "describes (cid_of ce) m (obj cid)" "collision_free (cid_of ce) m (obj cid)" by auto
  have "vec_ok (obj cid)" using d(1) by (simp add: describes_def)
  moreover have "bs = nths (obj cid) {unat (br_start rng)..unat (br_end rng)}"
    using host.fetched_range [OF d assms(2) g(4) f(1)] f(2) by simp
  ultimately show ?thesis
    using covering_bound [OF assms(2) g(4) small] by (simp add: nths_interval min_le_iff_disj)
qed

lemma read_range_bytes:
  assumes "true_manifests ce obj" "honest obj c" "range_ok rng (len64 (obj cid))"
    and "read_range ce cid rng now c w = Some (Inr (bs, hit), c1, w1)"
  shows "bs = nths (obj cid) {unat (br_start rng)..unat (br_end rng)}"
proof -
  obtain hot c' where get: "cache_get cid now c = (hot, c')" by (cases "cache_get cid now c")
  show ?thesis
  proof (cases "\<exists>b. hot = Some b \<and> unat (br_end rng) < length b")
    case True
    then obtain b where b: "hot = Some b" "unat (br_end rng) < length b" by blast
    from cache.good_lookup [OF assms(2)] get b(1) have "b = obj cid" by blast
    with b get assms(4) show ?thesis
      using range_ok_unat [OF assms(3)]
      by (simp add: read_range_def slice_incl_Some nths_interval)
  next
    case False
    with get assms(4) have "cold_range ce cid rng w = Some (Inr bs, w1)"
      using cold_range_returns [of ce cid rng w]
      by (cases hot; cases "fst (the (cold_range ce cid rng w))")
         (auto simp: read_range_def Let_def)
    from cold_range_bytes [OF assms(1,3) this] show ?thesis by blast
  qed
qed

lemma read_range_honest:
  assumes "honest obj c" "read_range ce cid rng now c w = Some (r, c1, w1)"
  shows "honest obj c1"
proof -
  obtain hot c' where get: "cache_get cid now c = (hot, c')" by (cases "cache_get cid now c")
  then have "c1 = c'"
    using assms(2) by (auto simp: read_range_def Let_def split: option.splits if_splits)
  with cache.good_after_lookup [OF assms(1) get] show ?thesis by simp
qed

lemma read_range_returns:
  assumes "range_ok rng tot"
  shows "read_range ce cid rng now c w \<noteq> None"
proof -
  obtain hot c' where get: "cache_get cid now c = (hot, c')" by (cases "cache_get cid now c")
  have "unat (br_start rng) \<le> unat (br_end rng)" using range_ok_unat [OF assms] by simp
  with get cold_range_returns [of ce cid rng w] show ?thesis
    by (cases hot) (auto simp: read_range_def slice_incl_Some)
qed

section \<open>Replies\<close>

lemma read_range_some:
  "parse_range h tot = Partial r \<Longrightarrow> \<exists>c1 w1 res. read_range ce cid r now c w = Some (res, c1, w1)"
  using read_range_returns [OF parse_range_Partial, of h tot r ce cid now c w] by auto

text \<open>The three ways a read is answered.\<close>

lemma not_ok_default [simp]: "\<not> rd_ok read_resp_default"
  by (simp add: read_resp_default_def)

lemma do_read_cases:
  obtains
    (whole) v where "do_read ce enc req now c w = Some (map_prod (whole_resp enc) id (read_object ce (rdq_cid req) now c v))"
      and "rdq_range req = None \<or> (\<exists>hdr t u. rdq_range req = Some hdr \<and> parse_range (Some hdr) t = Full \<and>
             object_total_size ce (rdq_cid req) u = (Inr t, v))"
  | (part) hdr t u v r where "rdq_range req = Some hdr" "object_total_size ce (rdq_cid req) u = (Inr t, v)"
      "parse_range (Some hdr) t = Partial r"
      "do_read ce enc req now c w = map_option (map_prod (part_resp enc t r) id) (read_range ce (rdq_cid req) r now c v)"
  | (none) resp v where "do_read ce enc req now c w = Some (resp, c, v)" "\<not> rd_ok resp"
proof (cases "rdq_range req")
  case None
  then show ?thesis by (intro whole [of w]) (simp_all add: do_read_def Let_def)
next
  case (Some hdr)
  obtain res v where sz: "object_total_size ce (rdq_cid req) w = (res, v)" by (cases "object_total_size ce (rdq_cid req) w")
  show ?thesis
  proof (cases res)
    case (Inl e)
    with Some sz show ?thesis
      by (intro none [of "read_resp_default\<lparr>rd_reason := Some (''not retrievable: '' @ e)\<rparr>" v])
         (simp_all add: do_read_def)
  next
    case (Inr t)
    show ?thesis
    proof (cases "parse_range (Some hdr) t")
      case Full
      with Some sz Inr show ?thesis by (intro whole [of v]) (auto simp: do_read_def Let_def)
    next
      case (Partial r)
      with Some sz Inr show ?thesis by (intro part) (simp_all add: do_read_def)
    next
      case Unsatisfiable
      with Some sz Inr show ?thesis
        by (intro none [of "read_resp_default\<lparr>rd_total_len := t, rd_reason :=
              Some (''range not satisfiable for '' @ show_u64 t @ '' bytes'')\<rparr>" v])
           (simp_all add: do_read_def)
    qed
  qed
qed

lemma do_read_returns: "do_read ce enc req now c w \<noteq> None"
proof (cases rule: do_read_cases [of ce enc req now c w])
  case (part hdr t u v r)
  with read_range_returns [OF parse_range_Partial [OF part(3)], of ce "rdq_cid req" now c v]
  show ?thesis by simp
qed simp_all

lemma do_read_honest:
  assumes "verifies_objects ce obj" "honest obj c" "do_read ce enc req now c w = Some (resp, c1, w1)"
  shows "honest obj c1"
proof (cases rule: do_read_cases [of ce enc req now c w])
  case (whole v)
  obtain r c' v' where "read_object ce (rdq_cid req) now c v = (r, c', v')"
    by (cases "read_object ce (rdq_cid req) now c v")
  with whole(1) assms(3) honest_read_object [OF assms(1,2) this] show ?thesis by simp
next
  case (part hdr t u v r)
  with assms(3) read_range_honest [OF assms(2)] show ?thesis by auto
qed (use assms in simp)

text \<open>
  C28: what the edge serves is what was published. With an honest cache, a verifying \<open>get_object\<close> and
  true manifests, a successful \<open>cdn/read\<close> reply carries the hexadecimal form of the whole object, or
  exactly of the byte positions its \<open>Range\<close> header resolves to, with the resolved bounds; cold or
  hot, whatever the blob store answered for the chunks. The handler never panics and leaves the cache
  honest.
\<close>
theorem read_reply_is_published:
  assumes "verifies_objects ce obj" and "true_manifests ce obj" and "honest obj c"
  shows "\<exists>resp c1 w1. do_read ce enc req now c w = Some (resp, c1, w1) \<and> honest obj c1 \<and>
    (rd_ok resp \<longrightarrow>
       rd_total_len resp = len64 (obj (rdq_cid req)) \<and>
       (case rdq_range req of
          None \<Rightarrow> rd_bytes_hex resp = enc (obj (rdq_cid req)) \<and> \<not> rd_partial resp
        | Some hdr \<Rightarrow>
            (case parse_range (Some hdr) (len64 (obj (rdq_cid req))) of
               Full \<Rightarrow> rd_bytes_hex resp = enc (obj (rdq_cid req)) \<and> \<not> rd_partial resp
             | Partial r \<Rightarrow>
                 rd_bytes_hex resp = enc (nths (obj (rdq_cid req)) {unat (br_start r)..unat (br_end r)}) \<and>
                 rd_partial resp \<and> rd_range_start resp = br_start r \<and> rd_range_end resp = br_end r
             | Unsatisfiable \<Rightarrow> False)))"
proof -
  let ?cid = "rdq_cid req" and ?obj = "obj (rdq_cid req)"
  obtain resp c1 w1 where rd: "do_read ce enc req now c w = Some (resp, c1, w1)"
    using do_read_returns [of ce enc req now c w] by auto
  have hon: "honest obj c1" using do_read_honest [OF assms(1,3) rd] .
  have tot: "t = len64 ?obj" if "object_total_size ce ?cid v = (Inr t, v')" for t v v'
    using total_size_true [OF assms(2) that] by blast
  show ?thesis
  proof (cases rule: do_read_cases [of ce enc req now c w])
    case (whole v)
    obtain res c' v' where ro: "read_object ce ?cid now c v = (res, c', v')"
      by (cases "read_object ce ?cid now c v")
    with whole rd hon tot honest_read_object [OF assms(1,3) ro] show ?thesis
      by (auto simp: whole_resp_def read_resp_default_def split: sum.splits)
  next
    case (part hdr t u v r)
    then have t: "t = len64 ?obj" using tot by blast
    with part have ok: "range_ok r (len64 ?obj)" using parse_range_Partial by blast
    obtain res c' v' where rr: "read_range ce ?cid r now c v = Some (res, c', v')"
      using read_range_returns [OF ok, of ce ?cid now c v] by auto
    with part t rd hon read_range_bytes [OF assms(2,3) ok] show ?thesis
      by (cases res) (auto simp: part_resp_def read_resp_default_def)
  qed (use rd hon in simp)
qed

section \<open>Runs of the host\<close>

lemma do_read_some: "\<exists>b d a. do_read ce enc req now c w = Some (a, b, d)"
  using do_read_returns [of ce enc req now c w] by auto

lemma dispatch_returns:
  assumes "ability_for topic \<noteq> None"
  shows "dispatch ce cod now topic payload c w \<noteq> None"
proof -
  consider "topic = TOPIC_CACHE" | "topic = TOPIC_READ" | "topic = TOPIC_PURGE" | "topic = TOPIC_STATUS"
    using assms by (auto simp: ability_for_def split: if_splits)
  then show ?thesis
    by cases (auto simp: dispatch_def topic_defs case_prod_beta do_read_some split: sum.split)
qed

lemma honest_act_cache:
  assumes "verifies_objects ce obj" "honest obj c" "act_cache ce req now c w = (resp, c1, w1)"
  shows "honest obj c1"
  using assms(3) honest_cache_object [OF assms(1,2)]
  by (auto simp: act_cache_def Let_def split: prod.splits sum.splits)

lemma dispatch_honest:
  assumes "verifies_objects ce obj" "honest obj c"
    and "dispatch ce cod now topic payload c w = Some (r, c1, w1)"
  shows "honest obj c1"
  using assms(3) honest_act_cache [OF assms(1,2)] do_read_honest [OF assms(1,2)]
    cache.good_remove [OF assms(2)] assms(2)
  by (auto simp: dispatch_def Let_def split: if_splits sum.splits prod.splits)

lemma handle_honest:
  assumes "verifies_objects ce obj" "honest obj (es_cache st)"
    and "handle ce cod iam cfg now_auth now st topic from_hex payload_hex w = Some (reply, st1, w1)"
  shows "honest obj (es_cache st1)"
proof (cases "admit cod iam cfg (es_public st) now_auth topic from_hex payload_hex")
  case (Inl e)
  with assms(2,3) show ?thesis by (simp add: handle_def handle_inner_def)
next
  case (Inr payload)
  with assms(3) obtain r c1 where d: "dispatch ce cod now topic payload (es_cache st) w = Some (r, c1, w1)"
    and "st1 = st\<lparr>es_cache := c1\<rparr>"
    by (cases "dispatch ce cod now topic payload (es_cache st) w")
       (auto simp: handle_def handle_inner_def)
  with dispatch_honest [OF assms(1,2) d] show ?thesis by simp
qed

lemma handle_returns:
  "handle ce cod iam cfg now_auth now st topic from_hex payload_hex w \<noteq> None"
proof (cases "admit cod iam cfg (es_public st) now_auth topic from_hex payload_hex")
  case (Inr payload)
  then have "ability_for topic \<noteq> None"
    using admit_sound [OF Inr] by (auto simp: admitted_def)
  with Inr dispatch_returns show ?thesis
    by (simp add: handle_def handle_inner_def del: not_None_eq)
qed (simp add: handle_def handle_inner_def)

lemma host_message_step:
  assumes "verifies_objects ce obj" "honest obj (es_cache st)"
  shows "\<exists>reply seen1 st1 w1. host_message ce cod iam cfg t1 t2 m (seen, st, w) = Some (reply, seen1, st1, w1)
    \<and> honest obj (es_cache st1)"
proof (cases "mm_token m")
  case (Some token)
  obtain reply st1 w1 where h: "handle ce cod iam cfg t1 t2 st (mm_topic m) (mm_from m) (mm_payload m) w
      = Some (reply, st1, w1)"
    using handle_returns [of ce cod iam cfg t1 t2 st "mm_topic m" "mm_from m" "mm_payload m" w] by auto
  with handle_honest [OF assms h] Some assms(2) show ?thesis
    by (cases "seen_insert token seen") (auto simp: host_message_def split: bool.splits)
qed (use assms(2) in \<open>simp add: host_message_def\<close>)

lemma host_run_honest:
  assumes "verifies_objects ce obj"
  shows "honest obj (es_cache st) \<Longrightarrow>
    \<exists>replies seen1 st1 w1. host_run ce cod iam cfg ms (seen, st, w) = Some (replies, seen1, st1, w1)
      \<and> honest obj (es_cache st1)"
proof (induction ms arbitrary: seen st w)
  case (Cons x ms)
  obtain t1 t2 m where x: "x = (t1, t2, m)" by (cases x)
  obtain reply seen1 st1 w1 where step:
    "host_message ce cod iam cfg t1 t2 m (seen, st, w) = Some (reply, seen1, st1, w1)"
    "honest obj (es_cache st1)"
    using host_message_step [OF assms Cons.prems, of cod iam cfg t1 t2 m seen w] by metis
  from Cons.IH [OF step(2), of seen1 w1] step(1) x show ?case by auto
qed simp

lemma honest_sweep: "honest obj c \<Longrightarrow> honest obj (snd (sweep_expired now c))"
proof (rule cache.goodI)
  assume good: "honest obj c"
  then have ok: "cache_ok c" by (rule cache.good_ok)
  then show "cache_ok (snd (sweep_expired now c))" by (rule cache_ok_sweep)
  fix k b
  assume "content (snd (sweep_expired now c)) k = Some b"
  then have "content c k = Some b"
    using fold_sweep_get [of c] ok
    by (auto simp: content_def sweep_expired_def Let_def cache_ok_def split: if_splits)
  with good show "b = obj k" unfolding cache.good_def by blast
qed

lemma host_tick_honest:
  "honest obj (es_cache st) \<Longrightarrow> host_tick ce dec rvk now order ticks (cfg, st, w) = (cfg1, st1, w1) \<Longrightarrow>
     honest obj (es_cache st1)"
  by (auto simp: host_tick_def honest_sweep split: if_splits)

lemma host_loop_honest:
  assumes "verifies_objects ce obj"
  shows "honest obj (es_cache st) \<Longrightarrow>
    \<exists>replies seen1 st1 w1. host_loop ce cod iam rounds ticks cfg (seen, st, w) = Some (replies, seen1, st1, w1)
      \<and> honest obj (es_cache st1)"
proof (induction rounds arbitrary: ticks cfg seen st w)
  case (Cons x xs)
  obtain cfg1 st1 w1 where tick:
    "host_tick ce (hex_dec cod) (ri_revoked x) (ri_now x) (ri_order x) ticks (cfg, st, w) = (cfg1, st1, w1)"
    by (rule prod_cases3)
  obtain rs seen2 st2 w2 where run:
    "host_run ce cod iam cfg1 (ri_inbox x) (seen, st1, w1) = Some (rs, seen2, st2, w2)"
    "honest obj (es_cache st2)"
    using host_run_honest [OF assms host_tick_honest [OF Cons.prems tick]] by metis
  from Cons.IH [OF run(2), of "ticks + 1" cfg1 seen2 w2] tick run(1) show ?case by auto
qed simp

text \<open>
  C2: the cache cannot be poisoned, and no message stops the host. Whatever messages arrive, from
  whomever, in whatever order and round of the loop, the host handles them all without a panic, and as
  long as the SDK's \<open>get_object\<close> verifies what it fetches, the cache afterwards holds under every
  content id the object published under it, or nothing.
\<close>
theorem cache_never_poisoned:
  assumes "verifies_objects ce obj" and "Option.bind (hex_dec cod edge_hex) (to_array 32) \<noteq> None"
  shows "\<exists>replies seen1 st1 w1.
    host_serve ce cod iam (Inr edge_hex) roots max_b ttl public_cids rounds w
      = Some (Inr (replies, seen1, st1, w1)) \<and>
    (\<forall>cid bs. content (es_cache st1) cid = Some bs \<longrightarrow> bs = obj cid)"
proof -
  obtain edge_id where i: "Option.bind (hex_dec cod edge_hex) (to_array 32) = Some edge_id"
    using assms(2) by blast
  let ?st = "(edge_state_new max_b ttl)\<lparr>es_public := fold allow_public public_cids (es_public (edge_state_new max_b ttl))\<rparr>"
  have "honest obj (es_cache ?st)" by (simp add: edge_state_new_def honest_new)
  from host_loop_honest [OF assms(1) this]
  obtain replies seen1 st1 w1 where
    "host_loop ce cod iam rounds 0 \<lparr>hc_edge_id = edge_id, hc_roots = roots, hc_revoked = {}\<rparr>
       (seen_new SEEN_TOKENS_CAPACITY, ?st, snd (advertise_service ce SERVICE_EDGE w))
     = Some (replies, seen1, st1, w1)" "honest obj (es_cache st1)"
    by metis
  then show ?thesis
    using i unfolding cache.good_def by (auto simp: host_serve_def)
qed

section \<open>Probe and purge\<close>

text \<open>
  C40: a status probe tells the truth. It reports an object as held exactly when a read at the same
  moment would be served from the cache, with the number of bytes that read would return, and it
  changes nothing.
\<close>
theorem status_agrees_with_read:
  "case fst (cache_get (sq_cid req) now c) of
     None \<Rightarrow> \<not> sr_held (act_status req now c) \<and> sr_bytes (act_status req now c) = 0
   | Some bs \<Rightarrow> sr_held (act_status req now c) \<and> sr_bytes (act_status req now c) = len64 bs"
  by (auto simp: get_result act_status_def contains_fresh_def byte_len_def split: option.splits)

text \<open>
  An authorised purge evicts. After an admitted \<open>cdn/purge\<close> the reply says whether the object was
  present, a read no longer finds it in the cache, and every other object is still there.
\<close>
theorem purge_evicts:
  assumes "cache_ok (es_cache st)"
    and "admit cod iam cfg (es_public st) now_auth TOPIC_PURGE from_hex payload_hex = Inr payload"
    and "purge_req_of cod payload = Inr req"
  shows "\<exists>st1. handle_inner ce cod iam cfg now_auth now st TOPIC_PURGE from_hex payload_hex w
      = Some (purge_resp_json cod
          \<lparr>pr_purged = (content (es_cache st) (pq_cid req) \<noteq> None), pr_reason = None\<rparr>, st1, w) \<and>
    fst (cache_get (pq_cid req) t (es_cache st1)) = None \<and>
    (\<forall>k. k \<noteq> pq_cid req \<longrightarrow> content (es_cache st1) k = content (es_cache st) k)"
proof -
  let ?c = "es_cache st"
  obtain purged c1 where p: "purge (pq_cid req) ?c = (purged, c1)" by (cases "purge (pq_cid req) ?c")
  have "purged \<longleftrightarrow> content ?c (pq_cid req) \<noteq> None"
    using p drop_result [of "pq_cid req" ?c] by (simp add: purge_def content_def)
  moreover have "content c1 k = content ?c k" if "k \<noteq> pq_cid req" for k
    using p that entries_drop [of "pq_cid req" ?c] assms(1)
    by (auto simp: purge_def content_def cache_ok_def)
  moreover have "fst (cache_get (pq_cid req) t c1) = None"
    using cache.lookup_after_remove [OF assms(1) p] .
  ultimately show ?thesis
    using assms(2,3) p
    by (simp add: handle_inner_def dispatch_def topic_defs)
qed

text \<open>
  The size limit of a mesh reply guards the cold path only: an object already in the cache is read
  whole whatever its size.
\<close>

lemma hot_read_ignores_limit:
  "cache_get cid now c = (Some bs, c1) \<Longrightarrow> read_object ce cid now c w = (Inr (bs, True), c1, w)"
  by (simp add: read_object_def)

section \<open>Concrete instances\<close>

definition demo_cid :: string where
  "demo_cid = replicate 64 (CHR ''a'')"

text \<open>Codecs under which every payload is a request for \<open>demo_cid\<close> with an empty chain.\<close>

definition demo_codecs :: codecs where
  "demo_codecs =
     \<lparr>hex_enc = ref_encode, hex_dec = ref_decode, head_of = (\<lambda>b. Some ([], demo_cid)),
      cache_req_of = (\<lambda>b. Inr \<lparr>cq_caps = [], cq_cid = demo_cid, cq_bytes_len = 3, cq_ttl_secs = 60\<rparr>),
      read_req_of = (\<lambda>b. Inr \<lparr>rdq_caps = [], rdq_cid = demo_cid, rdq_range = None\<rparr>),
      purge_req_of = (\<lambda>b. Inr \<lparr>pq_caps = [], pq_cid = demo_cid\<rparr>),
      status_req_of = (\<lambda>b. Inr \<lparr>sq_caps = [], sq_cid = demo_cid\<rparr>),
      cache_resp_json = (\<lambda>r. Inr [1]), read_resp_json = (\<lambda>r. Inr [2]),
      purge_resp_json = (\<lambda>r. Inr [3]), status_resp_json = (\<lambda>r. Inr [4]),
      failure_json = (\<lambda>e. [0])\<rparr>"

text \<open>A capability library that accepts one sender.\<close>

definition demo_iam :: "unit iam" where
  "demo_iam =
     \<lparr>decode_chain = (\<lambda>s. Some ()),
      authorize = (\<lambda>self roots now who action chain revoked.
        if who = replicate 32 1 then Inr () else Inl ''no capability'')\<rparr>"

definition demo_config :: host_config where
  "demo_config = \<lparr>hc_edge_id = replicate 32 9, hc_roots = [], hc_revoked = {}\<rparr>"

definition demo_state :: edge_state where
  "demo_state = \<lparr>es_cache = snd (insert_with_ttl demo_cid demo_object 60 0 (cache_new 100 60)),
     es_public = public_new\<rparr>"

lemma demo_decode: "ref_decode (ref_encode b) = Some b"
  by (rule hex_decode_encode [OF ref_hex_codec])

lemma demo_cid_valid: "is_valid_cid demo_cid"
  by (simp add: is_valid_cid_def demo_cid_def list_all_iff less_eq_char_def)

lemma demo_verifies: "verifies_objects demo_sdk (\<lambda>cid. demo_object)"
  by (simp add: verifies_objects_def demo_sdk_def)

lemma demo_true_manifests: "true_manifests demo_sdk (\<lambda>cid. demo_object)"
proof -
  have "parse_manifest demo_sdk mb = Inr m \<Longrightarrow> m = demo_manifest" for mb m
    by (simp add: demo_sdk_def)
  then show ?thesis
    unfolding true_manifests_def using demo_describes demo_collision_free by blast
qed

lemma unauthorised_request_has_no_effect_witness:
  "\<exists>reason. handle_inner demo_sdk demo_codecs demo_iam demo_config 5 5 demo_state TOPIC_PURGE
       (ref_encode (replicate 32 2)) [] 0 = Some (Inl reason, demo_state, 0)
    \<and> handle demo_sdk demo_codecs demo_iam demo_config 5 5 demo_state TOPIC_PURGE
       (ref_encode (replicate 32 2)) [] 0 = Some (failure_json demo_codecs reason, demo_state, 0)"
proof (rule unauthorised_request_has_no_effect)
  have "replicate 32 (2 :: u8) \<noteq> replicate 32 1" by simp
  then show "\<forall>payload. hex_dec demo_codecs [] = Some payload \<longrightarrow>
      524288 < length ([] :: string) \<or> 262144 < length payload \<or>
      \<not> admitted demo_codecs demo_iam demo_config (es_public demo_state) 5 TOPIC_PURGE
          (ref_encode (replicate 32 2)) payload"
    by (simp add: admitted_def demo_codecs_def demo_iam_def demo_decode ability_for_def topic_defs
        ability_defs)
qed

lemma read_reply_is_published_witness:
  "let req = \<lparr>rdq_caps = [], rdq_cid = demo_cid, rdq_range = Some (print_spec (Last 2))\<rparr>;
       obj = (\<lambda>cid. demo_object)
   in \<exists>resp c1 w1. do_read demo_sdk ref_encode req 5 (cache_new 100 60) 0 = Some (resp, c1, w1) \<and>
    honest obj c1 \<and>
    (rd_ok resp \<longrightarrow>
       rd_total_len resp = len64 (obj (rdq_cid req)) \<and>
       (case rdq_range req of
          None \<Rightarrow> rd_bytes_hex resp = ref_encode (obj (rdq_cid req)) \<and> \<not> rd_partial resp
        | Some hdr \<Rightarrow>
            (case parse_range (Some hdr) (len64 (obj (rdq_cid req))) of
               Full \<Rightarrow> rd_bytes_hex resp = ref_encode (obj (rdq_cid req)) \<and> \<not> rd_partial resp
             | Partial r \<Rightarrow>
                 rd_bytes_hex resp = ref_encode (nths (obj (rdq_cid req)) {unat (br_start r)..unat (br_end r)}) \<and>
                 rd_partial resp \<and> rd_range_start resp = br_start r \<and> rd_range_end resp = br_end r
             | Unsatisfiable \<Rightarrow> False)))"
  unfolding Let_def
  by (rule read_reply_is_published [OF demo_verifies demo_true_manifests honest_new])

lemma cache_never_poisoned_witness:
  "\<exists>replies seen1 st1 w1.
    host_serve demo_sdk demo_codecs demo_iam (Inr (ref_encode (replicate 32 1))) [] 100 60 [demo_cid]
      [\<lparr>ri_revoked = Inr [], ri_now = 5, ri_order = [demo_cid],
        ri_inbox = [(5, 5, \<lparr>mm_token = Some 1, mm_topic = TOPIC_READ,
                           mm_from = ref_encode (replicate 32 1), mm_payload = []\<rparr>)]\<rparr>] 0
      = Some (Inr (replies, seen1, st1, w1)) \<and>
    (\<forall>cid bs. content (es_cache st1) cid = Some bs \<longrightarrow> bs = demo_object)"
  by (rule cache_never_poisoned [OF demo_verifies])
     (simp add: demo_codecs_def demo_decode to_array_def)

lemma purge_evicts_witness:
  "\<exists>st1. handle_inner demo_sdk demo_codecs demo_iam demo_config 5 5 demo_state TOPIC_PURGE
       (ref_encode (replicate 32 1)) [] 0
      = Some (purge_resp_json demo_codecs
          \<lparr>pr_purged = (content (es_cache demo_state) (pq_cid \<lparr>pq_caps = [], pq_cid = demo_cid\<rparr>) \<noteq> None),
           pr_reason = None\<rparr>, st1, 0) \<and>
    fst (cache_get (pq_cid \<lparr>pq_caps = [], pq_cid = demo_cid\<rparr>) 7 (es_cache st1)) = None \<and>
    (\<forall>k. k \<noteq> pq_cid \<lparr>pq_caps = [], pq_cid = demo_cid\<rparr> \<longrightarrow>
       content (es_cache st1) k = content (es_cache demo_state) k)"
proof (rule purge_evicts)
  show "cache_ok (es_cache demo_state)"
    unfolding demo_state_def edge_state.select_convs
    by (rule cache_ok_insert) (simp add: cache_ok_def cache_new_def)
  show "admit demo_codecs demo_iam demo_config (es_public demo_state) 5 TOPIC_PURGE
      (ref_encode (replicate 32 1)) [] = Inr []"
    using demo_cid_valid
    by (simp add: admit_def demo_codecs_def demo_iam_def demo_decode ability_for_def topic_defs
        caps_and_cid_def decide_def authorize_fn_def ability_defs to_array_def)
qed (simp add: demo_codecs_def)

end
