(* ===== verification/Edge.thy ===== *)
theory Edge
  imports Cidrange Cache_LRU Edge_Limits
begin

text \<open>
  Model of \<open>src/edge.rs\<close>: shaping the HTTP response for a content id from the bytes at hand, the
  \<open>Range\<close> header, the access decision and the cache's metadata; conditional requests; the 304 and
  404 responses. A slice out of bounds panics in Rust, so \<open>serve\<close> returns an option and the theorem
  that it always returns is part of its contract.
\<close>

section \<open>Data\<close>

datatype body = BodyFull bytes | BodyPartial bytes byte_range u64 | BodyNone

fun body_bytes :: "body \<Rightarrow> bytes" where
  "body_bytes (BodyFull b) = b"
| "body_bytes (BodyPartial b r t) = b"
| "body_bytes BodyNone = []"

record edge_response =
  status :: u16
  headers :: "(string \<times> string) list"
  body :: body

definition response_header :: "edge_response \<Rightarrow> string \<Rightarrow> string option" where
  "response_header resp name =
     map_option snd (find (\<lambda>(k, v). eq_ignore_ascii_case k name) (headers resp))"

datatype access = Public | Authorized | Denied

section \<open>Operations\<close>

definition etag :: "string \<Rightarrow> string" where
  "etag cid = [CHR 0x22] @ cid @ [CHR 0x22]"

definition cache_headers :: "string \<Rightarrow> edge_cache \<Rightarrow> u64 \<Rightarrow> bool \<Rightarrow> (string \<times> string) list" where
  "cache_headers cid c now hit =
     (let max_age = (case ttl_remaining cid now c of
                       None \<Rightarrow> 0
                     | Some secs \<Rightarrow>
                         if secs = u64_MAX then max (default_ttl_secs c) 31536000 else secs)
      in [(''Accept-Ranges'', ''bytes''),
          (''ETag'', etag cid),
          (''X-Cache'', if hit then ''HIT'' else ''MISS''),
          (''Cache-Control'', ''public, max-age='' @ show_u64 max_age @ '', immutable'')]
         @ (case age cid now c of None \<Rightarrow> [] | Some a \<Rightarrow> [(''Age'', show_u64 a)]))"

definition serve ::
  "string \<Rightarrow> bytes \<Rightarrow> string option \<Rightarrow> access \<Rightarrow> edge_cache \<Rightarrow> u64 \<Rightarrow> bool \<Rightarrow> edge_response option" where
  "serve cid bs range_header acc c now hit =
     (if acc = Denied then
        Some \<lparr>status = 403, headers = [(''Content-Type'', ''text/plain'')], body = BodyNone\<rparr>
      else
        (let tot = len64 bs in
         case parse_range range_header tot of
           Full \<Rightarrow>
             Some \<lparr>status = 200,
                   headers = cache_headers cid c now hit @ [(''Content-Length'', show_u64 tot)],
                   body = BodyFull bs\<rparr>
         | Partial r \<Rightarrow>
             (case slice_incl bs (unat (br_start r)) (unat (br_end r)) of
                None \<Rightarrow> None
              | Some part \<Rightarrow>
                  Some \<lparr>status = 206,
                        headers = cache_headers cid c now hit
                          @ [(''Content-Range'', content_range_header r tot),
                             (''Content-Length'', show_u64 (range_len r))],
                        body = BodyPartial part r tot\<rparr>)
         | Unsatisfiable \<Rightarrow>
             Some \<lparr>status = 416,
                   headers = [(''Content-Range'', ''bytes */'' @ show_u64 tot),
                              (''Content-Type'', ''text/plain'')],
                   body = BodyNone\<rparr>))"

definition if_none_match_matches :: "string option \<Rightarrow> string \<Rightarrow> bool" where
  "if_none_match_matches header cid =
     (case header of
        None \<Rightarrow> False
      | Some h \<Rightarrow>
          list_ex
            (\<lambda>raw. let t0 = trim raw;
                        t = trim (case strip_prefix ''W/'' t0 of None \<Rightarrow> t0 | Some u \<Rightarrow> u)
                    in t = ''*'' \<or> t = etag cid)
            (split_char CHR '','' h))"

definition not_modified :: "string \<Rightarrow> edge_cache \<Rightarrow> u64 \<Rightarrow> edge_response" where
  "not_modified cid c now =
     \<lparr>status = 304, headers = cache_headers cid c now True, body = BodyNone\<rparr>"

definition not_found :: "string \<Rightarrow> edge_response" where
  "not_found cid =
     \<lparr>status = 404,
      headers = [(''Content-Type'', ''text/plain''), (''X-Cache'', ''MISS''), (''ETag'', etag cid)],
      body = BodyNone\<rparr>"

section \<open>Serving\<close>

lemma find_append: "find P (xs @ ys) = (case find P xs of None \<Rightarrow> find P ys | Some x \<Rightarrow> Some x)"
  by (induction xs) auto

lemma cache_headers_no_length [simp]:
  "find (\<lambda>(k, v). map to_ascii_lower k = ''content-length'') (cache_headers cid c now hit) = None"
  "find (\<lambda>(k, v). map to_ascii_lower k = ''content-range'') (cache_headers cid c now hit) = None"
  by (simp_all add: cache_headers_def Let_def to_ascii_lower_def split: option.split)

lemma char_of_lower: "char_of (99 :: nat) = CHR ''c''" "char_of (108 :: nat) = CHR ''l''"
  "char_of (114 :: nat) = CHR ''r''" "char_of (116 :: nat) = CHR ''t''"
  by (simp_all add: char_of_def) (simp_all add: bit_simps)

lemmas header_simps =
  response_header_def find_append eq_ignore_ascii_case_def to_ascii_lower_def char_of_lower

lemma serve_slice:
  assumes "vec_ok bs" "parse_range rh (len64 bs) = Partial r"
  shows "slice_incl bs (unat (br_start r)) (unat (br_end r))
    = Some (nths bs {unat (br_start r)..unat (br_end r)})"
  using range_ok_unat [OF parse_range_Partial [OF assms(2)]] assms(1)
  by (subst slice_incl_Some) (simp_all add: unat_len64 nths_interval)

lemma serve_Partial:
  assumes "vec_ok bs" "parse_range rh (len64 bs) = Partial r" "acc \<noteq> Denied"
  defines "part \<equiv> nths bs {unat (br_start r)..unat (br_end r)}"
  shows "serve cid bs rh acc c now hit = Some
     \<lparr>status = 206,
      headers = cache_headers cid c now hit
        @ [(''Content-Range'', content_range_header r (len64 bs)),
           (''Content-Length'', show_u64 (len64 part))],
      body = BodyPartial part r (len64 bs)\<rparr>"
proof -
  have ok: "range_ok r (len64 bs)" using assms(2) by (rule parse_range_Partial)
  have "unat (range_len r) = length part"
    using range_ok_unat [OF ok] assms(1)
    by (auto simp: unat_range_len [OF ok] unat_len64 min_def part_def nths_interval)
  moreover have "vec_ok part"
    using assms(1) by (simp add: vec_ok_def part_def nths_interval)
  ultimately have "range_len r = len64 part"
    by (simp add: word_unat_eq_iff unat_len64)
  with serve_slice [OF assms(1,2)] assms(2,3) show ?thesis
    by (simp add: serve_def Let_def part_def)
qed

text \<open>
  Shaping a response never panics, whatever the \<open>Range\<close> header. The status is 200, 206, 403 or
  416; a success carries a \<open>Content-Length\<close> equal to the length of the body it carries; and a
  refusal carries no byte of the object.
\<close>
theorem serve_total:
  assumes "vec_ok bs"
  shows "\<exists>resp. serve cid bs rh acc c now hit = Some resp \<and>
    (if status resp = 200 \<or> status resp = 206
     then acc \<noteq> Denied \<and>
          response_header resp ''content-length'' = Some (show_u64 (len64 (body_bytes (body resp))))
     else (status resp = 403 \<or> status resp = 416) \<and> body_bytes (body resp) = [])"
proof (cases "acc = Denied")
  case True
  then show ?thesis by (simp add: serve_def)
next
  case False
  show ?thesis
  proof (cases "parse_range rh (len64 bs)")
    case (Partial r)
    with False serve_Partial [OF assms Partial False] show ?thesis
      by (simp add: header_simps)
  qed (use False in \<open>simp_all add: serve_def Let_def header_simps\<close>)
qed

definition sample_cache :: edge_cache where
  "sample_cache = snd (insert_with_ttl ''cid'' [1, 2, 3, 4] 60 0 (cache_new 100 60))"

lemma serve_total_witness:
  "\<exists>resp. serve ''cid'' [1, 2, 3, 4] (Some (print_spec (Span 1 2))) Public sample_cache 10 True = Some resp \<and>
    (if status resp = 200 \<or> status resp = 206
     then Public \<noteq> Denied \<and>
          response_header resp ''content-length'' = Some (show_u64 (len64 (body_bytes (body resp))))
     else (status resp = 403 \<or> status resp = 416) \<and> body_bytes (body resp) = [])"
  by (rule serve_total) (simp add: vec_ok_def)

text \<open>
  A served range is the right bytes, end to end. For every well-formed single-range header, a
  caller that is not denied gets a 206 whose body is exactly the bytes of the object at the
  positions the header asks for, or a 416 precisely when the header asks for no byte of it.
\<close>
theorem serve_range_bytes:
  assumes "vec_ok bs" and "acc \<noteq> Denied"
  shows "\<exists>resp. serve cid bs (Some (print_spec sp)) acc c now hit = Some resp \<and>
    (if wanted sp (len64 bs) = {} then status resp = 416 \<and> body_bytes (body resp) = []
     else status resp = 206 \<and> body_bytes (body resp) = nths bs (wanted sp (len64 bs)))"
proof (cases "parse_range (Some (print_spec sp)) (len64 bs)")
  case Full
  with print_spec_not_Full show ?thesis by blast
next
  case (Partial r)
  then have "wanted sp (len64 bs) = {unat (br_start r)..unat (br_end r)}"
    and "wanted sp (len64 bs) \<noteq> {}"
    using parse_range_wanted by blast+
  with serve_Partial [OF assms(1) Partial assms(2)] show ?thesis by simp
next
  case Unsatisfiable
  with parse_range_unwanted assms(2) show ?thesis by (simp add: serve_def Let_def)
qed

lemma serve_range_bytes_witness:
  "\<exists>resp. serve ''cid'' [1, 2, 3, 4] (Some (print_spec (Last 3))) Authorized sample_cache 10 True = Some resp \<and>
    (if wanted (Last 3) (len64 [1, 2, 3, 4 :: u8]) = {}
     then status resp = 416 \<and> body_bytes (body resp) = []
     else status resp = 206 \<and>
       body_bytes (body resp) = nths [1, 2, 3, 4] (wanted (Last 3) (len64 [1, 2, 3, 4 :: u8])))"
  by (rule serve_range_bytes) (simp_all add: vec_ok_def)

section \<open>Conditional requests\<close>

lemma split_char_in:
  "t \<in> set (split_char d s) \<Longrightarrow> d \<notin> set t"
proof (induction s arbitrary: t)
  case (Cons a s)
  then show ?case by (cases "split_char d s") (auto split: if_splits)
qed simp

text \<open>A printed list of entity tags splits back into its members.\<close>

lemma split_join:
  assumes "\<forall>t \<in> set ts. CHR '','' \<notin> set t"
  shows "ts \<noteq> [] \<Longrightarrow> split_char CHR '','' (join '', '' ts) = hd ts # map ((#) CHR '' '') (tl ts)"
  using assms
proof (induction ts rule: induct_list012)
  case (3 x y zs)
  have "split_char CHR '','' (join '', '' (x # y # zs))
      = x # split_char CHR '','' (CHR '' '' # join '', '' (y # zs))"
    using 3 by (simp add: split_char_append)
  with 3 show ?case by simp
qed (auto simp: split_char_single)

lemma etag_inject [simp]: "etag a = etag b \<longleftrightarrow> a = b"
  by (simp add: etag_def)

lemma trim_etag [simp]: "trim (etag cid) = etag cid"
  by (rule trim_plain) (simp add: etag_def)

lemma etag_no_comma: "is_acceptable_cid_charset cid \<Longrightarrow> CHR '','' \<notin> set (etag cid)"
  by (auto simp: etag_def dest: acceptable_no_special)

text \<open>An entity tag as a client prints it, weak or strong.\<close>

definition entity_tag :: "bool \<times> string \<Rightarrow> string" where
  "entity_tag t = (if fst t then ''W/'' else []) @ etag (snd t)"

lemma entity_tag_match:
  "(let t0 = trim (entity_tag tg);
        t = trim (case strip_prefix ''W/'' t0 of None \<Rightarrow> t0 | Some u \<Rightarrow> u)
    in t = ''*'' \<or> t = etag cid) \<longleftrightarrow> snd tg = cid"
proof -
  have "trim (entity_tag tg) = entity_tag tg"
    by (rule trim_plain) (simp add: entity_tag_def etag_def)
  moreover have "strip_prefix ''W/'' (etag d) = None" "etag d \<noteq> ''*''" for d
    by (simp_all add: etag_def strip_prefix_def)
  moreover have "strip_prefix ''W/'' (CHR ''W'' # CHR ''/'' # etag d) = Some (etag d)" for d
    by (simp add: strip_prefix_def)
  ultimately show ?thesis by (auto simp: entity_tag_def Let_def)
qed

text \<open>
  An \<open>If-None-Match\<close> list of strong and weak entity tags, printed the way HTTP clients print it,
  matches a content id exactly when that id is one of the listed ones. So a 304 is sent only to a
  client that named the very object, and to every such client.
\<close>
theorem if_none_match_list:
  assumes "tags \<noteq> []" and "\<forall>t \<in> set tags. is_acceptable_cid_charset (snd t)"
  shows "if_none_match_matches (Some (join '', '' (map entity_tag tags))) cid
     \<longleftrightarrow> cid \<in> snd ` set tags"
proof -
  let ?ok = "\<lambda>raw. let t0 = trim raw;
                  t = trim (case strip_prefix ''W/'' t0 of None \<Rightarrow> t0 | Some u \<Rightarrow> u)
              in t = ''*'' \<or> t = etag cid"
  have "\<forall>t \<in> set (map entity_tag tags). CHR '','' \<notin> set t"
    using assms(2) by (auto simp: entity_tag_def dest: etag_no_comma)
  with assms(1) have parts: "split_char CHR '','' (join '', '' (map entity_tag tags))
      = entity_tag (hd tags) # map ((#) CHR '' '') (map entity_tag (tl tags))"
    using split_join [of "map entity_tag tags"] by (simp add: hd_map map_tl)
  have "list_ex ?ok (split_char CHR '','' (join '', '' (map entity_tag tags)))
      \<longleftrightarrow> snd (hd tags) = cid \<or> (\<exists>t \<in> set (tl tags). snd t = cid)"
    unfolding parts
    by (simp only: list_ex_iff list.set list.set_map ball_simps bex_simps image_image trim_space
        entity_tag_match)
  also have "\<dots> \<longleftrightarrow> cid \<in> snd ` set tags" using assms(1) by (cases tags) auto
  finally show ?thesis by (simp add: if_none_match_matches_def)
qed

lemma if_none_match_list_witness:
  "if_none_match_matches (Some (join '', '' (map entity_tag [(False, ''x''), (True, ''cid1'')]))) ''cid1''
     \<longleftrightarrow> ''cid1'' \<in> snd ` set [(False, ''x''), (True, ''cid1'')]"
  by (rule if_none_match_list)
     (simp_all add: is_acceptable_cid_charset_def MAX_CID_LEN_def is_ascii_alphanumeric_def
        is_ascii_digit_def less_eq_char_def)

section \<open>Freshness lifetime\<close>

lemma stored_entry:
  assumes "cache_ok c" "len64 bs \<le> max_bytes c"
  shows "\<exists>e. hm_get (entries (snd (insert_with_ttl cid bs ttl now c))) cid = Some e \<and>
    expires_at e = expiry now ttl \<and> inserted_at e = now"
  using assms evict_to_fit_hm_ok [of "snd (drop_entry cid c)" "len64 bs"]
  by (simp add: insert_with_ttl_accept [OF assms(2) refl] cache_ok_def expiry_def)

text \<open>
  The \<open>max-age\<close> an edge advertises for an entry it has just stored is the time-to-live it was
  stored with, counted down by the age of the copy: a browser never keeps an object longer than the
  edge itself. Every successful or 304 response carries these headers.
\<close>
theorem max_age_counts_down:
  assumes "cache_ok c" and "len64 bs \<le> max_bytes c" and "ttl \<noteq> 0"
    and "unat now + unat ttl < 2 ^ 64 - 1" and "now \<le> t" and "t \<le> now + ttl"
  shows "cache_headers cid (snd (insert_with_ttl cid bs ttl now c)) t hit =
    [(''Accept-Ranges'', ''bytes''), (''ETag'', etag cid),
     (''X-Cache'', if hit then ''HIT'' else ''MISS''),
     (''Cache-Control'', ''public, max-age='' @ show_u64 (ttl - (t - now)) @ '', immutable''),
     (''Age'', show_u64 (t - now))]"
proof -
  have sum: "unat (now + ttl) = unat now + unat ttl"
    using assms(4) by (simp add: unat_word_ariths)
  then have "expiry now ttl = now + ttl" "now + ttl \<noteq> u64_MAX"
    using assms(3,4) by (auto simp: expiry_def sat_add_def unat_u64_MAX)
  moreover have "sat_sub (now + ttl) t = ttl - (t - now)" "sat_sub t now = t - now"
    using assms(5,6) by (auto simp: sat_sub_def)
  moreover have "sat_sub (now + ttl) t \<noteq> u64_MAX"
    using assms(4) sum by (auto simp: word_unat_eq_iff unat_u64_MAX unat_sat_sub)
  ultimately show ?thesis
    using stored_entry [OF assms(1,2), of cid ttl now]
    by (auto simp: cache_headers_def ttl_remaining_def age_def Let_def)
qed

lemma max_age_counts_down_witness:
  "cache_headers ''cid'' (snd (insert_with_ttl ''cid'' [1, 2, 3, 4] 60 100 (cache_new 100 60))) 130 True =
    [(''Accept-Ranges'', ''bytes''), (''ETag'', etag ''cid''),
     (''X-Cache'', if True then ''HIT'' else ''MISS''),
     (''Cache-Control'', ''public, max-age='' @ show_u64 (60 - (130 - 100)) @ '', immutable''),
     (''Age'', show_u64 (130 - 100))]"
  by (rule max_age_counts_down)
     (simp_all add: cache_ok_def cache_new_def len64_def word_le_nat_alt)

end
