(* ===== verification/Pop.thy ===== *)
theory Pop
  imports Hex Seen_Window Rust_Collections
begin

text \<open>
  Model of \<open>src/pop.rs\<close>: the signed challenge a caller presents to an HTTP edge, its parsing and
  verification, and the bounded guard against replay. The \<open>hex\<close> crate (\<open>enc\<close>, \<open>dec\<close>) and the Ed25519
  verification of \<open>ce_identity\<close> (\<open>vf\<close>, true when the signature verifies) are parameters. A node id,
  a nonce and a signature are byte arrays of 32, 16 and 64 bytes: lists whose length the theorems
  state where it matters.
\<close>

section \<open>The challenge\<close>

definition POP_DOMAIN :: bytes where
  "POP_DOMAIN = str_bytes ''ce-cdn-http-pop-v1''"

definition MAX_PROOF_TTL_SECS :: u64 where
  "MAX_PROOF_TTL_SECS = 300"

definition challenge :: "node_id \<Rightarrow> string \<Rightarrow> string \<Rightarrow> bytes \<Rightarrow> u64 \<Rightarrow> bytes" where
  "challenge requester cid ability nonce expires =
     POP_DOMAIN @ requester
     @ to_le_bytes (len64 cid) @ str_bytes cid
     @ to_le_bytes (len64 ability) @ str_bytes ability
     @ nonce @ to_le_bytes expires"

lemma prefixed_inject:
  assumes "to_le_bytes (len64 s) @ str_bytes s @ r = to_le_bytes (len64 s') @ str_bytes s' @ r'"
    and "vec_ok s" "vec_ok s'"
  shows "s = s' \<and> r = r'"
proof -
  have "len64 s = len64 s'" and rest: "str_bytes s @ r = str_bytes s' @ r'"
    using assms(1) to_le_bytes_inject by auto
  then have "length s = length s'"
    using unat_len64 [OF assms(2)] unat_len64 [OF assms(3)] by simp
  with rest str_bytes_inject show ?thesis by simp
qed

lemma challenge_inject:
  assumes eq: "challenge r c a n e = challenge r' c' a' n' e'"
    and "length r = length r'" "vec_ok c" "vec_ok c'" "vec_ok a" "vec_ok a'" "length n = length n'"
  shows "r = r' \<and> c = c' \<and> a = a' \<and> n = n' \<and> e = e'"
proof -
  have "r = r'" and t1: "to_le_bytes (len64 c) @ str_bytes c
        @ to_le_bytes (len64 a) @ str_bytes a @ n @ to_le_bytes e
      = to_le_bytes (len64 c') @ str_bytes c'
        @ to_le_bytes (len64 a') @ str_bytes a' @ n' @ to_le_bytes e'"
    using eq assms(2) by (auto simp: challenge_def)
  from prefixed_inject [OF t1 assms(3,4)] have "c = c'"
    and t2: "to_le_bytes (len64 a) @ str_bytes a @ n @ to_le_bytes e
      = to_le_bytes (len64 a') @ str_bytes a' @ n' @ to_le_bytes e'" by blast+
  from prefixed_inject [OF t2 assms(5,6)] assms(7) to_le_bytes_inject
  show ?thesis using \<open>r = r'\<close> \<open>c = c'\<close> by auto
qed

section \<open>Parsing and verification\<close>

record pop_proof =
  pr_expires :: u64
  pr_nonce :: bytes
  pr_sig :: bytes

definition parse_proof :: "(string \<Rightarrow> bytes option) \<Rightarrow> string \<Rightarrow> pop_proof option" where
  "parse_proof dec header =
     (case splitn3 CHR ''.'' (trim header) of
        [exp_str, nonce_hex, sig_hex] \<Rightarrow>
          Option.bind (parse_u64 (trim exp_str)) (\<lambda>expires.
          Option.bind (Option.bind (dec (trim nonce_hex)) (to_array 16)) (\<lambda>nonce.
          Option.bind (Option.bind (dec (trim sig_hex)) (to_array 64)) (\<lambda>sig.
            Some \<lparr>pr_expires = expires, pr_nonce = nonce, pr_sig = sig\<rparr>)))
      | _ \<Rightarrow> None)"

datatype pop_error = Missing | Malformed | Expired | TooFarFuture | BadSignature | Replay

type_synonym verifier = "node_id \<Rightarrow> bytes \<Rightarrow> bytes \<Rightarrow> bool"

definition verify_pop ::
  "verifier \<Rightarrow> (string \<Rightarrow> bytes option) \<Rightarrow> string option \<Rightarrow> node_id \<Rightarrow> string \<Rightarrow> string \<Rightarrow> u64
     \<Rightarrow> pop_error + unit" where
  "verify_pop vf dec proof_header requester cid ability now =
     (case map_option trim proof_header of
        None \<Rightarrow> Inl Missing
      | Some header \<Rightarrow>
          if header = [] then Inl Missing
          else (case parse_proof dec header of
                  None \<Rightarrow> Inl Malformed
                | Some pr \<Rightarrow>
                    if pr_expires pr < now then Inl Expired
                    else if pr_expires pr > sat_add now MAX_PROOF_TTL_SECS then Inl TooFarFuture
                    else (let msg = challenge requester cid ability (pr_nonce pr) (pr_expires pr)
                          in if vf requester msg (pr_sig pr) then Inr () else Inl BadSignature)))"

section \<open>The replay guard\<close>

record replay_guard =
  rg_seen :: "bytes set"
  rg_order :: "bytes list"
  rg_capacity :: usize

definition guard_new :: "usize \<Rightarrow> replay_guard" where
  "guard_new capacity = \<lparr>rg_seen = {}, rg_order = [], rg_capacity = max capacity 1\<rparr>"

function guard_evict :: "replay_guard \<Rightarrow> replay_guard" where
  "guard_evict g =
     (if length (rg_order g) > unat (rg_capacity g)
      then (case rg_order g of
              [] \<Rightarrow> g
            | old # rest \<Rightarrow> guard_evict (g\<lparr>rg_order := rest, rg_seen := rg_seen g - {old}\<rparr>))
      else g)"
  by pat_completeness auto
termination by (relation "measure (\<lambda>g. length (rg_order g))") auto

declare guard_evict.simps [simp del]

definition guard_accept :: "node_id \<Rightarrow> bytes \<Rightarrow> replay_guard \<Rightarrow> bool \<times> replay_guard" where
  "guard_accept requester nonce g =
     (let key = requester @ nonce in
      if key \<in> rg_seen g then (False, g)
      else (True, guard_evict (g\<lparr>rg_seen := insert key (rg_seen g), rg_order := rg_order g @ [key]\<rparr>)))"

definition guard_len :: "replay_guard \<Rightarrow> nat" where
  "guard_len g = card (rg_seen g)"

definition guard_is_empty :: "replay_guard \<Rightarrow> bool" where
  "guard_is_empty g \<longleftrightarrow> rg_seen g = {}"

definition REPLAY_GUARD_CAPACITY :: usize where
  "REPLAY_GUARD_CAPACITY = 16384"

definition verify_pop_once ::
  "verifier \<Rightarrow> (string \<Rightarrow> bytes option) \<Rightarrow> replay_guard \<Rightarrow> string option \<Rightarrow> node_id \<Rightarrow> string \<Rightarrow> string
     \<Rightarrow> u64 \<Rightarrow> (pop_error + unit) \<times> replay_guard" where
  "verify_pop_once vf dec g proof_header requester cid ability now =
     (case verify_pop vf dec proof_header requester cid ability now of
        Inl e \<Rightarrow> (Inl e, g)
      | Inr _ \<Rightarrow>
          (case parse_proof dec (trim (case proof_header of None \<Rightarrow> [] | Some h \<Rightarrow> h)) of
             None \<Rightarrow> (Inl Malformed, g)
           | Some pr \<Rightarrow>
               (case guard_accept requester (pr_nonce pr) g of
                  (ok, g') \<Rightarrow> (if ok then Inr () else Inl Replay, g'))))"

section \<open>Minting\<close>

definition mint_proof_with_nonce ::
  "(bytes \<Rightarrow> string) \<Rightarrow> node_id \<Rightarrow> (bytes \<Rightarrow> bytes) \<Rightarrow> string \<Rightarrow> string \<Rightarrow> bytes \<Rightarrow> u64 \<Rightarrow> string" where
  "mint_proof_with_nonce enc requester sign cid ability nonce expires =
     (let msg = challenge requester cid ability nonce expires;
          sig = sign msg
      in show_u64 expires @ ''.'' @ enc nonce @ ''.'' @ enc sig)"

text \<open>
  \<open>gen_nonce\<close>: the first 16 bytes of the SHA-256 digest (a parameter) of the process counter, the
  clock and the process id; the counter is the static \<open>SEQ\<close> and is returned incremented.
\<close>

definition gen_nonce :: "(bytes \<Rightarrow> bytes) \<Rightarrow> bytes \<Rightarrow> bytes \<Rightarrow> u64 \<Rightarrow> bytes \<times> u64" where
  "gen_nonce sha256 nanos_le pid_le seq =
     (take 16 (sha256 (to_le_bytes seq @ nanos_le @ pid_le)), seq + 1)"

definition mint_proof ::
  "(bytes \<Rightarrow> string) \<Rightarrow> (bytes \<Rightarrow> bytes) \<Rightarrow> bytes \<Rightarrow> bytes \<Rightarrow> u64 \<Rightarrow>
     node_id \<Rightarrow> (bytes \<Rightarrow> bytes) \<Rightarrow> string \<Rightarrow> string \<Rightarrow> u64 \<Rightarrow> string \<times> u64" where
  "mint_proof enc sha256 nanos_le pid_le seq requester sign cid ability expires =
     (let (nonce, seq') = gen_nonce sha256 nanos_le pid_le seq
      in (mint_proof_with_nonce enc requester sign cid ability nonce expires, seq'))"

section \<open>What is asked of the signature scheme\<close>

text \<open>A signer produces 64-byte signatures that verify under its own key.\<close>

definition signs :: "verifier \<Rightarrow> node_id \<Rightarrow> (bytes \<Rightarrow> bytes) \<Rightarrow> bool" where
  "signs vf who sign \<longleftrightarrow> (\<forall>m. vf who m (sign m) \<and> length (sign m) = 64)"

text \<open>No signature verifies under a key but on a message its holder has signed.\<close>

definition only_signed :: "verifier \<Rightarrow> node_id \<Rightarrow> bytes set \<Rightarrow> bool" where
  "only_signed vf who msgs \<longleftrightarrow> (\<forall>m sig. vf who m sig \<longrightarrow> m \<in> msgs)"

section \<open>Round trip\<close>

lemma parse_minted:
  assumes "hex_codec enc dec" "length nonce = 16" "length (sign (challenge who cid ability nonce expires)) = 64"
  shows "trim (mint_proof_with_nonce enc who sign cid ability nonce expires)
       = mint_proof_with_nonce enc who sign cid ability nonce expires"
    and "parse_proof dec (mint_proof_with_nonce enc who sign cid ability nonce expires)
       = Some \<lparr>pr_expires = expires, pr_nonce = nonce, pr_sig = sign (challenge who cid ability nonce expires)\<rparr>"
proof -
  let ?sig = "sign (challenge who cid ability nonce expires)"
  let ?hdr = "show_u64 expires @ CHR ''.'' # (enc nonce @ CHR ''.'' # enc ?sig)"
  have hdr: "mint_proof_with_nonce enc who sign cid ability nonce expires = ?hdr"
    by (simp add: mint_proof_with_nonce_def Let_def)
  have "?sig \<noteq> []" using assms(3) by auto
  from plain_last_hex [OF assms(1) this] have t: "trim ?hdr = ?hdr"
    by (intro trim_plain) (simp add: last_append)
  then show "trim (mint_proof_with_nonce enc who sign cid ability nonce expires)
       = mint_proof_with_nonce enc who sign cid ability nonce expires" by (simp only: hdr)
  have "splitn3 CHR ''.'' ?hdr = [show_u64 expires, enc nonce, enc ?sig]"
    by (simp add: splitn3_def hex_encode_no [OF assms(1)])
  then show "parse_proof dec (mint_proof_with_nonce enc who sign cid ability nonce expires)
       = Some \<lparr>pr_expires = expires, pr_nonce = nonce, pr_sig = ?sig\<rparr>"
    using assms by (simp add: hdr parse_proof_def t trim_hex_encode hex_decode_encode to_array_def)
qed

lemma minted_plain:
  assumes "hex_codec enc dec"
  shows "\<forall>c \<in> set (mint_proof_with_nonce enc who sign cid ability nonce expires). plain c"
proof -
  have "\<forall>c \<in> set (enc bs). plain c" for bs
    using assms hex_digit_plain unfolding hex_codec_def list_all_iff by blast
  moreover have "\<forall>c \<in> set (show_u64 expires). plain c"
    using show_u64_digits digit_not_special by blast
  ultimately show ?thesis by (auto simp: mint_proof_with_nonce_def Let_def)
qed

lemma mint_not_Nil: "mint_proof_with_nonce enc who sign cid ability nonce expires \<noteq> []"
  by (simp add: mint_proof_with_nonce_def Let_def)

lemma verify_minted:
  assumes "hex_codec enc dec" and "signs vf who sign" and "length nonce = 16"
  shows "verify_pop vf dec (Some (mint_proof_with_nonce enc who sign cid ability nonce expires)) who cid ability now
    = (if expires < now then Inl Expired
       else if unat expires > min (unat now + 300) (2 ^ 64 - 1) then Inl TooFarFuture
       else Inr ())"
proof -
  have sig: "length (sign (challenge who cid ability nonce expires)) = 64"
    using assms(2) by (simp add: signs_def)
  have "sat_add now MAX_PROOF_TTL_SECS < expires \<longleftrightarrow> min (unat now + 300) (2 ^ 64 - 1) < unat expires"
    by (simp add: word_less_nat_alt unat_sat_add MAX_PROOF_TTL_SECS_def)
  with assms parse_minted [where sign = sign, OF assms(1,3) sig] show ?thesis
    by (simp add: verify_pop_def mint_not_Nil signs_def Let_def)
qed

text \<open>
  C25: a proof minted by the client library is accepted by the edge for the request it was minted for,
  exactly during its validity: refused as expired after its expiry, refused as too far in the future
  when it would live longer than five minutes, accepted in between.
\<close>
theorem minted_proof_verifies:
  assumes "hex_codec enc dec" and "signs vf who sign" and "length nonce = 16"
  shows "verify_pop vf dec (Some (mint_proof_with_nonce enc who sign cid ability nonce expires)) who cid ability now
    = (if expires < now then Inl Expired
       else if unat expires > min (unat now + 300) (2 ^ 64 - 1) then Inl TooFarFuture
       else Inr ())"
  using assms by (rule verify_minted)

text \<open>A signature scheme for the concrete examples: only one fixed 64-byte value verifies.\<close>

definition toy_sig :: bytes where
  "toy_sig = replicate 64 7"

definition toy_verify :: "bytes list \<Rightarrow> verifier" where
  "toy_verify msgs who m sig \<longleftrightarrow> sig = toy_sig \<and> m \<in> set msgs"

lemma minted_proof_verifies_witness:
  "verify_pop (\<lambda>who m sig. sig = toy_sig) ref_decode
     (Some (mint_proof_with_nonce ref_encode (replicate 32 1) (\<lambda>m. toy_sig) ''cidA'' ''cdn:read'' (replicate 16 2) 1000))
     (replicate 32 1) ''cidA'' ''cdn:read'' 900
    = (if (1000 :: u64) < 900 then Inl Expired
       else if unat (1000 :: u64) > min (unat (900 :: u64) + 300) (2 ^ 64 - 1) then Inl TooFarFuture
       else Inr ())"
  by (rule minted_proof_verifies [OF ref_hex_codec]) (simp_all add: signs_def toy_sig_def)

section \<open>Soundness\<close>

lemma verify_pop_Inr:
  "verify_pop vf dec h who cid ability now = Inr u \<longleftrightarrow>
     (\<exists>hdr pr. h = Some hdr \<and> trim hdr \<noteq> [] \<and> parse_proof dec (trim hdr) = Some pr \<and>
        now \<le> pr_expires pr \<and> pr_expires pr \<le> sat_add now MAX_PROOF_TTL_SECS \<and>
        vf who (challenge who cid ability (pr_nonce pr) (pr_expires pr)) (pr_sig pr))"
  by (auto simp: verify_pop_def Let_def not_less split: option.splits if_splits)

lemma parse_proof_lengths:
  "parse_proof dec h = Some pr \<Longrightarrow> length (pr_nonce pr) = 16 \<and> length (pr_sig pr) = 64"
  by (auto simp: parse_proof_def bind_eq_Some_conv split: list.splits)

section \<open>Replay\<close>

definition guard_ok :: "replay_guard \<Rightarrow> bool" where
  "guard_ok g \<longleftrightarrow> rg_seen g = set (rg_order g) \<and> distinct (rg_order g) \<and>
     length (rg_order g) \<le> unat (rg_capacity g) \<and> rg_capacity g \<noteq> 0"

lemma guard_new_ok: "guard_ok (guard_new n)"
  by (auto simp: guard_ok_def guard_new_def max_def)

lemma guard_evict_eq:
  "rg_seen g = set (rg_order g) \<Longrightarrow> distinct (rg_order g) \<Longrightarrow>
     guard_evict g = g\<lparr>rg_order := last_n (unat (rg_capacity g)) (rg_order g),
                       rg_seen := set (last_n (unat (rg_capacity g)) (rg_order g))\<rparr>"
proof (induction g rule: guard_evict.induct)
  case (1 g)
  show ?case
  proof (cases "length (rg_order g) > unat (rg_capacity g)")
    case True
    then obtain old rest where o: "rg_order g = old # rest" by (cases "rg_order g") auto
    have "rg_seen g - {old} = set rest" using 1(2,3) o by auto
    with 1(1) [OF True o] 1(3) True o show ?thesis
      by (simp add: guard_evict.simps [of g] last_n_def Suc_diff_le less_Suc_eq_le)
  next
    case False
    with 1(2) show ?thesis by (simp add: guard_evict.simps [of g])
  qed
qed

text \<open>The guard as a window over the 48-byte keys.\<close>

definition accept_key :: "bytes \<Rightarrow> replay_guard \<Rightarrow> bool \<times> replay_guard" where
  "accept_key key g = guard_accept (take 32 key) (drop 32 key) g"

lemma guard_accept_key: "length who = 32 \<Longrightarrow> guard_accept who nonce g = accept_key (who @ nonce) g"
  by (simp add: accept_key_def)

lemma accept_key_new:
  assumes "guard_ok g" "key \<notin> rg_seen g"
  shows "accept_key key g =
    (True, g\<lparr>rg_order := last_n (unat (rg_capacity g)) (rg_order g @ [key]),
             rg_seen := set (last_n (unat (rg_capacity g)) (rg_order g @ [key]))\<rparr>)"
  using assms by (simp add: accept_key_def guard_accept_def guard_ok_def guard_evict_eq Let_def)

lemma accept_key_seen: "key \<in> rg_seen g \<Longrightarrow> accept_key key g = (False, g)"
  by (simp add: accept_key_def guard_accept_def)

interpretation replay: seen_window accept_key rg_order "\<lambda>g. unat (rg_capacity g)" guard_ok
proof
  fix g :: replay_guard and k :: bytes
  assume ok: "guard_ok g"
  then have seen_order: "rg_seen g = set (rg_order g)" by (simp add: guard_ok_def)
  note new = accept_key_new [OF ok, of k] and seen = accept_key_seen [of k g]
  show "fst (accept_key k g) \<longleftrightarrow> k \<notin> set (rg_order g)"
    using new seen by (cases "k \<in> rg_seen g") (simp_all add: seen_order)
  show "rg_order (snd (accept_key k g)) = last_n (unat (rg_capacity g)) (rg_order g @ [k])"
    if "k \<notin> set (rg_order g)"
    using that new by (simp add: seen_order)
  show "snd (accept_key k g) = g" if "k \<in> set (rg_order g)"
    using that seen by (simp add: seen_order)
  show "unat (rg_capacity (snd (accept_key k g))) = unat (rg_capacity g)"
    using new seen by (cases "k \<in> rg_seen g") simp_all
  show "guard_ok (snd (accept_key k g))"
    using new seen ok by (cases "k \<in> rg_seen g") (simp_all add: guard_ok_def distinct_last_n)
  show "length (rg_order g) \<le> unat (rg_capacity g)" "0 < unat (rg_capacity g)"
    using ok by (simp_all add: guard_ok_def unat_gt_0)
qed

text \<open>A request as an edge verifies it, and a sequence of them against one guard.\<close>

record pop_request =
  rq_header :: "string option"
  rq_who :: node_id
  rq_cid :: string
  rq_ability :: string
  rq_now :: u64

definition pop_step :: "verifier \<Rightarrow> (string \<Rightarrow> bytes option) \<Rightarrow> replay_guard \<Rightarrow> pop_request
    \<Rightarrow> (pop_error + unit) \<times> replay_guard" where
  "pop_step vf dec g q =
     verify_pop_once vf dec g (rq_header q) (rq_who q) (rq_cid q) (rq_ability q) (rq_now q)"

definition pop_run :: "verifier \<Rightarrow> (string \<Rightarrow> bytes option) \<Rightarrow> replay_guard \<Rightarrow> pop_request list
    \<Rightarrow> replay_guard" where
  "pop_run vf dec = foldl (\<lambda>g q. snd (pop_step vf dec g q))"

lemma pop_step_cases:
  assumes "length (rq_who q) = 32"
  shows "(\<exists>e. pop_step vf dec g q = (Inl e, g)) \<or>
    (\<exists>hdr pr. rq_header q = Some hdr \<and> parse_proof dec (trim hdr) = Some pr \<and>
       pop_step vf dec g q =
         (if fst (accept_key (rq_who q @ pr_nonce pr) g) then Inr () else Inl Replay,
          snd (accept_key (rq_who q @ pr_nonce pr) g)))"
proof (cases "verify_pop vf dec (rq_header q) (rq_who q) (rq_cid q) (rq_ability q) (rq_now q)")
  case (Inl e)
  then show ?thesis by (simp add: pop_step_def verify_pop_once_def)
next
  case (Inr u)
  then obtain hdr pr where "rq_header q = Some hdr" "parse_proof dec (trim hdr) = Some pr"
    unfolding verify_pop_Inr by blast
  with Inr assms show ?thesis
    by (simp add: pop_step_def verify_pop_once_def guard_accept_key case_prod_beta)
qed

lemma pop_run_keys:
  assumes "\<forall>q \<in> set qs. length (rq_who q) = 32"
  shows "\<exists>ks. length ks \<le> length qs \<and> pop_run vf dec g qs = snd (run_accept accept_key ks g)"
  using assms
proof (induction qs arbitrary: g)
  case Nil
  show ?case by (intro exI [of _ "[]"]) (simp add: pop_run_def)
next
  case (Cons q qs)
  let ?g = "snd (pop_step vf dec g q)"
  obtain ks where ks: "length ks \<le> length qs" "pop_run vf dec ?g qs = snd (run_accept accept_key ks ?g)"
    using Cons.IH [of ?g] Cons.prems by auto
  have "?g = g \<or> (\<exists>k. ?g = snd (accept_key k g))"
    using pop_step_cases [of q vf dec g] Cons.prems by auto
  then show ?case
  proof
    assume "?g = g"
    with ks show ?thesis by (intro exI [of _ ks]) (simp add: pop_run_def)
  next
    assume "\<exists>k. ?g = snd (accept_key k g)"
    then obtain k where "?g = snd (accept_key k g)" ..
    with ks show ?thesis by (intro exI [of _ "k # ks"]) (simp add: pop_run_def)
  qed
qed

lemma pop_step_accepted:
  assumes "length (rq_who q) = 32" "pop_step vf dec g q = (Inr (), g')"
    and "rq_header q = Some hdr" "parse_proof dec (trim hdr) = Some pr"
  shows "fst (accept_key (rq_who q @ pr_nonce pr) g) \<and> g' = snd (accept_key (rq_who q @ pr_nonce pr) g)"
  using pop_step_cases [OF assms(1), of vf dec g] assms(2-) by (auto split: if_splits)

lemma single_use:
  assumes "guard_ok g" and "length who = 32" and "\<forall>q \<in> set later. length (rq_who q) = 32"
    and "length later < unat (rg_capacity g)"
    and "verify_pop_once vf dec g (Some hdr) who cid ability now = (Inr (), g1)"
  shows "fst (verify_pop_once vf dec (pop_run vf dec g1 later) (Some hdr) who cid' ability' now') \<noteq> Inr ()"
proof
  let ?q = "\<lambda>cid ability now. \<lparr>rq_header = Some hdr, rq_who = who, rq_cid = cid,
    rq_ability = ability, rq_now = now\<rparr>"
  let ?g2 = "pop_run vf dec g1 later"
  assume "fst (verify_pop_once vf dec ?g2 (Some hdr) who cid' ability' now') = Inr ()"
  then have again: "fst (pop_step vf dec ?g2 (?q cid' ability' now')) = Inr ()"
    by (simp add: pop_step_def)
  have first: "pop_step vf dec g (?q cid ability now) = (Inr (), g1)"
    using assms(5) by (simp add: pop_step_def)
  with assms(2) pop_step_cases [of "?q cid ability now" vf dec g]
  obtain pr where pr: "parse_proof dec (trim hdr) = Some pr" by auto
  let ?key = "who @ pr_nonce pr"
  have k1: "fst (accept_key ?key g)" "g1 = snd (accept_key ?key g)"
    using pop_step_accepted [OF _ first, of hdr pr] assms(2) pr by simp_all
  have k2: "fst (accept_key ?key ?g2)"
    using pop_step_accepted [of "?q cid' ability' now'" vf dec ?g2 _ hdr pr] again assms(2) pr
    by (cases "pop_step vf dec ?g2 (?q cid' ability' now')") simp
  obtain ks where ks: "length ks \<le> length later" "?g2 = snd (run_accept accept_key ks g1)"
    using pop_run_keys [OF assms(3)] by blast
  with k1(2) k2 replay.replay_refused [OF assms(1) k1(1), of ks] assms(4) show False by simp
qed

text \<open>
  A captured proof cannot be used twice. Once an edge has accepted a proof header of a requester,
  it refuses the same header from that requester, for whatever object, ability and time, as long as
  fewer than \<open>capacity\<close> further requests have reached the guard in between, whoever sent them.
\<close>
theorem proof_single_use:
  assumes "guard_ok g" and "length who = 32" and "\<forall>q \<in> set later. length (rq_who q) = 32"
    and "length later < unat (rg_capacity g)"
    and "verify_pop_once vf dec g (Some hdr) who cid ability now = (Inr (), g1)"
  shows "fst (verify_pop_once vf dec (pop_run vf dec g1 later) (Some hdr) who cid' ability' now') \<noteq> Inr ()"
  using assms by (rule single_use)

definition sample_proof :: string where
  "sample_proof =
     mint_proof_with_nonce ref_encode (replicate 32 1) (\<lambda>m. toy_sig) ''cidA'' ''cdn:read'' (replicate 16 2) 1000"

definition sample_verify :: verifier where
  "sample_verify who m sig \<longleftrightarrow> sig = toy_sig"

lemma sample_signs: "signs sample_verify who (\<lambda>m. toy_sig)"
  by (simp add: signs_def sample_verify_def toy_sig_def)

lemma sample_parse:
  "trim sample_proof = sample_proof \<and> sample_proof \<noteq> [] \<and> parse_proof ref_decode sample_proof
     = Some \<lparr>pr_expires = 1000, pr_nonce = replicate 16 2, pr_sig = toy_sig\<rparr>"
proof -
  have "length toy_sig = 64" by (simp add: toy_sig_def)
  with parse_minted [OF ref_hex_codec, of "replicate 16 2" "\<lambda>m. toy_sig" "replicate 32 1" "''cidA''"
      "''cdn:read''" 1000]
  show ?thesis by (simp add: sample_proof_def mint_not_Nil)
qed

text \<open>A verifier under which exactly the one challenge of the sample proof is signed.\<close>

definition one_proof_verify :: verifier where
  "one_proof_verify =
     toy_verify [challenge (replicate 32 1) ''cidA'' ''cdn:read'' (replicate 16 2) 1000]"

lemma sample_verifies:
  assumes "vf (replicate 32 1) (challenge (replicate 32 1) ''cidA'' ''cdn:read'' (replicate 16 2) 1000) toy_sig"
  shows "verify_pop vf ref_decode (Some sample_proof) (replicate 32 1) ''cidA'' ''cdn:read'' 900 = Inr ()"
    and "fst (verify_pop_once vf ref_decode (guard_new 8) (Some sample_proof)
      (replicate 32 1) ''cidA'' ''cdn:read'' 900) = Inr ()"
proof -
  show v: "verify_pop vf ref_decode (Some sample_proof) (replicate 32 1) ''cidA'' ''cdn:read'' 900 = Inr ()"
    unfolding verify_pop_Inr using sample_parse assms
    by (simp add: MAX_PROOF_TTL_SECS_def word_le_nat_alt unat_sat_add)
  show "fst (verify_pop_once vf ref_decode (guard_new 8) (Some sample_proof)
      (replicate 32 1) ''cidA'' ''cdn:read'' 900) = Inr ()"
    using v sample_parse
    by (simp add: verify_pop_once_def guard_accept_def guard_new_def Let_def case_prod_beta)
qed

lemma sample_accepted:
  "fst (verify_pop_once sample_verify ref_decode (guard_new 8) (Some sample_proof)
     (replicate 32 1) ''cidA'' ''cdn:read'' 900) = Inr ()"
  by (rule sample_verifies) (simp add: sample_verify_def)

lemma proof_single_use_witness:
  "fst (verify_pop_once sample_verify ref_decode
      (pop_run sample_verify ref_decode
        (snd (verify_pop_once sample_verify ref_decode (guard_new 8) (Some sample_proof)
          (replicate 32 1) ''cidA'' ''cdn:read'' 900))
        [\<lparr>rq_header = Some ''x'', rq_who = replicate 32 9, rq_cid = ''c'', rq_ability = ''cdn:read'', rq_now = 901\<rparr>])
      (Some sample_proof) (replicate 32 1) ''cidA'' ''cdn:read'' 902) \<noteq> Inr ()"
proof (rule proof_single_use)
  show "guard_ok (guard_new 8)" by (rule guard_new_ok)
  show "verify_pop_once sample_verify ref_decode (guard_new 8) (Some sample_proof)
      (replicate 32 1) ''cidA'' ''cdn:read'' 900
    = (Inr (), snd (verify_pop_once sample_verify ref_decode (guard_new 8) (Some sample_proof)
        (replicate 32 1) ''cidA'' ''cdn:read'' 900))"
    using sample_accepted by (metis prod.collapse)
qed (simp_all add: guard_new_def max_def word_le_nat_alt)

end
