(* ===== verification/Presign.thy ===== *)
theory Presign
  imports Pop
begin

text \<open>
  Model of \<open>src/presign.rs\<close>: time-limited links signed by a key the edge trusts. As in \<open>Pop\<close>, the
  \<open>hex\<close> codec and the signature verification are parameters.
\<close>

definition PRESIGN_DOMAIN :: bytes where
  "PRESIGN_DOMAIN = str_bytes ''ce-cdn-presign-v1''"

definition MAX_PRESIGN_TTL_SECS :: u64 where
  "MAX_PRESIGN_TTL_SECS = 7 * 24 * 3600"

definition presign_challenge :: "string \<Rightarrow> u64 \<Rightarrow> bytes" where
  "presign_challenge cid expires =
     PRESIGN_DOMAIN @ to_le_bytes (len64 cid) @ str_bytes cid @ to_le_bytes expires"

record presign =
  ps_expires :: u64
  ps_sig :: bytes

datatype presign_error = PsMissing | PsMalformed | PsExpired | PsTooFarFuture | PsBadSignature

text \<open>The loop of \<open>parse_query\<close> over the \<open>&\<close>-separated pairs, with its two accumulators.\<close>

fun parse_pairs ::
  "(string \<Rightarrow> bytes option) \<Rightarrow> string list \<Rightarrow> u64 option \<Rightarrow> bytes option
     \<Rightarrow> (u64 option \<times> bytes option) option" where
  "parse_pairs dec [] ex sg = Some (ex, sg)"
| "parse_pairs dec (p # ps) ex sg =
     (case split_once CHR ''='' p of
        None \<Rightarrow> None
      | Some (k, v) \<Rightarrow>
          if k = ''exp'' then parse_pairs dec ps (parse_u64 (trim v)) sg
          else if k = ''sig'' then parse_pairs dec ps ex (Option.bind (dec (trim v)) (to_array 64))
          else parse_pairs dec ps ex sg)"

definition parse_query :: "(string \<Rightarrow> bytes option) \<Rightarrow> string \<Rightarrow> presign option" where
  "parse_query dec query =
     (case parse_pairs dec (split_char CHR ''&'' query) None None of
        Some (Some ex, Some sg) \<Rightarrow> Some \<lparr>ps_expires = ex, ps_sig = sg\<rparr>
      | _ \<Rightarrow> None)"

definition verify_presign ::
  "verifier \<Rightarrow> (string \<Rightarrow> bytes option) \<Rightarrow> string \<Rightarrow> string \<Rightarrow> node_id list \<Rightarrow> u64
     \<Rightarrow> presign_error + unit" where
  "verify_presign vf dec query cid trusted now =
     (if trim query = [] \<or> trusted = [] then Inl PsMissing
      else (case parse_query dec query of
              None \<Rightarrow> Inl PsMalformed
            | Some p \<Rightarrow>
                if ps_expires p < now then Inl PsExpired
                else if ps_expires p > sat_add now MAX_PRESIGN_TTL_SECS then Inl PsTooFarFuture
                else (let msg = presign_challenge cid (ps_expires p)
                      in if list_ex (\<lambda>key. vf key msg (ps_sig p)) trusted then Inr ()
                         else Inl PsBadSignature)))"

definition presign_query :: "(bytes \<Rightarrow> string) \<Rightarrow> (bytes \<Rightarrow> bytes) \<Rightarrow> string \<Rightarrow> u64 \<Rightarrow> string" where
  "presign_query enc sign cid expires =
     (let sig = sign (presign_challenge cid expires)
      in ''exp='' @ show_u64 expires @ ''&sig='' @ enc sig)"

definition presign_url :: "(bytes \<Rightarrow> string) \<Rightarrow> (bytes \<Rightarrow> bytes) \<Rightarrow> string \<Rightarrow> u64 \<Rightarrow> string" where
  "presign_url enc sign cid expires = ''/cdn/'' @ cid @ ''?'' @ presign_query enc sign cid expires"

section \<open>Round trip\<close>

lemma parse_query_minted:
  assumes "hex_codec enc dec" "length (sign (presign_challenge cid expires)) = 64"
  shows "parse_query dec (presign_query enc sign cid expires)
       = Some \<lparr>ps_expires = expires, ps_sig = sign (presign_challenge cid expires)\<rparr>"
proof -
  let ?sig = "sign (presign_challenge cid expires)"
  have "presign_query enc sign cid expires
      = (''exp='' @ show_u64 expires) @ CHR ''&'' # (''sig='' @ enc ?sig)"
    by (simp add: presign_query_def Let_def)
  then have parts: "split_char CHR ''&'' (presign_query enc sign cid expires)
      = [''exp='' @ show_u64 expires, ''sig='' @ enc ?sig]"
    using hex_encode_no [OF assms(1), of ?sig]
    by (simp only: split_char_append [of "CHR ''&''" "''exp='' @ show_u64 expires"]
        split_char_single [of "CHR ''&''" "''sig='' @ enc ?sig"] list.simps set_append Un_iff
        insert_iff empty_iff char.inject show_u64_no simp_thms)
  have "split_once CHR ''='' (''exp='' @ show_u64 expires) = Some (''exp'', show_u64 expires)"
    "split_once CHR ''='' (''sig='' @ enc ?sig) = Some (''sig'', enc ?sig)"
    by simp_all
  with assms show ?thesis
    by (simp add: parse_query_def parts trim_hex_encode hex_decode_encode to_array_def
        del: append_Cons split_once.simps)
qed

lemma presign_query_visible:
  assumes "hex_codec enc dec" "length (sign (presign_challenge cid expires)) = 64"
  shows "trim (presign_query enc sign cid expires) = presign_query enc sign cid expires
    \<and> presign_query enc sign cid expires \<noteq> []"
proof -
  have "sign (presign_challenge cid expires) \<noteq> []" using assms(2) by auto
  from plain_last_hex [OF assms(1) this] show ?thesis
    by (auto simp: presign_query_def Let_def trim_simps)
qed

lemma verify_minted_link:
  assumes "hex_codec enc dec" and "signs vf key sign" and "key \<in> set trusted"
  shows "verify_presign vf dec (presign_query enc sign cid expires) cid trusted now
    = (if expires < now then Inl PsExpired
       else if unat expires > min (unat now + 7 * 24 * 3600) (2 ^ 64 - 1) then Inl PsTooFarFuture
       else Inr ())"
proof -
  have sig: "length (sign (presign_challenge cid expires)) = 64"
    using assms(2) by (simp add: signs_def)
  have "sat_add now MAX_PRESIGN_TTL_SECS < expires
      \<longleftrightarrow> min (unat now + 7 * 24 * 3600) (2 ^ 64 - 1) < unat expires"
    by (simp add: word_less_nat_alt unat_sat_add MAX_PRESIGN_TTL_SECS_def)
  moreover have "list_ex (\<lambda>k. vf k (presign_challenge cid expires) (sign (presign_challenge cid expires))) trusted"
    using assms(2,3) by (auto simp: list_ex_iff signs_def)
  moreover have "trusted \<noteq> []" using assms(3) by auto
  ultimately show ?thesis
    using parse_query_minted [where sign = sign, OF assms(1) sig]
      presign_query_visible [where sign = sign, OF assms(1) sig]
    by (simp add: verify_presign_def Let_def)
qed

text \<open>
  C26: a presigned link works for the object it was made for, at every edge that trusts its signer,
  exactly during its validity: the query string a publisher mints is parsed back and accepted until
  its expiry, and refused when it claims more than seven days of life.
\<close>
theorem minted_link_verifies:
  assumes "hex_codec enc dec" and "signs vf key sign" and "key \<in> set trusted"
  shows "verify_presign vf dec (presign_query enc sign cid expires) cid trusted now
    = (if expires < now then Inl PsExpired
       else if unat expires > min (unat now + 7 * 24 * 3600) (2 ^ 64 - 1) then Inl PsTooFarFuture
       else Inr ())"
  using assms by (rule verify_minted_link)

lemma minted_link_verifies_witness:
  "verify_presign sample_verify ref_decode (presign_query ref_encode (\<lambda>m. toy_sig) ''cidA'' 2000)
     ''cidA'' [replicate 32 4, replicate 32 1] 1000
    = (if (2000 :: u64) < 1000 then Inl PsExpired
       else if unat (2000 :: u64) > min (unat (1000 :: u64) + 7 * 24 * 3600) (2 ^ 64 - 1) then Inl PsTooFarFuture
       else Inr ())"
  by (rule minted_link_verifies [OF ref_hex_codec sample_signs [of "replicate 32 1"]]) simp

section \<open>What a signature stands for\<close>

text \<open>
  The two kinds of message a key of the system signs here: proof challenges for its own node id and
  presigned links. The domain tags keep them apart, the length prefixes keep every two of one kind
  apart.
\<close>

definition signed_msgs :: "node_id \<Rightarrow> (string \<times> string \<times> bytes \<times> u64) list \<Rightarrow> (string \<times> u64) list
    \<Rightarrow> bytes set" where
  "signed_msgs who proofs links =
     (\<lambda>(cid, ability, nonce, expires). challenge who cid ability nonce expires) ` set proofs
     \<union> (\<lambda>(cid, expires). presign_challenge cid expires) ` set links"

lemma domain_separation: "challenge who cid ability nonce expires \<noteq> presign_challenge cid' expires'"
proof
  assume "challenge who cid ability nonce expires = presign_challenge cid' expires'"
  then have "take 8 (challenge who cid ability nonce expires) = take 8 (presign_challenge cid' expires')"
    by simp
  then show False
    by (simp add: challenge_def presign_challenge_def POP_DOMAIN_def PRESIGN_DOMAIN_def str_bytes_def
        of_char_def)
qed

lemma presign_challenge_inject:
  assumes "presign_challenge c e = presign_challenge c' e'" "vec_ok c" "vec_ok c'"
  shows "c = c' \<and> e = e'"
proof -
  have "to_le_bytes (len64 c) @ str_bytes c @ to_le_bytes e
      = to_le_bytes (len64 c') @ str_bytes c' @ to_le_bytes e'"
    using assms(1) by (simp add: presign_challenge_def)
  from prefixed_inject [OF this assms(2,3)] to_le_bytes_inject show ?thesis by auto
qed

definition proof_ok :: "string \<times> string \<times> bytes \<times> u64 \<Rightarrow> bool" where
  "proof_ok t = (case t of (cid, ability, nonce, expires) \<Rightarrow>
     vec_ok cid \<and> vec_ok ability \<and> length nonce = 16)"

lemma proof_binds:
  assumes "verify_pop vf dec hdr who cid ability now = Inr ()"
    and "only_signed vf who (signed_msgs who proofs links)"
    and "vec_ok cid" and "vec_ok ability" and "\<forall>t \<in> set proofs. proof_ok t"
  shows "\<exists>nonce expires. (cid, ability, nonce, expires) \<in> set proofs \<and>
    now \<le> expires \<and> unat expires \<le> unat now + 300"
proof -
  obtain pr where pr: "parse_proof dec (trim (the hdr)) = Some pr" "now \<le> pr_expires pr"
    "pr_expires pr \<le> sat_add now MAX_PROOF_TTL_SECS"
    and v: "vf who (challenge who cid ability (pr_nonce pr) (pr_expires pr)) (pr_sig pr)"
    using assms(1) unfolding verify_pop_Inr by auto
  from v assms(2) have "challenge who cid ability (pr_nonce pr) (pr_expires pr) \<in> signed_msgs who proofs links"
    by (auto simp: only_signed_def)
  then obtain c a n e where t: "(c, a, n, e) \<in> set proofs"
    and eq: "challenge who cid ability (pr_nonce pr) (pr_expires pr) = challenge who c a n e"
    using domain_separation by (auto simp: signed_msgs_def)
  have "cid = c \<and> ability = a \<and> pr_nonce pr = n \<and> pr_expires pr = e"
    using challenge_inject [OF eq refl] assms(3,4,5) t parse_proof_lengths [OF pr(1)]
    by (auto simp: proof_ok_def)
  moreover have "unat (pr_expires pr) \<le> unat now + 300"
    using pr(3) by (simp add: word_le_nat_alt unat_sat_add MAX_PROOF_TTL_SECS_def)
  ultimately show ?thesis using t pr(2) by auto
qed

text \<open>
  C23: an accepted proof binds the caller to the very request. If the holder of the key has signed
  nothing but the listed proof challenges and presigned links, an edge that accepts a proof for
  \<open>(cid, ability)\<close> at \<open>now\<close> was given a proof the holder minted for that object and that ability, and
  which is unexpired and at most five minutes from its expiry. A proof for another object, for
  another ability, or a link signature is never accepted in its place.
\<close>
theorem proof_binds_request:
  assumes "verify_pop vf dec hdr who cid ability now = Inr ()"
    and "only_signed vf who (signed_msgs who proofs links)"
    and "vec_ok cid" and "vec_ok ability" and "\<forall>t \<in> set proofs. proof_ok t"
  shows "\<exists>nonce expires. (cid, ability, nonce, expires) \<in> set proofs \<and>
    now \<le> expires \<and> unat expires \<le> unat now + 300"
  using assms by (rule proof_binds)

lemma proof_binds_request_witness:
  "\<exists>nonce expires. (''cidA'', ''cdn:read'', nonce, expires) \<in> set [(''cidA'', ''cdn:read'', replicate 16 (2 :: u8), 1000 :: u64)]
    \<and> 900 \<le> expires \<and> unat expires \<le> unat (900 :: u64) + 300"
proof (rule proof_binds_request)
  let ?who = "replicate 32 (1 :: u8)" and ?nonce = "replicate 16 (2 :: u8)"
  show "verify_pop one_proof_verify ref_decode (Some sample_proof) ?who ''cidA'' ''cdn:read'' 900 = Inr ()"
    by (rule sample_verifies) (simp add: one_proof_verify_def toy_verify_def)
  show "only_signed one_proof_verify ?who (signed_msgs ?who [(''cidA'', ''cdn:read'', ?nonce, 1000)] [])"
    by (simp add: only_signed_def one_proof_verify_def toy_verify_def signed_msgs_def)
qed (simp_all add: vec_ok_def proof_ok_def)

lemma verify_presign_Inr:
  "verify_presign vf dec query cid trusted now = Inr u \<Longrightarrow>
     \<exists>p::presign. \<exists>key. now \<le> ps_expires p \<and> ps_expires p \<le> sat_add now MAX_PRESIGN_TTL_SECS \<and>
       key \<in> set trusted \<and> vf key (presign_challenge cid (ps_expires p)) (ps_sig p)"
  by (simp add: verify_presign_def Let_def list_ex_iff not_less Bex_def split: if_splits option.splits)
     blast

text \<open>
  C24: an accepted link was signed for the very object. If each trusted key has signed nothing but
  proof challenges and the listed links, an edge that accepts a presigned query for \<open>cid\<close> was given
  a link some trusted key signed for that \<open>cid\<close>, unexpired and at most seven days from its expiry.
\<close>
theorem link_binds_object:
  assumes "verify_presign vf dec query cid trusted now = Inr ()"
    and "\<forall>key \<in> set trusted. only_signed vf key (signed_msgs key (proofs key) (links key))"
    and "vec_ok cid" and "\<forall>key \<in> set trusted. \<forall>l \<in> set (links key). vec_ok (fst l)"
  shows "\<exists>key \<in> set trusted. \<exists>expires. (cid, expires) \<in> set (links key) \<and>
    now \<le> expires \<and> unat expires \<le> unat now + 7 * 24 * 3600"
proof -
  obtain p :: presign and key where p: "now \<le> ps_expires p" "ps_expires p \<le> sat_add now MAX_PRESIGN_TTL_SECS"
    and key: "key \<in> set trusted" "vf key (presign_challenge cid (ps_expires p)) (ps_sig p)"
    using verify_presign_Inr [OF assms(1)] by blast
  from key assms(2) have "presign_challenge cid (ps_expires p) \<in> signed_msgs key (proofs key) (links key)"
    by (auto simp: only_signed_def)
  then obtain c e where l: "(c, e) \<in> set (links key)"
    and eq: "presign_challenge cid (ps_expires p) = presign_challenge c e"
    using domain_separation [of key _ _ _ _ cid "ps_expires p"] by (auto simp: signed_msgs_def) metis
  have "vec_ok c" using l assms(4) key(1) by fastforce
  from presign_challenge_inject [OF eq assms(3) this] have "cid = c" "ps_expires p = e" by auto
  moreover have "unat (ps_expires p) \<le> unat now + 7 * 24 * 3600"
    using p(2) by (simp add: word_le_nat_alt unat_sat_add MAX_PRESIGN_TTL_SECS_def)
  ultimately show ?thesis using l key(1) p(1) by blast
qed

lemma link_binds_object_witness:
  "\<exists>key \<in> set [replicate 32 (1 :: u8)]. \<exists>expires. (''cidA'', expires) \<in> set [(''cidA'', 2000 :: u64)] \<and>
    1000 \<le> expires \<and> unat expires \<le> unat (1000 :: u64) + 7 * 24 * 3600"
proof (rule link_binds_object [where links = "\<lambda>k. [(''cidA'', 2000)]" and proofs = "\<lambda>k. []"])
  let ?vf = "toy_verify [presign_challenge ''cidA'' 2000]"
  have "length toy_sig = 64" by (simp add: toy_sig_def)
  with parse_query_minted [OF ref_hex_codec, of "\<lambda>m. toy_sig" "''cidA''" 2000]
    presign_query_visible [OF ref_hex_codec, of "\<lambda>m. toy_sig" "''cidA''" 2000]
  show "verify_presign ?vf ref_decode (presign_query ref_encode (\<lambda>m. toy_sig) ''cidA'' 2000)
      ''cidA'' [replicate 32 (1 :: u8)] 1000 = Inr ()"
    by (simp add: verify_presign_def toy_verify_def Let_def MAX_PRESIGN_TTL_SECS_def
        word_le_nat_alt word_less_nat_alt unat_sat_add)
  show "\<forall>key \<in> set [replicate 32 (1 :: u8)]. only_signed ?vf key (signed_msgs key [] [(''cidA'', 2000)])"
    by (simp add: only_signed_def toy_verify_def signed_msgs_def)
qed (simp_all add: vec_ok_def)

text \<open>A segment without an equals sign makes the whole query malformed.\<close>

lemma parse_query_flag: "parse_query dec (q @ ''&download'') = None"
proof -
  have "parse_pairs dec (ps @ [''download'']) ex sg = None" for ps ex sg
    by (induction ps arbitrary: ex sg) (auto split: option.splits)
  moreover have "\<exists>ps. ps \<noteq> [] \<and> split_char CHR ''&'' (q @ ''&download'') = ps @ [''download'']"
  proof (induction q)
    case (Cons c q)
    then obtain ps where "ps \<noteq> []" "split_char CHR ''&'' (q @ ''&download'') = ps @ [''download'']"
      by blast
    then show ?case
      by (cases ps) (auto simp: Cons_eq_append_conv)
  qed simp
  ultimately show ?thesis by (auto simp: parse_query_def)
qed

end
