(* ===== verification/Server.thy ===== *)
theory Server
  imports Host Edge Presign Cache_Trace
begin

text \<open>
  Model of \<open>src/server.rs\<close>: the HTTP front-end. It resolves how a content id may be accessed (public,
  presigned link, proof of possession with a capability chain), enforces single use of proofs, and
  serves from the cache or the origin through \<open>Edge.serve\<close>. Requests are taken one after the other
  here; the interleaving of concurrent misses is modelled in \<open>Single_Flight\<close>. Parameters: the
  signature check and \<open>hex\<close> codec, the capability library, the origin, and the six-digit rendering of
  the hit ratio.
\<close>

section \<open>Requests and responses\<close>

datatype http_method = GET | HEAD | OtherMethod string

text \<open>Header names are lower case, as \<open>hyper\<close> normalises them; \<open>get\<close> returns the first value.\<close>

record http_request =
  hq_method :: http_method
  hq_path :: string
  hq_query :: "string option"
  hq_headers :: "(string \<times> string) list"

record http_response =
  hr_status :: u16
  hr_headers :: "(string \<times> string) list"
  hr_body :: bytes

text \<open>\<open>HeaderValue::to_str\<close> succeeds on visible ASCII, spaces and tabs.\<close>

definition header_str :: "http_request \<Rightarrow> string \<Rightarrow> string option" where
  "header_str req name =
     (case map_of (hq_headers req) name of
        None \<Rightarrow> None
      | Some v \<Rightarrow>
          if list_all (\<lambda>c. (32 :: nat) \<le> of_char c \<and> (of_char c :: nat) < 127 \<or> of_char c = (9 :: nat)) v
          then Some v else None)"

definition requester_id :: "(string \<Rightarrow> bytes option) \<Rightarrow> http_request \<Rightarrow> node_id" where
  "requester_id dec req =
     (case Option.bind (Option.bind (header_str req ''x-ce-node-id'') (\<lambda>s. dec (trim s))) (to_array 32) of
        None \<Rightarrow> replicate 32 0
      | Some i \<Rightarrow> i)"

definition proof_header :: "http_request \<Rightarrow> string option" where
  "proof_header req = map_option trim (header_str req ''x-ce-proof'')"

definition capability_hex :: "http_request \<Rightarrow> string" where
  "capability_hex req =
     (case header_str req ''x-ce-capability'' of
        Some v \<Rightarrow> trim v
      | None \<Rightarrow>
          (case header_str req ''authorization'' of
             None \<Rightarrow> []
           | Some v0 \<Rightarrow>
               (let v = trim v0 in
                case (case strip_prefix ''Capability '' v of
                        Some rest \<Rightarrow> Some rest
                      | None \<Rightarrow> strip_prefix ''capability '' v) of
                  Some rest \<Rightarrow> trim rest
                | None \<Rightarrow> [])))"

section \<open>Access\<close>

datatype grant = GPublic | GPresigned | GPopAndCap | GDenied

definition grant_access :: "grant \<Rightarrow> access" where
  "grant_access g =
     (case g of GPublic \<Rightarrow> Public | GPresigned \<Rightarrow> Authorized | GPopAndCap \<Rightarrow> Authorized | GDenied \<Rightarrow> Denied)"

definition resolve_grant ::
  "verifier \<Rightarrow> (string \<Rightarrow> bytes option) \<Rightarrow> 'ch iam \<Rightarrow> string \<Rightarrow> public_set \<Rightarrow> node_id \<Rightarrow> node_id list
     \<Rightarrow> node_id list \<Rightarrow> node_id \<Rightarrow> string option \<Rightarrow> string \<Rightarrow> string \<Rightarrow> u64 \<Rightarrow> grant" where
  "resolve_grant vf dec iam cid public edge_id roots presign_keys requester prf pquery caps_hex now =
     (if is_public cid public then GPublic
      else if presign_keys \<noteq> [] \<and> verify_presign vf dec pquery cid presign_keys now = Inr ()
      then GPresigned
      else if isl (verify_pop vf dec prf requester cid ABILITY_READ now) then GDenied
      else if length caps_hex > unat MAX_CAPS_HEX_LEN then GDenied
      else (case decode_chain iam caps_hex of
              None \<Rightarrow> GDenied
            | Some chain \<Rightarrow>
                (case authorize iam edge_id roots now requester ABILITY_READ chain {} of
                   Inr _ \<Rightarrow> GPopAndCap
                 | Inl e \<Rightarrow> GDenied)))"

definition resolve_access ::
  "verifier \<Rightarrow> (string \<Rightarrow> bytes option) \<Rightarrow> 'ch iam \<Rightarrow> string \<Rightarrow> public_set \<Rightarrow> node_id \<Rightarrow> node_id list
     \<Rightarrow> node_id \<Rightarrow> string option \<Rightarrow> string \<Rightarrow> u64 \<Rightarrow> access" where
  "resolve_access vf dec iam cid public edge_id roots requester prf caps_hex now =
     grant_access (resolve_grant vf dec iam cid public edge_id roots [] requester prf [] caps_hex now)"

section \<open>Responses\<close>

text \<open>What the \<open>http\<close> crate accepts: token characters in a name, no control characters in a value.\<close>

definition valid_header_name :: "string \<Rightarrow> bool" where
  "valid_header_name k \<longleftrightarrow> k \<noteq> [] \<and>
     list_all (\<lambda>c. is_ascii_alphanumeric c \<or> c \<in> set ''!#$%&*+-.^_`|~'' \<or> c = CHR 0x27) k"

definition valid_header_value :: "string \<Rightarrow> bool" where
  "valid_header_value v \<longleftrightarrow>
     list_all (\<lambda>c. (32 :: nat) \<le> of_char c \<and> of_char c \<noteq> (127 :: nat) \<or> of_char c = (9 :: nat)) v"

definition to_http :: "edge_response \<Rightarrow> http_response" where
  "to_http resp =
     \<lparr>hr_status = (if 100 \<le> status resp \<and> status resp < 1000 then status resp else 500),
      hr_headers = map (\<lambda>(k, v). (map to_ascii_lower k, v))
        (filter (\<lambda>(k, v). valid_header_name k \<and> valid_header_value v) (headers resp)),
      hr_body = body_bytes (body resp)\<rparr>"

definition text_resp :: "u16 \<Rightarrow> string \<Rightarrow> http_response" where
  "text_resp st msg =
     \<lparr>hr_status = st, hr_headers = [(''content-type'', ''text/plain'')], hr_body = str_bytes msg\<rparr>"

definition json_resp :: "u16 \<Rightarrow> string \<Rightarrow> http_response" where
  "json_resp st js =
     \<lparr>hr_status = st, hr_headers = [(''content-type'', ''application/json'')], hr_body = str_bytes js\<rparr>"

definition deny_cache :: edge_cache where
  "deny_cache = cache_new 1 0"

definition quoted :: "string \<Rightarrow> string" where
  "quoted s = [CHR 0x22] @ s @ [CHR 0x22]"

definition json_field :: "string \<Rightarrow> u64 \<Rightarrow> string" where
  "json_field k v = quoted k @ '':'' @ show_u64 v"

definition size_json :: "string \<times> u64 \<Rightarrow> string" where
  "size_json h = ''{'' @ quoted ''cid'' @ '':'' @ quoted (fst h) @ '','' @ json_field ''bytes'' (snd h) @ ''}''"

definition status_json :: "(cache_stats \<Rightarrow> string) \<Rightarrow> cache_stats \<Rightarrow> (string \<times> u64) list \<Rightarrow> string" where
  "status_json ratio6 s held =
     (let sizes = map size_json held
      in ''{'' @ join '',''
           [json_field ''hits'' (st_hits s), json_field ''misses'' (st_misses s),
            json_field ''evictions'' (st_evictions s), json_field ''expirations'' (st_expirations s),
            json_field ''entries'' (st_entries s), json_field ''bytes'' (st_bytes s),
            quoted ''hit_ratio'' @ '':'' @ ratio6 s,
            quoted ''objects'' @ '':['' @ join '','' sizes @ '']'']
         @ ''}'')"

definition metric_line :: "string \<Rightarrow> u64 \<Rightarrow> string" where
  "metric_line name v = name @ '' '' @ show_u64 v @ [CHR 0x0A]"

definition cid_label :: "string \<Rightarrow> string" where
  "cid_label cid = ''{cid='' @ quoted cid @ ''}''"

definition object_lines :: "string \<times> object_stat \<Rightarrow> string" where
  "object_lines x =
     metric_line (''ce_cdn_object_hits_total'' @ cid_label (fst x)) (os_hits (snd x))
     @ metric_line (''ce_cdn_object_bytes'' @ cid_label (fst x)) (os_bytes (snd x))"

definition metrics_prometheus :: "cache_stats \<Rightarrow> (string \<times> object_stat) list \<Rightarrow> string" where
  "metrics_prometheus s objects =
     (let nl = [CHR 0x0A] in
      ''# HELP ce_cdn_cache_hits_total Cache reads served from cache.'' @ nl
      @ ''# TYPE ce_cdn_cache_hits_total counter'' @ nl
      @ metric_line ''ce_cdn_cache_hits_total'' (st_hits s)
      @ ''# HELP ce_cdn_cache_misses_total Cache reads that missed.'' @ nl
      @ ''# TYPE ce_cdn_cache_misses_total counter'' @ nl
      @ metric_line ''ce_cdn_cache_misses_total'' (st_misses s)
      @ ''# TYPE ce_cdn_cache_evictions_total counter'' @ nl
      @ metric_line ''ce_cdn_cache_evictions_total'' (st_evictions s)
      @ ''# TYPE ce_cdn_cache_expirations_total counter'' @ nl
      @ metric_line ''ce_cdn_cache_expirations_total'' (st_expirations s)
      @ ''# TYPE ce_cdn_cache_negative_hits_total counter'' @ nl
      @ metric_line ''ce_cdn_cache_negative_hits_total'' (st_negative_hits s)
      @ ''# TYPE ce_cdn_cache_entries gauge'' @ nl
      @ metric_line ''ce_cdn_cache_entries'' (st_entries s)
      @ ''# TYPE ce_cdn_cache_bytes gauge'' @ nl
      @ metric_line ''ce_cdn_cache_bytes'' (st_bytes s)
      @ ''# HELP ce_cdn_object_hits_total Per-object cache hits.'' @ nl
      @ ''# TYPE ce_cdn_object_hits_total counter'' @ nl
      @ concat (map object_lines objects))"

section \<open>Serving a content id\<close>

record server_config =
  sc_edge_id :: node_id
  sc_roots :: "node_id list"
  sc_presign_keys :: "node_id list"
  sc_max_object_bytes :: u64

record server_state =
  sv_cache :: edge_cache
  sv_public :: public_set
  sv_replay :: replay_guard

text \<open>The access half of \<open>serve_cid\<close>: the grant, and the replay guard on the proof path.\<close>

definition http_access ::
  "verifier \<Rightarrow> (string \<Rightarrow> bytes option) \<Rightarrow> 'ch iam \<Rightarrow> server_config \<Rightarrow> public_set \<Rightarrow> replay_guard
     \<Rightarrow> http_request \<Rightarrow> string \<Rightarrow> u64 \<Rightarrow> access \<times> replay_guard" where
  "http_access vf dec iam cfg public g req cid now =
     (let caps_hex = capability_hex req;
          requester = requester_id dec req;
          prf = proof_header req;
          query = (case hq_query req of None \<Rightarrow> [] | Some q \<Rightarrow> q);
          gr = resolve_grant vf dec iam cid public (sc_edge_id cfg) (sc_roots cfg) (sc_presign_keys cfg)
                 requester prf query caps_hex now
      in if gr = GDenied then (Denied, g)
         else if gr = GPopAndCap then
           (case verify_pop_once vf dec g prf requester cid ABILITY_READ now of
              (Inl e, g1) \<Rightarrow> (Denied, g1)
            | (Inr _, g1) \<Rightarrow> (grant_access gr, g1))
         else (grant_access gr, g))"

text \<open>The cold half: negative cache, hot cache, origin. The origin is a function of the world.\<close>

datatype obtained = Got bytes bool | Absent | TooLarge

definition fetch_and_store ::
  "(string \<Rightarrow> 'w \<Rightarrow> bytes result \<times> 'w) \<Rightarrow> u64 \<Rightarrow> string \<Rightarrow> u64 \<Rightarrow> edge_cache \<Rightarrow> 'w
     \<Rightarrow> obtained \<times> edge_cache \<times> 'w" where
  "fetch_and_store origin max_object cid now c w =
     (case origin cid w of
        (Inr b, w1) \<Rightarrow>
          if len64 b > max_object then (TooLarge, c, w1)
          else (Got b False, snd (cache_insert cid b now c), w1)
      | (Inl e, w1) \<Rightarrow> (Absent, note_absent cid now c, w1))"

text \<open>The section under the single-flight lock: look again, then ask the origin.\<close>

definition cold_bytes ::
  "(string \<Rightarrow> 'w \<Rightarrow> bytes result \<times> 'w) \<Rightarrow> u64 \<Rightarrow> string \<Rightarrow> u64 \<Rightarrow> edge_cache \<Rightarrow> 'w
     \<Rightarrow> obtained \<times> edge_cache \<times> 'w" where
  "cold_bytes origin max_object cid now c w =
     (case cache_get cid now c of
        (Some b, c1) \<Rightarrow> (Got b True, c1, w)
      | (None, c1) \<Rightarrow>
          (case is_negative cid now c1 of
             (neg, c2) \<Rightarrow>
               if neg then (Absent, c2, w)
               else fetch_and_store origin max_object cid now c2 w))"

definition obtain_bytes ::
  "(string \<Rightarrow> 'w \<Rightarrow> bytes result \<times> 'w) \<Rightarrow> server_config \<Rightarrow> string \<Rightarrow> u64 \<Rightarrow> edge_cache \<Rightarrow> 'w
     \<Rightarrow> obtained \<times> edge_cache \<times> 'w" where
  "obtain_bytes origin cfg cid now c0 w =
     (case (if contains_fresh cid now c0 then (False, c0) else is_negative cid now c0) of
        (neg, c1) \<Rightarrow>
          if neg then (Absent, c1, w)
          else
            (let max_object = (if sc_max_object_bytes cfg = 0 then max_bytes c1 else sc_max_object_bytes cfg) in
             case cache_get cid now c1 of
               (Some b, c2) \<Rightarrow> (Got b True, c2, w)
             | (None, c2) \<Rightarrow> cold_bytes origin max_object cid now c2 w))"

definition serve_cid ::
  "verifier \<Rightarrow> (string \<Rightarrow> bytes option) \<Rightarrow> 'ch iam \<Rightarrow> (string \<Rightarrow> 'w \<Rightarrow> bytes result \<times> 'w)
     \<Rightarrow> server_config \<Rightarrow> http_request \<Rightarrow> string \<Rightarrow> bool \<Rightarrow> u64 \<Rightarrow> server_state \<Rightarrow> 'w
     \<Rightarrow> (http_response \<times> server_state \<times> 'w) option" where
  "serve_cid vf dec iam origin cfg req cid head_only now sv w =
     (let (acc, g1) = http_access vf dec iam cfg (sv_public sv) (sv_replay sv) req cid now;
          sv1 = sv\<lparr>sv_replay := g1\<rparr>
      in if acc = Denied then
           map_option (\<lambda>r. (to_http r, sv1, w)) (serve cid [] None Denied deny_cache now True)
         else if if_none_match_matches (header_str req ''if-none-match'') cid then
           Some (to_http (not_modified cid (sv_cache sv1) now), sv1, w)
         else
           (case obtain_bytes origin cfg cid now (sv_cache sv1) w of
              (Absent, c1, w1) \<Rightarrow> Some (to_http (not_found cid), sv1\<lparr>sv_cache := c1\<rparr>, w1)
            | (TooLarge, c1, w1) \<Rightarrow>
                Some (text_resp 413 ''object exceeds edge size limit'', sv1\<lparr>sv_cache := c1\<rparr>, w1)
            | (Got b hit, c1, w1) \<Rightarrow>
                map_option (\<lambda>r.
                    (let http = to_http r
                     in (if head_only then http\<lparr>hr_body := []\<rparr> else http, sv1\<lparr>sv_cache := c1\<rparr>, w1)))
                  (serve cid b (header_str req ''range'') acc c1 now hit)))"

section \<open>Routing\<close>

definition status_held :: "server_state \<Rightarrow> u64 \<Rightarrow> (string \<times> u64) list" where
  "status_held sv now =
     List.map_filter (\<lambda>cid.
        case byte_len cid (sv_cache sv) of
          None \<Rightarrow> None
        | Some sz \<Rightarrow> if contains_fresh cid now (sv_cache sv) then Some (cid, sz) else None)
       (sorted_list_of_set (pub_cids (sv_public sv)))"

definition http_handle ::
  "verifier \<Rightarrow> (string \<Rightarrow> bytes option) \<Rightarrow> 'ch iam \<Rightarrow> (string \<Rightarrow> 'w \<Rightarrow> bytes result \<times> 'w)
     \<Rightarrow> (cache_stats \<Rightarrow> string) \<Rightarrow> server_config \<Rightarrow> http_request \<Rightarrow> u64 \<Rightarrow> server_state \<Rightarrow> 'w
     \<Rightarrow> (http_response \<times> server_state \<times> 'w) option" where
  "http_handle vf dec iam origin ratio6 cfg req now sv w =
     (if hq_method req \<noteq> GET \<and> hq_method req \<noteq> HEAD
      then Some (text_resp 405 ''method not allowed'', sv, w)
      else if hq_path req = ''/health'' then Some (text_resp 200 ''ok'', sv, w)
      else if hq_path req = ''/status'' then
        Some (json_resp 200 (status_json ratio6 (stats (sv_cache sv)) (status_held sv now)), sv, w)
      else if hq_path req = ''/metrics'' then
        Some (\<lparr>hr_status = 200, hr_headers = [(''content-type'', ''text/plain; version=0.0.4'')],
               hr_body = str_bytes (metrics_prometheus (stats (sv_cache sv)) (object_stats (sv_cache sv)))\<rparr>,
              sv, w)
      else (case strip_prefix ''/cdn/'' (hq_path req) of
              None \<Rightarrow> Some (text_resp 404 ''not found'', sv, w)
            | Some rest \<Rightarrow>
                (let cid = trim_end_matches (CHR ''/'') rest in
                 if \<not> is_acceptable_cid_charset cid then Some (text_resp 404 ''not found'', sv, w)
                 else serve_cid vf dec iam origin cfg req cid (hq_method req = HEAD) now sv w)))"

section \<open>Access control\<close>

lemma requester_id_length: "length (requester_id dec req) = 32"
  by (auto simp: requester_id_def bind_eq_Some_conv split: option.splits)

lemma resolve_grant_sound:
  assumes "resolve_grant vf dec iam cid public edge_id roots keys requester prf q caps now \<noteq> GDenied"
  shows "cid \<in> pub_cids public \<or> keys \<noteq> [] \<and> verify_presign vf dec q cid keys now = Inr () \<or>
    verify_pop vf dec prf requester cid ABILITY_READ now = Inr () \<and> length caps \<le> unat MAX_CAPS_HEX_LEN \<and>
    (\<exists>chain. decode_chain iam caps = Some chain \<and>
       authorize iam edge_id roots now requester ABILITY_READ chain {} = Inr ())"
  using assms
  by (cases "verify_pop vf dec prf requester cid ABILITY_READ now")
     (auto simp: resolve_grant_def is_public_def not_less split: if_splits option.splits sum.splits)

lemma http_access_grant:
  assumes "fst (http_access vf dec iam cfg public g req cid now) \<noteq> Denied"
  shows "resolve_grant vf dec iam cid public (sc_edge_id cfg) (sc_roots cfg) (sc_presign_keys cfg)
    (requester_id dec req) (proof_header req) (case hq_query req of None \<Rightarrow> [] | Some q \<Rightarrow> q)
    (capability_hex req) now \<noteq> GDenied"
  using assms by (auto simp: http_access_def Let_def)

lemma to_http_denied:
  "to_http \<lparr>status = 403, headers = [(''Content-Type'', ''text/plain'')], body = BodyNone\<rparr>
     = \<lparr>hr_status = 403, hr_headers = [(''content-type'', ''text/plain'')], hr_body = []\<rparr>"
  by (simp add: to_http_def valid_header_name_def valid_header_value_def is_ascii_alphanumeric_def
      is_ascii_digit_def less_eq_char_def to_ascii_lower_def char_of_lower)

lemma serve_cid_denied:
  assumes "http_access vf dec iam cfg (sv_public sv) (sv_replay sv) req cid now = (Denied, g1)"
  shows "serve_cid vf dec iam origin cfg req cid head_only now sv w =
    Some (\<lparr>hr_status = 403, hr_headers = [(''content-type'', ''text/plain'')], hr_body = []\<rparr>,
      sv\<lparr>sv_replay := g1\<rparr>, w)"
  using assms by (simp add: serve_cid_def serve_def to_http_denied)

lemma to_http_status: "100 \<le> status r \<Longrightarrow> status r < 1000 \<Longrightarrow> hr_status (to_http r) = status r"
  by (simp add: to_http_def)

lemma to_http_body [simp]: "hr_body (to_http r) = body_bytes (body r)"
  by (simp add: to_http_def)

lemma serve_statuses:
  assumes "serve cid bs rh acc c now hit = Some r" "acc \<noteq> Denied"
  shows "status r = 200 \<or> status r = 206 \<or> status r = 416"
  using assms by (auto simp: serve_def Let_def split: range_outcome.splits option.splits)

lemma to_http_codes:
  "status r = 200 \<or> status r = 206 \<or> status r = 304 \<or> status r = 404 \<or> status r = 416 \<Longrightarrow>
     hr_status (to_http r) = status r"
  by (auto simp: to_http_def)

lemma not_denied_not_403:
  assumes "serve_cid vf dec iam origin cfg req cid head_only now sv w = Some (resp, sv1, w1)"
    and "http_access vf dec iam cfg (sv_public sv) (sv_replay sv) req cid now = (acc, g1)" "acc \<noteq> Denied"
  shows "hr_status resp \<noteq> 403"
proof (cases "if_none_match_matches (header_str req ''if-none-match'') cid")
  case True
  with assms show ?thesis by (auto simp: serve_cid_def to_http_def not_modified_def)
next
  case False
  obtain ob c1 v where ob: "obtain_bytes origin cfg cid now (sv_cache sv) w = (ob, c1, v)"
    by (cases "obtain_bytes origin cfg cid now (sv_cache sv) w")
  show ?thesis
  proof (cases ob)
    case (Got b hit)
    with False assms ob obtain r :: edge_response
      where r: "serve cid b (header_str req ''range'') acc c1 now hit = Some r"
      and "resp = (if head_only then (to_http r)\<lparr>hr_body := []\<rparr> else to_http r)"
      by (auto simp: serve_cid_def Let_def)
    then have "hr_status resp = hr_status (to_http r)" by simp
    with serve_statuses [OF r assms(3)] show ?thesis by (auto simp: to_http_codes)
  qed (use False assms ob in \<open>auto simp: serve_cid_def to_http_def not_found_def text_resp_def\<close>)
qed


section \<open>Proofs are single use over HTTP\<close>

text \<open>The replay guard after a sequence of requests, each with the content id and time it is for.\<close>

definition guard_after ::
  "verifier \<Rightarrow> (string \<Rightarrow> bytes option) \<Rightarrow> 'ch iam \<Rightarrow> server_config \<Rightarrow> public_set \<Rightarrow> replay_guard
     \<Rightarrow> (http_request \<times> string \<times> u64) list \<Rightarrow> replay_guard" where
  "guard_after vf dec iam cfg public =
     foldl (\<lambda>g (req, cid, now). snd (http_access vf dec iam cfg public g req cid now))"

definition pop_request_of :: "(string \<Rightarrow> bytes option) \<Rightarrow> http_request \<times> string \<times> u64 \<Rightarrow> pop_request" where
  "pop_request_of dec x = (case x of (req, cid, now) \<Rightarrow>
     \<lparr>rq_header = proof_header req, rq_who = requester_id dec req, rq_cid = cid,
      rq_ability = ABILITY_READ, rq_now = now\<rparr>)"

lemma guard_step:
  "snd (http_access vf dec iam cfg public g req cid now) = g \<or>
   snd (http_access vf dec iam cfg public g req cid now) = snd (pop_step vf dec g (pop_request_of dec (req, cid, now)))"
  by (auto simp: http_access_def Let_def pop_step_def pop_request_of_def split: prod.splits sum.splits)

lemma guard_after_pop:
  "\<exists>qs. length qs \<le> length xs \<and> (\<forall>q \<in> set qs. length (rq_who q) = 32) \<and>
     guard_after vf dec iam cfg public g xs = pop_run vf dec g qs"
proof (induction xs arbitrary: g)
  case Nil
  show ?case by (intro exI [of _ "[]"]) (simp add: guard_after_def pop_run_def)
next
  case (Cons x xs)
  obtain req cid now where x: "x = (req, cid, now)" by (cases x)
  let ?g = "snd (http_access vf dec iam cfg public g req cid now)"
  obtain qs where qs: "length qs \<le> length xs" "\<forall>q \<in> set qs. length (rq_who q) = 32"
    "guard_after vf dec iam cfg public ?g xs = pop_run vf dec ?g qs"
    using Cons.IH by blast
  let ?q = "pop_request_of dec x"
  have who: "length (rq_who ?q) = 32" by (simp add: pop_request_of_def x requester_id_length)
  consider "?g = g" | "?g = snd (pop_step vf dec g ?q)" using guard_step x by metis
  then show ?case
  proof cases
    case 1
    with qs x show ?thesis by (intro exI [of _ qs]) (simp add: guard_after_def)
  next
    case 2
    with qs x who show ?thesis
      by (intro exI [of _ "?q # qs"]) (simp add: guard_after_def pop_run_def)
  qed
qed

text \<open>Without a public id and without presign keys the proof path is the only one.\<close>

lemma http_access_private:
  assumes "sc_presign_keys cfg = []" "cid \<notin> pub_cids public"
  shows "fst (http_access vf dec iam cfg public g req cid now) = Denied \<or>
    (\<exists>g1. verify_pop_once vf dec g (proof_header req) (requester_id dec req) cid ABILITY_READ now = (Inr (), g1) \<and>
       http_access vf dec iam cfg public g req cid now = (Authorized, g1))"
proof -
  define gr where "gr = resolve_grant vf dec iam cid public (sc_edge_id cfg) (sc_roots cfg) (sc_presign_keys cfg)
    (requester_id dec req) (proof_header req) (case hq_query req of None \<Rightarrow> [] | Some q \<Rightarrow> q) (capability_hex req) now"
  have "gr = GPopAndCap \<or> gr = GDenied"
    using assms by (auto simp: gr_def resolve_grant_def is_public_def split: option.splits sum.splits)
  then show ?thesis
  proof
    assume "gr = GPopAndCap"
    then show ?thesis
      by (cases "verify_pop_once vf dec g (proof_header req) (requester_id dec req) cid ABILITY_READ now")
         (auto simp: http_access_def Let_def gr_def [symmetric] grant_access_def split: sum.splits)
  qed (simp add: http_access_def Let_def gr_def [symmetric])
qed

text \<open>
  A captured request cannot be replayed over HTTP. Once the edge has granted a private object on a
  proof, a request with the same node id and proof header is refused, for any object and at any later
  time, as long as fewer requests than the guard's capacity came in between, whoever sent them.
\<close>
theorem http_replay_denied:
  assumes "guard_ok g" and "sc_presign_keys cfg = []"
    and "cid \<notin> pub_cids public" and "cid' \<notin> pub_cids public"
    and "fst (http_access vf dec iam cfg public g req cid now) \<noteq> Denied"
    and "requester_id dec req' = requester_id dec req" and "proof_header req' = proof_header req"
    and "length later < unat (rg_capacity g)"
  shows "fst (http_access vf dec iam cfg public
    (guard_after vf dec iam cfg public (snd (http_access vf dec iam cfg public g req cid now)) later)
    req' cid' now') = Denied"
proof (rule ccontr)
  let ?who = "requester_id dec req"
  let ?g1 = "snd (http_access vf dec iam cfg public g req cid now)"
  let ?g2 = "guard_after vf dec iam cfg public ?g1 later"
  assume "fst (http_access vf dec iam cfg public ?g2 req' cid' now') \<noteq> Denied"
  with http_access_private [OF assms(2,4), of vf dec iam ?g2 req' now'] assms(6,7)
  have again: "fst (verify_pop_once vf dec ?g2 (proof_header req) ?who cid' ABILITY_READ now') = Inr ()"
    by fastforce
  have once: "verify_pop_once vf dec g (proof_header req) ?who cid ABILITY_READ now = (Inr (), ?g1)"
    using http_access_private [OF assms(2,3), of vf dec iam g req now] assms(5) by fastforce
  then obtain hdr where hdr: "proof_header req = Some hdr"
    by (cases "proof_header req") (auto simp: verify_pop_once_def verify_pop_def split: sum.splits)
  obtain qs where qs: "length qs \<le> length later" "\<forall>q \<in> set qs. length (rq_who q) = 32"
    "?g2 = pop_run vf dec ?g1 qs"
    using guard_after_pop by blast
  have "fst (verify_pop_once vf dec (pop_run vf dec ?g1 qs) (Some hdr) ?who cid' ABILITY_READ now') \<noteq> Inr ()"
    by (rule single_use [OF assms(1) requester_id_length qs(2)]) (use once hdr qs(1) assms(8) in simp_all)
  with again hdr qs(3) show False by simp
qed

section \<open>What is served\<close>

definition verifies_origin :: "(string \<Rightarrow> 'w \<Rightarrow> bytes result \<times> 'w) \<Rightarrow> (string \<Rightarrow> bytes) \<Rightarrow> bool" where
  "verifies_origin origin obj \<longleftrightarrow> (\<forall>cid w b w'. origin cid w = (Inr b, w') \<longrightarrow> b = obj cid)"

lemma entries_note [simp]: "entries (note_absent cid now c) = entries c"
  by (simp add: note_absent_def Let_def)

lemma honest_note_absent: "honest obj c \<Longrightarrow> honest obj (note_absent cid now c)"
  by (simp add: cache.good_def cache_ok_note content_def)

lemma honest_negative: "honest obj c \<Longrightarrow> is_negative cid now c = (neg, c1) \<Longrightarrow> honest obj c1"
  using cache_ok_negative [of c cid now]
  by (auto simp: cache.good_def content_def is_negative_def split: option.splits if_splits)

lemma honest_sound: "honest obj c \<Longrightarrow> cache_get cid now c = (Some b, c1) \<Longrightarrow> b = obj cid"
  by (drule (1) cache.good_lookup)

definition served_right :: "(string \<Rightarrow> bytes) \<Rightarrow> string \<Rightarrow> edge_cache \<Rightarrow> obtained \<Rightarrow> bool" where
  "served_right obj cid c ob \<longleftrightarrow> honest obj c \<and> (\<forall>b hit. ob = Got b hit \<longrightarrow> b = obj cid)"

lemma fetch_and_store_right:
  assumes "verifies_origin origin obj" "honest obj c" "fetch_and_store origin m cid now c w = (ob, c1, w1)"
  shows "served_right obj cid c1 ob"
proof -
  obtain x w' where o: "origin cid w = (x, w')" by fastforce
  show ?thesis
  proof (cases x)
    case (Inl e)
    with o assms(3) honest_note_absent [OF assms(2), of cid now] show ?thesis
      by (auto simp: fetch_and_store_def served_right_def)
  next
    case (Inr b)
    with o assms(1) have "b = obj cid" unfolding verifies_origin_def by blast
    with Inr o assms(2,3) honest_insert [OF assms(2), of b cid] show ?thesis
      by (auto simp: fetch_and_store_def served_right_def cache_insert_def split: if_splits)
  qed
qed

lemma cold_bytes_right:
  assumes "verifies_origin origin obj" "honest obj c" "cold_bytes origin m cid now c w = (ob, c1, w1)"
  shows "served_right obj cid c1 ob"
proof -
  obtain hot ca where g: "cache_get cid now c = (hot, ca)" by fastforce
  have ha: "honest obj ca" by (rule cache.good_after_lookup [OF assms(2) g])
  obtain neg cb where n: "is_negative cid now ca = (neg, cb)" by fastforce
  have hb: "honest obj cb" by (rule honest_negative [OF ha n])
  show ?thesis
  proof (cases hot)
    case (Some b)
    with g have "b = obj cid" using honest_sound [OF assms(2)] by blast
    with Some g assms(3) ha show ?thesis by (auto simp: cold_bytes_def served_right_def)
  next
    case None
    with g n assms(3) hb fetch_and_store_right [OF assms(1) hb, of m cid now w] show ?thesis
      by (auto simp: cold_bytes_def served_right_def split: if_splits)
  qed
qed

lemma obtain_bytes_right:
  assumes "verifies_origin origin obj" "honest obj c0"
    and "obtain_bytes origin cfg cid now c0 w = (ob, c1, w1)"
  shows "served_right obj cid c1 ob"
proof -
  obtain neg ca where n: "(if contains_fresh cid now c0 then (False, c0) else is_negative cid now c0) = (neg, ca)"
    by fastforce
  then have ha: "honest obj ca" using assms(2) honest_negative [OF assms(2), of cid now neg ca]
    by (auto split: if_splits)
  obtain hot cb where g: "cache_get cid now ca = (hot, cb)" by fastforce
  have hb: "honest obj cb" by (rule cache.good_after_lookup [OF ha g])
  show ?thesis
  proof (cases neg)
    case True
    with n assms(3) ha show ?thesis by (simp add: obtain_bytes_def served_right_def)
  next
    case False
    show ?thesis
    proof (cases hot)
      case (Some b)
      with g have "b = obj cid" using honest_sound [OF ha] by blast
      with Some False n g assms(3) hb show ?thesis by (auto simp: obtain_bytes_def served_right_def)
    next
      case None
      with False n g assms(3) cold_bytes_right [OF assms(1) hb] show ?thesis
        by (auto simp: obtain_bytes_def Let_def)
    qed
  qed
qed

text \<open>The right body for a status: the object, the resolved positions of it, or nothing of it.\<close>

definition right_body :: "bytes \<Rightarrow> string option \<Rightarrow> bool \<Rightarrow> http_response \<Rightarrow> bool" where
  "right_body object range_header head_only resp \<longleftrightarrow>
     (if hr_status resp = 200 then hr_body resp = (if head_only then [] else object)
      else if hr_status resp = 206 then
        (\<exists>r. parse_range range_header (len64 object) = Partial r \<and>
           hr_body resp = (if head_only then [] else nths object {unat (br_start r)..unat (br_end r)}))
      else hr_body resp = [] \<or> hr_body resp = str_bytes ''object exceeds edge size limit'')"

lemma right_body_served:
  assumes "vec_ok object" "acc \<noteq> Denied"
  shows "\<exists>r. serve cid object rh acc c now hit = Some r \<and>
    right_body object rh head_only (if head_only then (to_http r)\<lparr>hr_body := []\<rparr> else to_http r)"
proof (cases "parse_range rh (len64 object)")
  case (Partial r)
  with serve_Partial [OF assms(1) Partial assms(2)] show ?thesis
    by (simp add: to_http_def right_body_def)
qed (use assms(2) in \<open>simp_all add: serve_def Let_def to_http_def right_body_def\<close>)

lemma serve_cid_right:
  assumes "verifies_origin origin obj" and "honest obj (sv_cache sv)" and "vec_ok (obj cid)"
  shows "\<exists>resp sv1 w1. serve_cid vf dec iam origin cfg req cid head_only now sv w = Some (resp, sv1, w1) \<and>
    honest obj (sv_cache sv1) \<and> right_body (obj cid) (header_str req ''range'') head_only resp"
proof -
  obtain acc g1 where a: "http_access vf dec iam cfg (sv_public sv) (sv_replay sv) req cid now = (acc, g1)"
    by (cases "http_access vf dec iam cfg (sv_public sv) (sv_replay sv) req cid now")
  obtain ob c1 v where ob: "obtain_bytes origin cfg cid now (sv_cache sv) w = (ob, c1, v)"
    by (cases "obtain_bytes origin cfg cid now (sv_cache sv) w")
  from obtain_bytes_right [OF assms(1,2) ob]
  have hon: "honest obj c1" and got: "\<And>b hit. ob = Got b hit \<Longrightarrow> b = obj cid"
    by (auto simp: served_right_def)
  consider "acc = Denied" | "acc \<noteq> Denied" "if_none_match_matches (header_str req ''if-none-match'') cid"
    | "acc \<noteq> Denied" "\<not> if_none_match_matches (header_str req ''if-none-match'') cid" by blast
  then show ?thesis
  proof cases
    case 1
    with serve_cid_denied [of vf dec iam cfg sv req cid now g1 origin head_only w] a assms(2)
    show ?thesis by (simp add: right_body_def)
  next
    case 2
    with a assms(2) show ?thesis
      by (simp add: serve_cid_def to_http_def not_modified_def right_body_def)
  next
    case 3
    show ?thesis
    proof (cases ob)
      case (Got b hit)
      obtain r where r: "serve cid (obj cid) (header_str req ''range'') acc c1 now hit = Some r"
        "right_body (obj cid) (header_str req ''range'') head_only
           (if head_only then (to_http r)\<lparr>hr_body := []\<rparr> else to_http r)"
        using right_body_served [OF assms(3) 3(1)] by blast
      have "serve_cid vf dec iam origin cfg req cid head_only now sv w =
          Some (if head_only then (to_http r)\<lparr>hr_body := []\<rparr> else to_http r,
            sv\<lparr>sv_replay := g1, sv_cache := c1\<rparr>, v)"
        using 3 a ob Got got [OF Got] r(1) by (simp add: serve_cid_def Let_def)
      with r(2) hon show ?thesis by (simp split del: if_split)
    qed (use 3 a ob hon in
        \<open>simp_all add: serve_cid_def to_http_def not_found_def text_resp_def right_body_def\<close>)
  qed
qed

section \<open>A concrete request\<close>

lemma header_str_plain:
  "map_of (hq_headers req) name = Some v \<Longrightarrow> \<forall>c \<in> set v. plain c \<Longrightarrow> header_str req name = Some v"
  by (auto simp: header_str_def plain_def list_all_iff)

lemma ref_encode_plain: "\<forall>c \<in> set (ref_encode bs). plain c"
  using ref_hex_codec hex_digit_plain unfolding hex_codec_def list_all_iff by blast

text \<open>A request for \<open>cidA\<close> with the sample proof and an empty chain, on an edge that trusts it.\<close>

definition demo_request :: http_request where
  "demo_request =
     \<lparr>hq_method = GET, hq_path = ''/cdn/cidA'', hq_query = None,
      hq_headers = [(''x-ce-node-id'', ref_encode (replicate 32 1)), (''x-ce-proof'', sample_proof)]\<rparr>"

definition demo_server_config :: server_config where
  "demo_server_config =
     \<lparr>sc_edge_id = replicate 32 9, sc_roots = [], sc_presign_keys = [], sc_max_object_bytes = 0\<rparr>"

definition demo_server :: server_state where
  "demo_server = \<lparr>sv_cache = cache_new 100 60, sv_public = public_new, sv_replay = guard_new 8\<rparr>"

definition demo_origin :: "string \<Rightarrow> nat \<Rightarrow> bytes result \<times> nat" where
  "demo_origin cid w = (Inr demo_object, w + 1)"

lemma demo_requester: "requester_id ref_decode demo_request = replicate 32 1"
proof -
  have "header_str demo_request ''x-ce-node-id'' = Some (ref_encode (replicate 32 1))"
    by (rule header_str_plain) (simp_all add: demo_request_def ref_encode_plain)
  then show ?thesis
    by (simp add: requester_id_def trim_hex_encode [OF ref_hex_codec] demo_decode to_array_def)
qed

lemma demo_proof_header: "proof_header demo_request = Some sample_proof"
proof -
  have "\<forall>c \<in> set sample_proof. plain c"
    unfolding sample_proof_def by (rule minted_plain [OF ref_hex_codec])
  then have "header_str demo_request ''x-ce-proof'' = Some sample_proof"
    by (intro header_str_plain) (simp_all add: demo_request_def)
  with sample_parse show ?thesis by (simp add: proof_header_def)
qed

lemma demo_granted:
  "fst (http_access one_proof_verify ref_decode demo_iam demo_server_config public_new (guard_new 8)
     demo_request ''cidA'' 900) = Authorized"
proof -
  have ok: "one_proof_verify (replicate 32 1) (challenge (replicate 32 1) ''cidA'' ''cdn:read'' (replicate 16 2) 1000) toy_sig"
    by (simp add: one_proof_verify_def toy_verify_def)
  note v = sample_verifies [where vf = one_proof_verify, OF ok]
  have "capability_hex demo_request = []"
    by (simp add: capability_hex_def header_str_def demo_request_def)
  then have "resolve_grant one_proof_verify ref_decode demo_iam ''cidA'' public_new (replicate 32 9) [] []
      (replicate 32 1) (Some sample_proof) q (capability_hex demo_request) 900 = GPopAndCap" for q
    using v(1) by (simp add: resolve_grant_def is_public_def public_new_def demo_iam_def ABILITY_READ_def)
  with v(2) show ?thesis
    by (cases "verify_pop_once one_proof_verify ref_decode (guard_new 8) (Some sample_proof)
          (replicate 32 1) ''cidA'' ''cdn:read'' 900")
       (simp add: http_access_def Let_def demo_requester demo_proof_header demo_server_config_def
         grant_access_def ABILITY_READ_def)
qed

abbreviation demo_answer :: "(http_response \<times> server_state \<times> nat) option" where
  "demo_answer \<equiv> serve_cid one_proof_verify ref_decode demo_iam demo_origin demo_server_config demo_request
     ''cidA'' False 900 demo_server 0"

lemma demo_verifies_origin: "verifies_origin demo_origin (\<lambda>cid. demo_object)"
  by (simp add: verifies_origin_def demo_origin_def)

lemma demo_honest: "honest (\<lambda>cid. demo_object) (sv_cache demo_server)"
  by (simp add: demo_server_def honest_new)

lemma demo_answer_Some: "demo_answer = Some (fst (the demo_answer), fst (snd (the demo_answer)), snd (snd (the demo_answer)))"
proof -
  have "vec_ok demo_object" by (simp add: vec_ok_def demo_object_def)
  from serve_cid_right [where vf = one_proof_verify and dec = ref_decode and iam = demo_iam
      and cfg = demo_server_config and req = demo_request and head_only = False and now = 900 and w = 0
      and cid = "''cidA''", OF demo_verifies_origin demo_honest this]
  show ?thesis by auto
qed


lemma http_replay_denied_witness:
  "fst (http_access one_proof_verify ref_decode demo_iam demo_server_config public_new
    (guard_after one_proof_verify ref_decode demo_iam demo_server_config public_new
       (snd (http_access one_proof_verify ref_decode demo_iam demo_server_config public_new (guard_new 8)
          demo_request ''cidA'' 900))
       [(demo_request\<lparr>hq_headers := []\<rparr>, ''cidB'', 901)])
    demo_request ''cidA'' 902) = Denied"
proof (rule http_replay_denied)
  show "fst (http_access one_proof_verify ref_decode demo_iam demo_server_config public_new (guard_new 8)
      demo_request ''cidA'' 900) \<noteq> Denied"
    by (simp add: demo_granted)
  show "guard_ok (guard_new 8)" by (rule guard_new_ok)
qed (simp_all add: demo_server_config_def public_new_def guard_new_def max_def word_le_nat_alt)

section \<open>Status\<close>

text \<open>
  The status page lists what is public and fresh, and nothing else: a content id appears, with its
  size, exactly when it is public and a read at that moment would be served from the cache; private
  objects are never named.
\<close>
theorem status_lists_public_fresh:
  assumes "finite (pub_cids (sv_public sv))"
  shows "set (status_held sv now) =
    {(cid, n). cid \<in> pub_cids (sv_public sv) \<and>
       (\<exists>bs. fst (cache_get cid now (sv_cache sv)) = Some bs \<and> n = len64 bs)}"
proof -
  have "set (List.map_filter f xs) = {y. \<exists>x \<in> set xs. f x = Some y}" for f :: "string \<Rightarrow> (string \<times> u64) option" and xs
    by (induction xs) (auto split: option.splits)
  moreover have "(case byte_len k (sv_cache sv) of None \<Rightarrow> None
      | Some sz \<Rightarrow> if contains_fresh k now (sv_cache sv) then Some (k, sz) else None) = Some (cid, n)
    \<longleftrightarrow> k = cid \<and> (\<exists>bs. fst (cache_get cid now (sv_cache sv)) = Some bs \<and> n = len64 bs)" for k cid n
    by (auto simp: get_result byte_len_def contains_fresh_def split: option.splits)
  ultimately show ?thesis using assms by (simp add: status_held_def set_eq_iff)
qed

lemma status_lists_public_fresh_witness:
  "set (status_held (demo_server\<lparr>sv_public := allow_public ''cidA'' public_new\<rparr>) 5) =
    {(cid, n). cid \<in> pub_cids (sv_public (demo_server\<lparr>sv_public := allow_public ''cidA'' public_new\<rparr>)) \<and>
       (\<exists>bs. fst (cache_get cid 5 (sv_cache (demo_server\<lparr>sv_public := allow_public ''cidA'' public_new\<rparr>))) = Some bs
          \<and> n = len64 bs)}"
  by (rule status_lists_public_fresh) (simp add: allow_public_def public_new_def)

text \<open>
  A wildcard \<open>If-None-Match\<close> is answered 304 for a public id whether or not the edge or the origin has
  an object under it.
\<close>

lemma wildcard_matches: "if_none_match_matches (Some ''*'') cid"
  by (simp add: if_none_match_matches_def trim_all_plain strip_prefix_def)

end
