(* ===== verification/Setup.thy ===== *)
theory Setup
  imports Hex
begin

text \<open>
  How a process finds its keys: \<open>load_roots\<close> of \<open>src/lib.rs\<close> (the capability roots an edge accepts),
  \<open>resolve\<close> and \<open>caps_file\<close> of \<open>src/caps.rs\<close> (the chain a client presents), and \<open>parse_node_ids\<close> of
  \<open>src/main.rs\<close>. The environment and the file system are functions: a variable that is unset, or a
  file that cannot be read as UTF-8, is \<open>None\<close>.
\<close>

section \<open>Paths and lines\<close>

text \<open>\<open>PathBuf::join\<close> of a relative name.\<close>

definition path_join :: "string \<Rightarrow> string \<Rightarrow> string" where
  "path_join d f = (if d = [] then f else if last d = CHR ''/'' then d @ f else d @ ''/'' @ f)"

text \<open>\<open>str::lines\<close>: a line that ends in a line feed also loses one carriage return.\<close>

definition strip_cr :: "string \<Rightarrow> string" where
  "strip_cr l = (if l \<noteq> [] \<and> last l = CHR 0x0D then butlast l else l)"

definition rust_lines :: "string \<Rightarrow> string list" where
  "rust_lines s =
     (let ps = split_char (CHR 0x0A) s
      in map strip_cr (butlast ps) @ (if last ps = [] then [] else [last ps]))"

section \<open>Roots\<close>

definition roots_path :: "(string \<Rightarrow> string option) \<Rightarrow> string option \<Rightarrow> string" where
  "roots_path env data_dir =
     (case env ''CE_CDN_ROOTS'' of
        Some p \<Rightarrow> p
      | None \<Rightarrow>
          (case env ''CE_DATA_DIR'' of
             Some d \<Rightarrow> path_join d ''roots''
           | None \<Rightarrow> (case data_dir of Some d \<Rightarrow> path_join d ''roots'' | None \<Rightarrow> ''roots'')))"

definition uncomment :: "string \<Rightarrow> string" where
  "uncomment l = trim (hd (split_char (CHR ''#'') l))"

definition parse_roots :: "(string \<Rightarrow> bytes option) \<Rightarrow> string \<Rightarrow> node_id list" where
  "parse_roots dec text =
     List.map_filter (\<lambda>h. Option.bind (dec h) (to_array 32))
       (filter (\<lambda>l. l \<noteq> []) (map uncomment (rust_lines text)))"

definition load_roots ::
  "(string \<Rightarrow> bytes option) \<Rightarrow> (string \<Rightarrow> string option) \<Rightarrow> string option
     \<Rightarrow> (string \<Rightarrow> string option) \<Rightarrow> node_id list" where
  "load_roots dec env data_dir read =
     (case read (roots_path env data_dir) of None \<Rightarrow> [] | Some text \<Rightarrow> parse_roots dec text)"

section \<open>The capability chain of a client\<close>

definition caps_file :: "(string \<Rightarrow> string option) \<Rightarrow> string option \<Rightarrow> string option" where
  "caps_file env config_dir =
     (case env ''CE_CDN_DIR'' of
        Some d \<Rightarrow> Some (path_join d ''caps'')
      | None \<Rightarrow> map_option (\<lambda>p. path_join p ''caps'') config_dir)"

definition nonempty :: "string option \<Rightarrow> string option" where
  "nonempty s = (case map_option trim s of Some c \<Rightarrow> if c \<noteq> [] then Some c else None | None \<Rightarrow> None)"

definition caps_resolve ::
  "string option \<Rightarrow> (string \<Rightarrow> string option) \<Rightarrow> string option \<Rightarrow> (string \<Rightarrow> string option) \<Rightarrow> string" where
  "caps_resolve explicit env config_dir read =
     (case nonempty explicit of
        Some c \<Rightarrow> c
      | None \<Rightarrow>
          (case nonempty (env ''CE_CDN_CAPS'') of
             Some c \<Rightarrow> c
           | None \<Rightarrow>
               (case nonempty (Option.bind (caps_file env config_dir) read) of
                  Some c \<Rightarrow> c
                | None \<Rightarrow> [])))"

section \<open>Node ids on the command line\<close>

text \<open>\<open>collect\<close> into a \<open>Result\<close>: the first malformed entry is the error.\<close>

fun parse_node_ids :: "(string \<Rightarrow> bytes option) \<Rightarrow> string list \<Rightarrow> node_id list result" where
  "parse_node_ids dec [] = Inr []"
| "parse_node_ids dec (h # hs) =
     (case Option.bind (dec (trim h)) (to_array 32) of
        None \<Rightarrow> Inl ([CHR 0x27] @ h @ [CHR 0x27] @ '' is not a 64-hex node id'')
      | Some i \<Rightarrow> map_sum id (\<lambda>is. i # is) (parse_node_ids dec hs))"

section \<open>Reading back a roots file\<close>

lemma split_char_line:
  "d \<notin> set l \<Longrightarrow> split_char d (l @ d # rest) = l # split_char d rest"
  by (induction l) auto

lemma split_char_ne [simp]: "split_char d s \<noteq> []"
  by (induction s) (auto split: list.split)

lemma rust_lines_line:
  "CHR 0x0A \<notin> set l \<Longrightarrow> rust_lines (l @ CHR 0x0A # rest) = strip_cr l # rust_lines rest"
  by (simp add: rust_lines_def Let_def split_char_line)

lemma rust_lines_Nil: "rust_lines [] = []"
  by (simp add: rust_lines_def)

lemma trim_trailing_space:
  assumes "\<forall>c \<in> set s. plain c"
  shows "trim (s @ '' '') = s"
proof (cases "s = []")
  case True
  then show ?thesis by (simp add: trim_space)
next
  case False
  then have "strip_front ws_encodings (s @ '' '') = s @ '' ''"
    using assms ws_not_plain by (intro strip_front_plain) auto
  moreover have "strip_front (map rev ws_encodings) (CHR '' '' # rev s) = strip_front (map rev ws_encodings) (rev s)"
    by (subst strip_front.simps) (simp add: ws_encodings_def)
  moreover have "strip_front (map rev ws_encodings) (rev s) = rev s"
    using False assms ws_not_plain by (intro strip_front_plain) (auto simp: hd_rev)
  ultimately show ?thesis by (simp add: trim_def)
qed

text \<open>A line of a roots file: the key in hexadecimal, then a comment.\<close>

definition roots_line :: "(bytes \<Rightarrow> string) \<Rightarrow> node_id \<times> string \<Rightarrow> string" where
  "roots_line enc kn = enc (fst kn) @ '' # '' @ snd kn @ [CHR 0x0A]"

lemma hex_digit_line: "hex_digit c \<Longrightarrow> plain c \<and> c \<noteq> CHR ''#'' \<and> c \<noteq> CHR 0x0A"
  by (auto simp: hex_digit_def)

lemma hex_encode_line:
  assumes "hex_codec enc dec"
  shows "\<forall>c \<in> set (enc k). plain c \<and> c \<noteq> CHR ''#'' \<and> c \<noteq> CHR 0x0A"
proof -
  have "list_all hex_digit (enc k)" using assms by (simp add: hex_codec_def)
  then show ?thesis using hex_digit_line by (simp add: list_all_iff)
qed

lemma strip_cr_comment: "\<exists>r. strip_cr (a @ CHR ''#'' # cm) = a @ CHR ''#'' # r"
  by (cases cm rule: rev_cases) (simp_all add: strip_cr_def butlast_append)

lemma uncomment_line:
  assumes "hex_codec enc dec"
  shows "uncomment (strip_cr (enc k @ '' # '' @ cm)) = enc k"
proof -
  have digits: "\<forall>c \<in> set (enc k). plain c \<and> c \<noteq> CHR ''#''"
    using hex_encode_line [OF assms] by blast
  obtain r where r: "strip_cr (enc k @ '' # '' @ cm) = (enc k @ '' '') @ CHR ''#'' # r"
    using strip_cr_comment [of "enc k @ '' ''" "CHR '' '' # cm"] by auto
  have "split_char (CHR ''#'') ((enc k @ '' '') @ CHR ''#'' # r) = (enc k @ '' '') # split_char (CHR ''#'') r"
    by (rule split_char_line) (use digits in auto)
  then have "uncomment (strip_cr (enc k @ '' # '' @ cm)) = trim (enc k @ '' '')"
    unfolding r uncomment_def by simp
  also have "\<dots> = enc k" using digits by (intro trim_trailing_space) auto
  finally show ?thesis by simp
qed

text \<open>
  A roots file gives back the keys written into it. For any list of 32-byte keys, each written in
  hexadecimal on a line of its own with a comment after it, \<open>load_roots\<close> returns exactly those keys
  in that order, wherever the environment says the file is.
\<close>
theorem roots_roundtrip:
  assumes "hex_codec enc dec" and "\<forall>kn \<in> set kns. length (fst kn) = 32 \<and> CHR 0x0A \<notin> set (snd kn)"
    and "read (roots_path env data_dir) = Some (concat (map (roots_line enc) kns))"
  shows "load_roots dec env data_dir read = map fst kns"
proof -
  have "parse_roots dec (concat (map (roots_line enc) kns)) = map fst kns"
    using assms(2)
  proof (induction kns)
    case Nil
    show ?case by (simp add: parse_roots_def rust_lines_Nil List.map_filter_def)
  next
    case (Cons kn kns)
    have lf: "CHR 0x0A \<notin> set (enc (fst kn) @ '' # '' @ snd kn)"
      using hex_encode_line [OF assms(1), of "fst kn"] Cons.prems by auto
    have "enc (fst kn) \<noteq> []"
      using length_hex_encode [OF assms(1), of "fst kn"] Cons.prems by auto
    then have "parse_roots dec ((enc (fst kn) @ '' # '' @ snd kn) @ CHR 0x0A # rest) = fst kn # parse_roots dec rest" for rest
      using Cons.prems uncomment_line [OF assms(1), of "fst kn" "snd kn"] hex_decode_encode [OF assms(1), of "fst kn"]
      unfolding parse_roots_def rust_lines_line [OF lf] by (simp add: List.map_filter_def to_array_def)
    moreover have "concat (map (roots_line enc) (kn # kns))
        = (enc (fst kn) @ '' # '' @ snd kn) @ CHR 0x0A # concat (map (roots_line enc) kns)"
      by (simp add: roots_line_def)
    ultimately show ?case using Cons by simp
  qed
  with assms(3) show ?thesis by (simp add: load_roots_def)
qed

lemma roots_roundtrip_witness:
  "load_roots ref_decode (\<lambda>v. if v = ''CE_DATA_DIR'' then Some ''/var/ce'' else None) None
     (\<lambda>p. if p = ''/var/ce/roots''
          then Some (concat (map (roots_line ref_encode) [(replicate 32 1, ''org''), (replicate 32 (2 :: u8), ''fleet'')]))
          else None)
   = map fst [(replicate 32 1, ''org''), (replicate 32 2, ''fleet'')]"
  by (rule roots_roundtrip [OF ref_hex_codec]) (simp_all add: roots_path_def path_join_def)

end
