(* ===== verification/Http_Edge.thy ===== *)
theory Http_Edge
  imports Server Setup
begin

text \<open>
  Starting an edge: \<open>ServerState::new\<close> and its builders, the origin of a CE node and the accept loop of
  \<open>src/server.rs\<close>, and \<open>cmd_serve\<close> of \<open>src/main.rs\<close>, which runs the mesh host or the HTTP front-end. The
  loop takes requests one after the other; what concurrent tasks share beyond the caches and guards of
  \<open>server_state\<close>, the single-flight locks, is modelled in \<open>Single_Flight\<close> and \<open>Inflight\<close>. The listener,
  connections and the text of HTTP are \<open>hyper\<close>'s and the operating system's.
\<close>

section \<open>Setting up\<close>

definition ce_origin :: "'w sdk \<Rightarrow> string \<Rightarrow> 'w \<Rightarrow> bytes result \<times> 'w" where
  "ce_origin ce cid w = with_context ''origin fetch'' (get_object ce cid w)"

definition server_new :: "edge_state \<Rightarrow> node_id \<Rightarrow> node_id list \<Rightarrow> server_config \<times> server_state" where
  "server_new edge edge_id roots =
     (\<lparr>sc_edge_id = edge_id, sc_roots = roots, sc_presign_keys = [], sc_max_object_bytes = 0\<rparr>,
      \<lparr>sv_cache = es_cache edge, sv_public = es_public edge, sv_replay = guard_new REPLAY_GUARD_CAPACITY\<rparr>)"

definition with_presign_keys :: "node_id list \<Rightarrow> server_config \<times> server_state \<Rightarrow> server_config \<times> server_state" where
  "with_presign_keys keys s = (fst s\<lparr>sc_presign_keys := keys\<rparr>, snd s)"

definition with_max_object_bytes :: "u64 \<Rightarrow> server_config \<times> server_state \<Rightarrow> server_config \<times> server_state" where
  "with_max_object_bytes m s = (fst s\<lparr>sc_max_object_bytes := m\<rparr>, snd s)"

section \<open>The accept loop\<close>

text \<open>Each request comes with the time at which it is handled; \<open>None\<close> says that a handler panicked.\<close>

fun http_run ::
  "verifier \<Rightarrow> (string \<Rightarrow> bytes option) \<Rightarrow> 'ch iam \<Rightarrow> (string \<Rightarrow> 'w \<Rightarrow> bytes result \<times> 'w)
     \<Rightarrow> (cache_stats \<Rightarrow> string) \<Rightarrow> server_config \<Rightarrow> (u64 \<times> http_request) list \<Rightarrow> server_state \<Rightarrow> 'w
     \<Rightarrow> (http_response list \<times> server_state \<times> 'w) option" where
  "http_run vf dec iam origin hit_ratio_text cfg [] sv w = Some ([], sv, w)"
| "http_run vf dec iam origin hit_ratio_text cfg ((now, req) # reqs) sv w =
     (case http_handle vf dec iam origin hit_ratio_text cfg req now sv w of
        None \<Rightarrow> None
      | Some (resp, sv1, w1) \<Rightarrow>
          map_option (\<lambda>(resps, s). (resp # resps, s))
            (http_run vf dec iam origin hit_ratio_text cfg reqs sv1 w1))"

section \<open>The serve command\<close>

datatype 'w served =
    Over_Mesh "(u64 \<times> bytes) list \<times> seen_tokens \<times> edge_state \<times> 'w"
  | Over_Http "http_response list \<times> server_state \<times> 'w"

text \<open>
  \<open>edge_hex\<close> is what the node says its id is, \<open>roots\<close> the result of \<open>load_roots\<close>. Without an HTTP address
  the rounds of the mesh host are run, otherwise the HTTP requests.
\<close>

definition cmd_serve ::
  "verifier \<Rightarrow> 'w sdk \<Rightarrow> codecs \<Rightarrow> 'ch iam \<Rightarrow> (cache_stats \<Rightarrow> string) \<Rightarrow> string result \<Rightarrow> node_id list
     \<Rightarrow> u64 \<Rightarrow> u64 \<Rightarrow> string list \<Rightarrow> bool \<Rightarrow> string list
     \<Rightarrow> round_input list \<Rightarrow> (u64 \<times> http_request) list \<Rightarrow> 'w \<Rightarrow> (string + 'w served) option" where
  "cmd_serve vf ce cod iam hit_ratio_text edge_hex roots max_b ttl public_cids http presign_keys_hex rounds reqs w =
     (if \<not> http then
        map_option (map_sum id Over_Mesh) (host_serve ce cod iam edge_hex roots max_b ttl public_cids rounds w)
      else
        (case edge_hex of
           Inl e \<Rightarrow> Some (Inl e)
         | Inr h \<Rightarrow>
             (case Option.bind (hex_dec cod h) (to_array 32) of
                None \<Rightarrow> Some (Inl ''node returned a malformed node id'')
              | Some edge_id \<Rightarrow>
                  (case parse_node_ids (hex_dec cod) presign_keys_hex of
                     Inl e \<Rightarrow> Some (Inl e)
                   | Inr presign_keys \<Rightarrow>
                       (let edge0 = edge_state_new max_b ttl;
                            edge = edge0\<lparr>es_public := fold allow_public public_cids (es_public edge0)\<rparr>;
                            (cfg, sv) = with_max_object_bytes max_b
                              (with_presign_keys presign_keys (server_new edge edge_id roots))
                        in map_option (\<lambda>x. Inr (Over_Http x))
                             (http_run vf (hex_dec cod) iam (ce_origin ce) hit_ratio_text cfg reqs sv w))))))"

section \<open>What a request asks for and what it must prove\<close>

text \<open>The content id a request names, \<open>None\<close> if it is not a request for content.\<close>

definition http_target :: "http_request \<Rightarrow> string option" where
  "http_target req =
     (if hq_method req \<noteq> GET \<and> hq_method req \<noteq> HEAD then None
      else (case strip_prefix ''/cdn/'' (hq_path req) of
              None \<Rightarrow> None
            | Some rest \<Rightarrow>
                (let cid = trim_end_matches (CHR ''/'') rest in
                 if is_acceptable_cid_charset cid then Some cid else None)))"

lemma http_handle_target:
  assumes "http_target req = Some cid"
  shows "http_handle vf dec iam origin hit_ratio_text cfg req now sv w
    = serve_cid vf dec iam origin cfg req cid (hq_method req = HEAD) now sv w"
proof -
  have "strip_prefix ''/cdn/'' (hq_path req) \<noteq> None" using assms by (auto simp: http_target_def split: if_splits option.splits)
  then have "hq_path req \<noteq> ''/health''" "hq_path req \<noteq> ''/status''" "hq_path req \<noteq> ''/metrics''"
    by (auto simp: strip_prefix_def)
  with assms show ?thesis
    by (auto simp: http_target_def http_handle_def Let_def split: if_splits option.splits)
qed

lemma http_handle_other:
  assumes "http_target req = None"
  shows "\<exists>resp. http_handle vf dec iam origin hit_ratio_text cfg req now sv w = Some (resp, sv, w) \<and>
    (hr_status resp = 405 \<or> hr_status resp = 404 \<or>
     hr_status resp = 200 \<and> hq_path req \<in> {''/health'', ''/status'', ''/metrics''})"
  using assms
  by (auto simp: http_target_def http_handle_def Let_def text_resp_def json_resp_def split: option.splits if_splits)

text \<open>What the edge may be asked to accept: a public id, a trusted link, or a proof with a chain.\<close>

definition access_shown ::
  "verifier \<Rightarrow> (string \<Rightarrow> bytes option) \<Rightarrow> 'ch iam \<Rightarrow> server_config \<Rightarrow> string set \<Rightarrow> http_request \<Rightarrow> string \<Rightarrow> u64
     \<Rightarrow> bool" where
  "access_shown vf dec iam cfg public req cid now \<longleftrightarrow>
     cid \<in> public \<or>
     sc_presign_keys cfg \<noteq> [] \<and>
       verify_presign vf dec (case hq_query req of None \<Rightarrow> [] | Some q \<Rightarrow> q) cid (sc_presign_keys cfg) now = Inr () \<or>
     verify_pop vf dec (proof_header req) (requester_id dec req) cid ABILITY_READ now = Inr () \<and>
     (\<exists>chain. decode_chain iam (capability_hex req) = Some chain \<and>
        authorize iam (sc_edge_id cfg) (sc_roots cfg) now (requester_id dec req) ABILITY_READ chain {} = Inr ())"

definition answered ::
  "verifier \<Rightarrow> (string \<Rightarrow> bytes option) \<Rightarrow> 'ch iam \<Rightarrow> server_config \<Rightarrow> string set \<Rightarrow> (string \<Rightarrow> bytes)
     \<Rightarrow> u64 \<times> http_request \<Rightarrow> http_response \<Rightarrow> bool" where
  "answered vf dec iam cfg public obj x resp \<longleftrightarrow>
     (case http_target (snd x) of
        None \<Rightarrow> hr_status resp = 405 \<or> hr_status resp = 404 \<or>
          hr_status resp = 200 \<and> hq_path (snd x) \<in> {''/health'', ''/status'', ''/metrics''}
      | Some cid \<Rightarrow>
          right_body (obj cid) (header_str (snd x) ''range'') (hq_method (snd x) = HEAD) resp \<and>
          (hr_status resp = 403 \<or> access_shown vf dec iam cfg public (snd x) cid (fst x)))"

lemma serve_cid_public:
  assumes "serve_cid vf dec iam origin cfg req cid h now sv w = Some (resp, sv1, w1)"
  shows "sv_public sv1 = sv_public sv"
proof -
  obtain acc g1 where a: "http_access vf dec iam cfg (sv_public sv) (sv_replay sv) req cid now = (acc, g1)"
    by fastforce
  obtain ob c1 v where ob: "obtain_bytes origin cfg cid now (sv_cache sv) w = (ob, c1, v)"
    by (cases "obtain_bytes origin cfg cid now (sv_cache sv) w")
  show ?thesis
    using assms a ob by (cases ob) (auto simp: serve_cid_def Let_def split: if_splits)
qed

lemma serve_cid_answered:
  assumes "verifies_origin origin obj" "honest obj (sv_cache sv)" "vec_ok (obj cid)" "http_target req = Some cid"
  shows "\<exists>resp sv1 w1. http_handle vf dec iam origin hit_ratio_text cfg req now sv w = Some (resp, sv1, w1) \<and>
    honest obj (sv_cache sv1) \<and> sv_public sv1 = sv_public sv \<and>
    answered vf dec iam cfg (pub_cids (sv_public sv)) obj (now, req) resp"
proof -
  let ?h = "hq_method req = HEAD"
  obtain resp sv1 w1 where r: "serve_cid vf dec iam origin cfg req cid ?h now sv w = Some (resp, sv1, w1)"
    "honest obj (sv_cache sv1)" "right_body (obj cid) (header_str req ''range'') ?h resp"
    using serve_cid_right [OF assms(1-3)] by blast
  obtain acc g1 where a: "http_access vf dec iam cfg (sv_public sv) (sv_replay sv) req cid now = (acc, g1)"
    by fastforce
  have "hr_status resp = 403 \<or> access_shown vf dec iam cfg (pub_cids (sv_public sv)) req cid now"
  proof (cases "acc = Denied")
    case True
    with serve_cid_denied [of vf dec iam cfg sv req cid now g1 origin ?h w] a r(1) show ?thesis by simp
  next
    case False
    then have "fst (http_access vf dec iam cfg (sv_public sv) (sv_replay sv) req cid now) \<noteq> Denied"
      using a by simp
    from resolve_grant_sound [OF http_access_grant [OF this]] show ?thesis
      unfolding access_shown_def by blast
  qed
  with r assms(4) serve_cid_public [OF r(1)] show ?thesis
    by (simp add: answered_def http_handle_target [OF assms(4)])
qed

lemma http_run_answered:
  assumes "verifies_origin origin obj" "\<And>cid. vec_ok (obj cid)"
  shows "honest obj (sv_cache sv) \<Longrightarrow>
    \<exists>resps sv1 w1. http_run vf dec iam origin hit_ratio_text cfg reqs sv w = Some (resps, sv1, w1) \<and>
      honest obj (sv_cache sv1) \<and> sv_public sv1 = sv_public sv \<and>
      list_all2 (answered vf dec iam cfg (pub_cids (sv_public sv)) obj) reqs resps"
proof (induction reqs arbitrary: sv w)
  case (Cons x reqs)
  obtain now req where x: "x = (now, req)" by (cases x)
  have "\<exists>resp sv1 w1. http_handle vf dec iam origin hit_ratio_text cfg req now sv w = Some (resp, sv1, w1) \<and>
    honest obj (sv_cache sv1) \<and> sv_public sv1 = sv_public sv \<and>
    answered vf dec iam cfg (pub_cids (sv_public sv)) obj (now, req) resp"
  proof (cases "http_target req")
    case None
    with http_handle_other [OF None, of vf dec iam origin hit_ratio_text cfg now sv w] Cons.prems show ?thesis
      by (auto simp: answered_def)
  next
    case (Some cid)
    show ?thesis by (rule serve_cid_answered [OF assms(1) Cons.prems assms(2) Some])
  qed
  then obtain resp sv1 w1 where h: "http_handle vf dec iam origin hit_ratio_text cfg req now sv w = Some (resp, sv1, w1)"
    "honest obj (sv_cache sv1)" "sv_public sv1 = sv_public sv"
    "answered vf dec iam cfg (pub_cids (sv_public sv)) obj (now, req) resp" by blast
  from Cons.IH [OF h(2), of w1] h x show ?case by auto
qed simp

lemma verifies_ce_origin: "verifies_objects ce obj \<Longrightarrow> verifies_origin (ce_origin ce) obj"
  by (auto simp: verifies_origin_def ce_origin_def dest: fetched_object)

lemma pub_cids_allow: "pub_cids (fold allow_public cids p) = set cids \<union> pub_cids p"
  by (induction cids arbitrary: p) (auto simp: allow_public_def)

text \<open>
  C3: an edge started over HTTP keeps its promises for as long as it runs. With a well-formed node id
  and presign keys, and an SDK that verifies what it fetches, \<open>serve --http\<close> starts and answers every
  request of every sequence without a panic. A request for content gets the published bytes its \<open>Range\<close>
  asks for or a body without any of them; and anything but a 403 only if the id was given with
  \<open>--public\<close>, a trusted key signed a link for it, or the caller proved possession and presented an
  accepted chain. Other requests are answered 404, 405, or by the three fixed pages.
\<close>
theorem http_edge_keeps_promises:
  assumes "verifies_objects ce obj" and "\<And>cid. vec_ok (obj cid)"
    and "Option.bind (hex_dec cod edge_hex) (to_array 32) = Some edge_id"
    and "parse_node_ids (hex_dec cod) keys_hex = Inr keys"
  shows "\<exists>resps sv1 w1.
    cmd_serve vf ce cod iam hit_ratio_text (Inr edge_hex) roots max_b ttl public_cids True keys_hex rounds reqs w
      = Some (Inr (Over_Http (resps, sv1, w1))) \<and>
    list_all2 (answered vf (hex_dec cod) iam
        \<lparr>sc_edge_id = edge_id, sc_roots = roots, sc_presign_keys = keys, sc_max_object_bytes = max_b\<rparr>
        (set public_cids) obj) reqs resps"
proof -
  let ?cfg = "\<lparr>sc_edge_id = edge_id, sc_roots = roots, sc_presign_keys = keys, sc_max_object_bytes = max_b\<rparr>"
  let ?sv = "\<lparr>sv_cache = cache_new max_b ttl, sv_public = fold allow_public public_cids public_new,
      sv_replay = guard_new REPLAY_GUARD_CAPACITY\<rparr>"
  have "honest obj (sv_cache ?sv)" by (simp add: honest_new)
  from http_run_answered [where origin = "ce_origin ce" and vf = vf and dec = "hex_dec cod" and iam = iam
      and hit_ratio_text = hit_ratio_text and cfg = ?cfg and reqs = reqs and w = w, OF verifies_ce_origin [OF assms(1)] assms(2) this]
  obtain resps sv1 w1 where
    "http_run vf (hex_dec cod) iam (ce_origin ce) hit_ratio_text ?cfg reqs ?sv w = Some (resps, sv1, w1)"
    "list_all2 (answered vf (hex_dec cod) iam ?cfg (set public_cids) obj) reqs resps"
    by (auto simp: pub_cids_allow public_new_def)
  with assms(3,4) show ?thesis
    by (simp add: cmd_serve_def server_new_def with_presign_keys_def with_max_object_bytes_def
        edge_state_new_def)
qed

text \<open>An edge with one public object and one trusted key, asked for the object, for its head, and for a page.\<close>

definition demo_requests :: "(u64 \<times> http_request) list" where
  "demo_requests =
     [(10, \<lparr>hq_method = GET, hq_path = ''/cdn/'' @ demo_cid, hq_query = None, hq_headers = [(''range'', ''bytes=0-1'')]\<rparr>),
      (11, \<lparr>hq_method = HEAD, hq_path = ''/cdn/'' @ demo_cid, hq_query = None, hq_headers = []\<rparr>),
      (12, \<lparr>hq_method = GET, hq_path = ''/status'', hq_query = None, hq_headers = []\<rparr>)]"

lemma http_edge_keeps_promises_witness:
  "\<exists>resps sv1 w1.
    cmd_serve sample_verify demo_sdk demo_codecs demo_iam (\<lambda>s. ''0'') (Inr (ref_encode (replicate 32 1))) [] 100 60 [demo_cid]
      True [ref_encode (replicate 32 4)] [] demo_requests 0
      = Some (Inr (Over_Http (resps, sv1, w1))) \<and>
    list_all2 (answered sample_verify (hex_dec demo_codecs) demo_iam
        \<lparr>sc_edge_id = replicate 32 1, sc_roots = [], sc_presign_keys = [replicate 32 4], sc_max_object_bytes = 100\<rparr>
        (set [demo_cid]) (\<lambda>cid. demo_object)) demo_requests resps"
proof (rule http_edge_keeps_promises [OF demo_verifies])
  show "vec_ok demo_object" by (simp add: vec_ok_def demo_object_def)
  show "Option.bind (hex_dec demo_codecs (ref_encode (replicate 32 1))) (to_array 32) = Some (replicate 32 1)"
    by (simp add: demo_codecs_def demo_decode to_array_def)
  show "parse_node_ids (hex_dec demo_codecs) [ref_encode (replicate 32 4)] = Inr [replicate 32 4]"
    by (simp add: demo_codecs_def demo_decode to_array_def trim_hex_encode [OF ref_hex_codec])
qed

end
