(* ===== verification/Single_Flight.thy ===== *)
theory Single_Flight
  imports Server
begin

text \<open>
  The concurrency of \<open>serve_cid\<close> in \<open>src/server.rs\<close>: any number of tasks asking for the same content
  id, interleaved at the points where the code awaits. Each critical section on the cache mutex is one
  step; the origin fetch is outside the mutex but inside the per-id single-flight lock; a task can be
  dropped at any await, as when its client goes away, which releases the lock. Steps of other tasks on
  other ids are environment steps that leave this id's entry and tombstone alone. The theorem is the
  thundering-herd guard: the origin is asked once, and once more for each task lost while it asked.
\<close>

section \<open>Tasks and steps\<close>

type_synonym task = nat

datatype tpc = TStart | TChecked | TWaiting | TInside | TFetching | TFetched "bytes result" | TDone obtained | TGone

text \<open>\<open>fl_fetches\<close> counts the questions to the origin, \<open>fl_lost\<close> the tasks dropped with one; no step reads them.\<close>

record flight =
  fl_cache :: edge_cache
  fl_lock :: "task option"
  fl_fetches :: nat
  fl_lost :: nat
  fl_pc :: "task \<Rightarrow> tpc"

datatype flight_event =
  FCheck task | FLookup task | FAcquire task | FRecheck task | FFetch task "bytes result" | FStore task
| FDrop task | FEnv

text \<open>What an environment step may not touch.\<close>

definition same_for :: "string \<Rightarrow> edge_cache \<Rightarrow> edge_cache \<Rightarrow> bool" where
  "same_for cid c c' \<longleftrightarrow>
     hm_get (entries c') cid = hm_get (entries c) cid \<and>
     hm_get (tombstones c') cid = hm_get (tombstones c) cid \<and> config c' = config c \<and> cache_ok c'"

fun asking :: "tpc \<Rightarrow> bool" where
  "asking TFetching = True"
| "asking (TFetched r) = True"
| "asking _ = False"

fun in_flight :: "tpc \<Rightarrow> bool" where
  "in_flight TInside = True"
| "in_flight pc = asking pc"

fun over :: "tpc \<Rightarrow> bool" where
  "over (TDone ob) = True"
| "over TGone = True"
| "over _ = False"

definition move :: "task \<Rightarrow> tpc \<Rightarrow> edge_cache \<Rightarrow> flight \<Rightarrow> flight" where
  "move p x c s = s\<lparr>fl_cache := c, fl_pc := (fl_pc s)(p := x)\<rparr>"

definition dropped :: "task \<Rightarrow> flight \<Rightarrow> flight" where
  "dropped p s =
     (move p TGone (fl_cache s) s)\<lparr>fl_lock := (if in_flight (fl_pc s p) then None else fl_lock s),
       fl_lost := fl_lost s + (if asking (fl_pc s p) then 1 else 0)\<rparr>"

inductive flight_step :: "string \<Rightarrow> u64 \<Rightarrow> (task \<Rightarrow> u64) \<Rightarrow> flight \<Rightarrow> flight_event \<Rightarrow> flight \<Rightarrow> bool"
  for cid :: string and max_object :: u64 and clock :: "task \<Rightarrow> u64" where
  check_absent: "fl_pc s p = TStart \<Longrightarrow> \<not> contains_fresh cid (clock p) (fl_cache s) \<Longrightarrow>
    is_negative cid (clock p) (fl_cache s) = (True, c) \<Longrightarrow>
    flight_step cid max_object clock s (FCheck p) (move p (TDone Absent) c s)"
| check_on: "fl_pc s p = TStart \<Longrightarrow>
    (if contains_fresh cid (clock p) (fl_cache s) then (False, fl_cache s)
     else is_negative cid (clock p) (fl_cache s)) = (False, c) \<Longrightarrow>
    flight_step cid max_object clock s (FCheck p) (move p TChecked c s)"
| lookup_hit: "fl_pc s p = TChecked \<Longrightarrow> cache_get cid (clock p) (fl_cache s) = (Some b, c) \<Longrightarrow>
    flight_step cid max_object clock s (FLookup p) (move p (TDone (Got b True)) c s)"
| lookup_miss: "fl_pc s p = TChecked \<Longrightarrow> cache_get cid (clock p) (fl_cache s) = (None, c) \<Longrightarrow>
    flight_step cid max_object clock s (FLookup p) (move p TWaiting c s)"
| acquire: "fl_pc s p = TWaiting \<Longrightarrow> fl_lock s = None \<Longrightarrow>
    flight_step cid max_object clock s (FAcquire p) ((move p TInside (fl_cache s) s)\<lparr>fl_lock := Some p\<rparr>)"
| recheck_hit: "fl_pc s p = TInside \<Longrightarrow> cache_get cid (clock p) (fl_cache s) = (Some b, c) \<Longrightarrow>
    flight_step cid max_object clock s (FRecheck p) ((move p (TDone (Got b True)) c s)\<lparr>fl_lock := None\<rparr>)"
| recheck_absent: "fl_pc s p = TInside \<Longrightarrow> cache_get cid (clock p) (fl_cache s) = (None, c) \<Longrightarrow>
    is_negative cid (clock p) c = (True, c') \<Longrightarrow>
    flight_step cid max_object clock s (FRecheck p) ((move p (TDone Absent) c' s)\<lparr>fl_lock := None\<rparr>)"
| recheck_cold: "fl_pc s p = TInside \<Longrightarrow> cache_get cid (clock p) (fl_cache s) = (None, c) \<Longrightarrow>
    is_negative cid (clock p) c = (False, c') \<Longrightarrow>
    flight_step cid max_object clock s (FRecheck p)
      ((move p TFetching c' s)\<lparr>fl_fetches := Suc (fl_fetches s)\<rparr>)"
| fetch: "fl_pc s p = TFetching \<Longrightarrow>
    flight_step cid max_object clock s (FFetch p r) (move p (TFetched r) (fl_cache s) s)"
| store: "fl_pc s p = TFetched r \<Longrightarrow>
    fetch_and_store (\<lambda>k u. (r, ())) max_object cid (clock p) (fl_cache s) () = (ob, c, u) \<Longrightarrow>
    flight_step cid max_object clock s (FStore p) ((move p (TDone ob) c s)\<lparr>fl_lock := None\<rparr>)"
| drop: "\<not> over (fl_pc s p) \<Longrightarrow> flight_step cid max_object clock s (FDrop p) (dropped p s)"
| env: "same_for cid (fl_cache s) c \<Longrightarrow>
    flight_step cid max_object clock s FEnv (s\<lparr>fl_cache := c\<rparr>)"

definition flight_init :: "edge_cache \<Rightarrow> flight" where
  "flight_init c = \<lparr>fl_cache = c, fl_lock = None, fl_fetches = 0, fl_lost = 0, fl_pc = (\<lambda>p. TStart)\<rparr>"

inductive flight_run :: "string \<Rightarrow> u64 \<Rightarrow> (task \<Rightarrow> u64) \<Rightarrow> edge_cache \<Rightarrow> flight_event list \<Rightarrow> flight \<Rightarrow> bool"
  for cid :: string and max_object :: u64 and clock :: "task \<Rightarrow> u64" and c0 :: edge_cache where
  flight_nil: "flight_run cid max_object clock c0 [] (flight_init c0)"
| flight_snoc: "flight_run cid max_object clock c0 es s \<Longrightarrow> flight_step cid max_object clock s e s' \<Longrightarrow>
    flight_run cid max_object clock c0 (es @ [e]) s'"

inductive_cases flight_stepE: "flight_step cid max_object clock s e s'"

section \<open>Settled content ids\<close>

text \<open>An entry that is fresh, or a tombstone that is live, for the clocks of all tasks.\<close>

definition fresh_all :: "string \<Rightarrow> (task \<Rightarrow> u64) \<Rightarrow> edge_cache \<Rightarrow> bool" where
  "fresh_all cid clock c \<longleftrightarrow> (\<exists>e. hm_get (entries c) cid = Some e \<and> (\<forall>q. clock q \<le> expires_at e))"

definition neg_all :: "string \<Rightarrow> (task \<Rightarrow> u64) \<Rightarrow> edge_cache \<Rightarrow> bool" where
  "neg_all cid clock c \<longleftrightarrow> (\<exists>t. hm_get (tombstones c) cid = Some t \<and> (\<forall>q. clock q \<le> t_expires_at t))"

definition settled :: "string \<Rightarrow> (task \<Rightarrow> u64) \<Rightarrow> edge_cache \<Rightarrow> bool" where
  "settled cid clock c \<longleftrightarrow> fresh_all cid clock c \<or> neg_all cid clock c"

lemma settled_get:
  assumes "cache_ok c" "settled cid clock c" "cache_get cid (clock p) c = (h, c')"
  shows "settled cid clock c' \<and> cache_ok c' \<and> (h = None \<longrightarrow> neg_all cid clock c')"
proof -
  have e: "hm_get (entries c') cid = (case hm_get (entries c) cid of None \<Rightarrow> None
      | Some e \<Rightarrow> if clock p \<le> expires_at e
          then Some (e\<lparr>last_tick := tick c + 1, e_hits := e_hits e + 1\<rparr>) else None)"
    using get_entries [OF assms(1), of cid "clock p" cid] assms(3) by (simp split: option.splits)
  have t: "tombstones c' = tombstones c" using tombstones_get [of cid "clock p" c] assms(3) by simp
  have h: "h = (case hm_get (entries c) cid of None \<Rightarrow> None
      | Some e \<Rightarrow> if clock p \<le> expires_at e then Some (e_bytes e) else None)"
    using get_result [of cid "clock p" c] assms(3) by (simp split: option.splits)
  have ok: "cache_ok c'" using cache_ok_get [OF assms(1), of cid "clock p"] assms(3) by simp
  from assms(2) consider "fresh_all cid clock c" | "neg_all cid clock c" by (auto simp: settled_def)
  then show ?thesis
  proof cases
    assume "fresh_all cid clock c"
    with e h ok show ?thesis by (auto simp: settled_def fresh_all_def)
  next
    assume "neg_all cid clock c"
    with t ok show ?thesis by (simp add: settled_def neg_all_def)
  qed
qed

lemma settled_negative:
  assumes "cache_ok c" "settled cid clock c" "is_negative cid (clock p) c = (neg, c')"
  shows "settled cid clock c' \<and> (neg_all cid clock c \<longrightarrow> neg)"
proof (cases "neg_all cid clock c")
  case True
  with assms(3) show ?thesis
    by (auto simp: is_negative_def neg_all_def settled_def split: option.splits if_splits)
next
  case False
  with assms(2) have "fresh_all cid clock c" by (simp add: settled_def)
  moreover have "entries c' = entries c"
    using assms(3) by (auto simp: is_negative_def split: option.splits if_splits)
  ultimately show ?thesis using False by (simp add: settled_def fresh_all_def)
qed

lemma settled_same: "same_for cid c c' \<Longrightarrow> settled cid clock c \<Longrightarrow> settled cid clock c'"
  by (simp add: same_for_def settled_def fresh_all_def neg_all_def)

text \<open>
  What makes one fetch enough: the tasks' clocks lie within the time-to-live and the negative
  time-to-live of each other, and the answer is either an object that fits or an error remembered.
\<close>

definition close_clocks :: "(task \<Rightarrow> u64) \<Rightarrow> edge_cache \<Rightarrow> bool" where
  "close_clocks clock c \<longleftrightarrow>
     (\<forall>p q. clock q \<le> expiry (clock p) (default_ttl_secs c) \<and>
            clock q \<le> sat_add (clock p) (negative_ttl_secs c))"

definition remembered :: "u64 \<Rightarrow> edge_cache \<Rightarrow> bytes result \<Rightarrow> bool" where
  "remembered max_object c r \<longleftrightarrow>
     (case r of Inl e \<Rightarrow> negative_ttl_secs c \<noteq> 0 | Inr b \<Rightarrow> len64 b \<le> max_object \<and> len64 b \<le> max_bytes c)"

lemma settled_insert:
  assumes "cache_ok c" "close_clocks clock c" "len64 b \<le> max_bytes c"
  shows "settled cid clock (snd (cache_insert cid b (clock p) c))"
  using insert_stored [OF assms(1,3), of cid "default_ttl_secs c" "clock p"] assms(2)
  by (auto simp: cache_insert_def settled_def fresh_all_def close_clocks_def)

lemma settled_note:
  assumes "close_clocks clock c" "cache_ok c" "negative_ttl_secs c \<noteq> 0"
  shows "settled cid clock (note_absent cid (clock p) c)"
  using assms by (auto simp: settled_def neg_all_def close_clocks_def note_absent_def Let_def cache_ok_def)

lemma settled_store:
  assumes "cache_ok c" "close_clocks clock c" "remembered max_object c r"
    and "fetch_and_store (\<lambda>k u. (r, ())) max_object cid (clock p) c () = (ob, c', u)"
  shows "settled cid clock c'"
  using assms settled_insert [OF assms(1,2), of _ cid p] settled_note [OF assms(2,1), of cid p]
  by (auto simp: fetch_and_store_def remembered_def not_less [symmetric] split: sum.splits if_splits)

lemma config_note [simp]: "config (note_absent cid now c) = config c"
  by (simp add: note_absent_def Let_def)

lemma config_negative [simp]: "config (snd (is_negative cid now c)) = config c"
  by (simp add: is_negative_def split: option.split)

lemma store_frame:
  assumes "cache_ok c" "fetch_and_store (\<lambda>k u. (r, ())) max_object cid now c () = (ob, c', u)"
  shows "cache_ok c' \<and> config c' = config c"
  using assms cache_ok_insert [of c cid _ "default_ttl_secs c" now] cache_ok_note [of c cid now]
  by (auto simp: fetch_and_store_def cache_insert_def split: sum.splits if_splits)

lemma get_frame:
  "cache_get cid now c = (h, c') \<Longrightarrow> cache_ok c \<Longrightarrow> cache_ok c' \<and> config c' = config c"
  using cache_ok_get [of c cid now] config_get [of cid now c] by simp

lemma negative_frame:
  "is_negative cid now c = (neg, c') \<Longrightarrow> cache_ok c \<Longrightarrow> cache_ok c' \<and> config c' = config c"
  using cache_ok_negative [of c cid now] config_negative [of cid now c] by simp

lemma config_transfer:
  assumes "config c = config c0"
  shows "close_clocks clock c = close_clocks clock c0" "remembered max_object c = remembered max_object c0"
  using assms by (auto simp: config_def close_clocks_def remembered_def fun_eq_iff split: sum.split)

section \<open>The invariant\<close>

definition flight_inv :: "string \<Rightarrow> u64 \<Rightarrow> (task \<Rightarrow> u64) \<Rightarrow> edge_cache \<Rightarrow> flight \<Rightarrow> bool" where
  "flight_inv cid max_object clock c0 s \<longleftrightarrow>
     cache_ok (fl_cache s) \<and> config (fl_cache s) = config c0 \<and>
     (\<forall>p. in_flight (fl_pc s p) \<longleftrightarrow> fl_lock s = Some p) \<and>
     (\<forall>p. asking (fl_pc s p) \<longrightarrow> fl_fetches s = Suc (fl_lost s)) \<and>
     (\<forall>p r. fl_pc s p = TFetched r \<longrightarrow> remembered max_object c0 r) \<and>
     fl_lost s \<le> fl_fetches s \<and> fl_fetches s \<le> Suc (fl_lost s) \<and>
     (fl_fetches s = Suc (fl_lost s) \<longrightarrow> (\<forall>p. \<not> asking (fl_pc s p)) \<longrightarrow> settled cid clock (fl_cache s))"

lemma asking_in_flight: "asking pc \<Longrightarrow> in_flight pc"
  by (cases pc) simp_all

text \<open>A step by which one task moves outside the lock.\<close>

lemma flight_inv_move:
  assumes inv: "flight_inv cid max_object clock c0 s" and out: "\<not> in_flight (fl_pc s p)" "\<not> in_flight x"
    and c: "cache_ok c" "config c = config (fl_cache s)"
    and keep: "settled cid clock (fl_cache s) \<Longrightarrow> settled cid clock c"
  shows "flight_inv cid max_object clock c0 (move p x c s)"
proof -
  have "\<not> asking (fl_pc s p)" "\<not> asking x" using out asking_in_flight by blast+
  moreover from this have "\<not> asking (fl_pc s q)" if "\<forall>q. \<not> asking (((fl_pc s)(p := x)) q)" for q
    using that by (cases "q = p") (auto split: if_splits)
  ultimately show ?thesis using assms by (auto simp: flight_inv_def move_def split: if_splits)
qed

text \<open>A step by which the holder leaves the lock.\<close>

lemma flight_inv_leave:
  assumes "flight_inv cid max_object clock c0 s" "in_flight (fl_pc s p)" "\<not> in_flight x"
    and "cache_ok c" "config c = config (fl_cache s)"
    and "fl_fetches s = Suc (fl_lost s) \<Longrightarrow> settled cid clock c"
  shows "flight_inv cid max_object clock c0 ((move p x c s)\<lparr>fl_lock := None\<rparr>)"
  using assms asking_in_flight by (auto simp: flight_inv_def move_def)

lemma flight_inv_alone:
  "flight_inv cid max_object clock c0 s \<Longrightarrow> in_flight (fl_pc s p) \<Longrightarrow> in_flight (fl_pc s q) \<Longrightarrow> p = q"
  by (auto simp: flight_inv_def)

lemma flight_inv_inside:
  assumes "flight_inv cid max_object clock c0 s" "fl_pc s p = TInside" "fl_fetches s = Suc (fl_lost s)"
  shows "settled cid clock (fl_cache s)"
proof -
  have "\<not> asking (fl_pc s q)" for q
    using flight_inv_alone [OF assms(1), of p q] assms(2) asking_in_flight [of "fl_pc s q"] by auto
  with assms(1,3) show ?thesis by (auto simp: flight_inv_def)
qed

lemma flight_inv_cold:
  assumes inv: "flight_inv cid max_object clock c0 s" and pc: "fl_pc s p = TInside"
    and get: "cache_get cid (clock p) (fl_cache s) = (None, c)" and neg: "is_negative cid (clock p) c = (False, c')"
  shows "flight_inv cid max_object clock c0 ((move p TFetching c' s)\<lparr>fl_fetches := Suc (fl_fetches s)\<rparr>)"
proof -
  have ok: "cache_ok (fl_cache s)" using inv by (simp add: flight_inv_def)
  have c: "cache_ok c" "config c = config (fl_cache s)" using get_frame [OF get ok] by auto
  have "fl_fetches s \<noteq> Suc (fl_lost s)"
    using flight_inv_inside [OF inv pc] get neg settled_get [OF ok, of cid clock p None c]
      settled_negative [OF c(1), of cid clock p False c'] by auto
  then have "fl_fetches s = fl_lost s" using inv by (auto simp: flight_inv_def)
  then show ?thesis
    using inv pc c negative_frame [OF neg c(1)] by (auto simp: flight_inv_def move_def split: if_splits)
qed

lemma flight_inv_drop:
  assumes inv: "flight_inv cid max_object clock c0 s" and left: "\<not> over (fl_pc s p)"
  shows "flight_inv cid max_object clock c0 (dropped p s)"
proof (cases "in_flight (fl_pc s p)")
  case False
  have "dropped p s = move p TGone (fl_cache s) s"
    using False asking_in_flight [of "fl_pc s p"] by (auto simp: dropped_def move_def)
  moreover have "cache_ok (fl_cache s)" using inv by (simp add: flight_inv_def)
  ultimately show ?thesis using left False by (auto intro: flight_inv_move [OF inv])
next
  case True
  have "\<not> asking (fl_pc s q)" if "q \<noteq> p" for q
    using flight_inv_alone [OF inv True, of q] that asking_in_flight by blast
  moreover have "fl_fetches s = Suc (fl_lost s)" "\<not> (\<forall>p. \<not> asking (fl_pc s p))" if "asking (fl_pc s p)"
    using that inv unfolding flight_inv_def by blast+
  moreover have "fl_pc s p = TInside" if "\<not> asking (fl_pc s p)" using True that by (cases "fl_pc s p") auto
  ultimately show ?thesis using True inv flight_inv_inside [OF inv, of p]
    by (cases "asking (fl_pc s p)") (auto simp: flight_inv_def dropped_def move_def split: if_splits)
qed

lemma flight_inv_step:
  assumes inv: "flight_inv cid max_object clock c0 s"
    and step: "flight_step cid max_object clock s e s'"
    and close: "close_clocks clock c0" and rem: "\<forall>p r. e = FFetch p r \<longrightarrow> remembered max_object c0 r"
  shows "flight_inv cid max_object clock c0 s'"
proof -
  have ok: "cache_ok (fl_cache s)" and cfg: "config (fl_cache s) = config c0"
    and lock: "in_flight (fl_pc s p) \<longleftrightarrow> fl_lock s = Some p" for p
    using inv by (auto simp: flight_inv_def)
  note inside = flight_inv_inside [OF inv]
  from step show ?thesis
  proof cases
    case (check_absent p c)
    then show ?thesis
      using negative_frame [OF check_absent(5) ok] settled_negative [OF ok, of cid clock p True c]
      by (auto intro: flight_inv_move [OF inv])
  next
    case (check_on p c)
    then show ?thesis
      using negative_frame [of cid "clock p" "fl_cache s" False c] ok
        settled_negative [OF ok, of cid clock p False c]
      by (auto intro!: flight_inv_move [OF inv] split: if_splits)
  next
    case (lookup_hit p b c)
    then show ?thesis
      using get_frame [OF lookup_hit(4) ok] settled_get [OF ok, of cid clock p "Some b" c]
      by (auto intro: flight_inv_move [OF inv])
  next
    case (lookup_miss p c)
    then show ?thesis
      using get_frame [OF lookup_miss(4) ok] settled_get [OF ok, of cid clock p None c]
      by (auto intro: flight_inv_move [OF inv])
  next
    case (acquire p)
    have "\<not> asking (fl_pc s q)" for q using lock [of q] acquire(4) asking_in_flight by auto
    then show ?thesis using inv acquire by (auto simp: flight_inv_def move_def split: if_splits)
  next
    case (recheck_hit p b c)
    then show ?thesis
      using get_frame [OF recheck_hit(4) ok] settled_get [OF ok, of cid clock p "Some b" c] inside [of p]
      by (auto intro!: flight_inv_leave [OF inv])
  next
    case (recheck_absent p c c')
    have c: "cache_ok c" "config c = config (fl_cache s)"
      using get_frame [OF recheck_absent(4) ok] by auto
    show ?thesis unfolding recheck_absent
      using recheck_absent(3) c negative_frame [OF recheck_absent(5) c(1)] inside [of p]
        settled_get [OF ok, of cid clock p None c] settled_negative [OF c(1), of cid clock p True c']
        recheck_absent(4,5)
      by (auto intro!: flight_inv_leave [OF inv])
  next
    case (recheck_cold p c c')
    show ?thesis unfolding recheck_cold(2) using recheck_cold(3-5) by (rule flight_inv_cold [OF inv])
  next
    case (fetch p r)
    have asks: "asking (fl_pc s p)" using fetch by simp
    then have "fl_fetches s = Suc (fl_lost s)" using inv unfolding flight_inv_def by blast
    moreover have "\<not> (\<forall>p. \<not> asking (fl_pc s p))" using asks by blast
    moreover have "fl_lock s = Some p" using fetch lock [of p] by simp
    ultimately show ?thesis using inv fetch rem
      by (auto simp: flight_inv_def move_def split: if_splits)
  next
    case (store p r ob c u)
    have "settled cid clock c"
      using settled_store [OF ok, of clock max_object r cid p ob c u] close inv store(3,4) config_transfer [OF cfg]
      by (auto simp: flight_inv_def)
    then show ?thesis using store store_frame [OF ok store(4)]
      by (auto intro!: flight_inv_leave [OF inv])
  next
    case (drop p)
    then show ?thesis using flight_inv_drop [OF inv] by simp
  next
    case (env c)
    then show ?thesis
      using inv settled_same [of cid "fl_cache s" c clock] by (auto simp: flight_inv_def same_for_def)
  qed
qed

definition answers_remembered :: "u64 \<Rightarrow> edge_cache \<Rightarrow> flight_event list \<Rightarrow> bool" where
  "answers_remembered max_object c0 es \<longleftrightarrow> (\<forall>p r. FFetch p r \<in> set es \<longrightarrow> remembered max_object c0 r)"

lemma flight_inv_run:
  "flight_run cid max_object clock c0 es s \<Longrightarrow> cache_ok c0 \<Longrightarrow> close_clocks clock c0 \<Longrightarrow>
     answers_remembered max_object c0 es \<Longrightarrow> flight_inv cid max_object clock c0 s"
proof (induction rule: flight_run.induct)
  case flight_nil
  then show ?case by (simp add: flight_inv_def flight_init_def)
next
  case (flight_snoc es s e s')
  then show ?case
    by (intro flight_inv_step [OF flight_snoc.IH flight_snoc.hyps(2)]) (auto simp: answers_remembered_def)
qed


section \<open>Runs by evaluation\<close>

fun exec_flight :: "string \<Rightarrow> u64 \<Rightarrow> (task \<Rightarrow> u64) \<Rightarrow> flight_event \<Rightarrow> flight \<Rightarrow> flight option" where
  "exec_flight cid m clock (FCheck p) s =
     (if fl_pc s p \<noteq> TStart then None
      else if contains_fresh cid (clock p) (fl_cache s) then Some (move p TChecked (fl_cache s) s)
      else (case is_negative cid (clock p) (fl_cache s) of
              (neg, c) \<Rightarrow> Some (move p (if neg then TDone Absent else TChecked) c s)))"
| "exec_flight cid m clock (FLookup p) s =
     (if fl_pc s p \<noteq> TChecked then None
      else (case cache_get cid (clock p) (fl_cache s) of
              (h, c) \<Rightarrow> Some (move p (case h of None \<Rightarrow> TWaiting | Some b \<Rightarrow> TDone (Got b True)) c s)))"
| "exec_flight cid m clock (FAcquire p) s =
     (if fl_pc s p \<noteq> TWaiting \<or> fl_lock s \<noteq> None then None
      else Some ((move p TInside (fl_cache s) s)\<lparr>fl_lock := Some p\<rparr>))"
| "exec_flight cid m clock (FRecheck p) s =
     (if fl_pc s p \<noteq> TInside then None
      else (case cache_get cid (clock p) (fl_cache s) of
              (Some b, c) \<Rightarrow> Some ((move p (TDone (Got b True)) c s)\<lparr>fl_lock := None\<rparr>)
            | (None, c) \<Rightarrow>
                (case is_negative cid (clock p) c of
                   (neg, c') \<Rightarrow>
                     if neg then Some ((move p (TDone Absent) c' s)\<lparr>fl_lock := None\<rparr>)
                     else Some ((move p TFetching c' s)\<lparr>fl_fetches := Suc (fl_fetches s)\<rparr>))))"
| "exec_flight cid m clock (FFetch p r) s =
     (if fl_pc s p \<noteq> TFetching then None
      else Some (move p (TFetched r) (fl_cache s) s))"
| "exec_flight cid m clock (FStore p) s =
     (case fl_pc s p of
        TFetched r \<Rightarrow>
          (case fetch_and_store (\<lambda>k u. (r, ())) m cid (clock p) (fl_cache s) () of
             (ob, c, u) \<Rightarrow> Some ((move p (TDone ob) c s)\<lparr>fl_lock := None\<rparr>))
      | _ \<Rightarrow> None)"
| "exec_flight cid m clock (FDrop p) s = (if over (fl_pc s p) then None else Some (dropped p s))"
| "exec_flight cid m clock FEnv s = None"

lemma exec_flight_step: "exec_flight cid m clock e s = Some s' \<Longrightarrow> flight_step cid m clock s e s'"
  by (cases e)
     (auto intro: flight_step.intros split: tpc.splits option.splits if_splits prod.splits)

fun exec_flights :: "string \<Rightarrow> u64 \<Rightarrow> (task \<Rightarrow> u64) \<Rightarrow> flight_event list \<Rightarrow> flight \<Rightarrow> flight option" where
  "exec_flights cid m clock [] s = Some s"
| "exec_flights cid m clock (e # es) s = Option.bind (exec_flight cid m clock e s) (exec_flights cid m clock es)"

lemma exec_flights_run:
  "exec_flights cid m clock es s = Some s' \<Longrightarrow> flight_run cid m clock c0 es0 s \<Longrightarrow>
     flight_run cid m clock c0 (es0 @ es) s'"
proof (induction es arbitrary: s es0)
  case (Cons e es)
  then obtain s1 where s1: "exec_flight cid m clock e s = Some s1" "exec_flights cid m clock es s1 = Some s'"
    by (auto simp: bind_eq_Some_conv)
  from Cons.IH [OF s1(2) flight_run.flight_snoc [OF Cons.prems(2) exec_flight_step [OF s1(1)]]]
  show ?case by simp
qed simp

text \<open>Three tasks race for a cold id: the first is dropped while it asks, the second asks again, the third is served from the cache.\<close>

definition herd_events :: "flight_event list" where
  "herd_events =
     [FCheck 3, FLookup 3, FAcquire 3, FRecheck 3, FCheck 1, FCheck 2, FLookup 1, FLookup 2, FDrop 3, FAcquire 1,
      FRecheck 1, FFetch 1 (Inr [7, 8]), FStore 1, FAcquire 2, FRecheck 2]"

definition herd_end :: flight where
  "herd_end = the (exec_flights ''ab'' 100 (\<lambda>p. 5) herd_events (flight_init (cache_new 100 60)))"

lemma evict_room: "\<not> cur_bytes c + len > max_bytes c \<Longrightarrow> evict_to_fit len c = c"
  by (subst evict_to_fit.simps) simp

lemma herd_ran:
  "case exec_flights ''ab'' 100 (\<lambda>p. 5) herd_events (flight_init (cache_new 100 60)) of
     None \<Rightarrow> False
   | Some s \<Rightarrow> fl_fetches s = 2 \<and> fl_lost s = 1 \<and> fl_pc s 2 = TDone (Got [7, 8] True)"
  using evict_room
  by (simp add: herd_events_def flight_init_def move_def dropped_def cache_new_def contains_fresh_def is_negative_def
      cache_get_def next_tick_def Let_def hm_get_def hm_insert_def fetch_and_store_def cache_insert_def
      insert_with_ttl_def drop_entry_def len64_def sat_add_def word_le_nat_alt word_less_nat_alt)

lemma herd_ends: "fl_fetches herd_end = 2 \<and> fl_lost herd_end = 1 \<and> fl_pc herd_end 2 = TDone (Got [7, 8] True) \<and>
    exec_flights ''ab'' 100 (\<lambda>p. 5) herd_events (flight_init (cache_new 100 60)) = Some herd_end"
  using herd_ran by (simp add: herd_end_def split: option.splits)


end
