(* ===== verification/Http_Concurrent.thy ===== *)
theory Http_Concurrent
  imports Http_Edge Single_Flight
begin

text \<open>
  All of \<open>serve_cid\<close> in \<open>src/server.rs\<close> under concurrency: any number of tasks, each with a request of its
  own for whatever content id, interleaved at the points where the code awaits. Every critical section
  on a mutex (the public set, the replay guard, the cache) is one step; the single-flight lock of an id
  is held over several; the origin's answer is an event of its own; and a task can be dropped at any
  await, as \<open>hyper\<close> does when the client goes away, which releases what it held. Runs are evaluated:
  a step that is not enabled is \<open>None\<close>.
\<close>

section \<open>Tasks\<close>

record job =
  jb_req :: http_request
  jb_cid :: string
  jb_head :: bool
  jb_now :: u64

text \<open>\<open>Panicked\<close> is a handler that panicked, \<open>Dropped\<close> a task whose client went away.\<close>

datatype cpc =
    Arrived | Granted grant | Allowed access | Checked access | Waiting access | Inside access
  | Fetching access | Fetched access "bytes result" | Obtained access bytes bool
  | Answered http_response | Panicked | Dropped

record 'ch http_env =
  he_verify :: verifier
  he_dec :: "string \<Rightarrow> bytes option"
  he_iam :: "'ch iam"
  he_cfg :: server_config
  he_public :: public_set
  he_job :: "task \<Rightarrow> job"

text \<open>\<open>hs_log\<close> remembers the order in which tasks reached the replay guard; no step reads it.\<close>

record http_sys =
  hs_cache :: edge_cache
  hs_replay :: replay_guard
  hs_locks :: "string \<Rightarrow> task option"
  hs_pc :: "task \<Rightarrow> cpc"
  hs_log :: "task list"

datatype conc_event = Advance task | Origin_Answers task "bytes result" | Drop_Task task

section \<open>Steps\<close>

definition at_pc :: "task \<Rightarrow> cpc \<Rightarrow> http_sys \<Rightarrow> http_sys" where
  "at_pc p x s = s\<lparr>hs_pc := (hs_pc s)(p := x)\<rparr>"

definition unlock :: "string \<Rightarrow> http_sys \<Rightarrow> http_sys" where
  "unlock cid s = s\<lparr>hs_locks := (hs_locks s)(cid := None)\<rparr>"

definition denied_pc :: "job \<Rightarrow> cpc" where
  "denied_pc j =
     (case serve (jb_cid j) [] None Denied deny_cache (jb_now j) True of
        None \<Rightarrow> Panicked
      | Some r \<Rightarrow> Answered (to_http r))"

definition job_grant :: "'ch http_env \<Rightarrow> job \<Rightarrow> grant" where
  "job_grant E j =
     resolve_grant (he_verify E) (he_dec E) (he_iam E) (jb_cid j) (he_public E)
       (sc_edge_id (he_cfg E)) (sc_roots (he_cfg E)) (sc_presign_keys (he_cfg E))
       (requester_id (he_dec E) (jb_req j)) (proof_header (jb_req j))
       (case hq_query (jb_req j) of None \<Rightarrow> [] | Some q \<Rightarrow> q) (capability_hex (jb_req j)) (jb_now j)"

fun advance :: "'ch http_env \<Rightarrow> task \<Rightarrow> job \<Rightarrow> cpc \<Rightarrow> http_sys \<Rightarrow> http_sys option" where
  "advance E p j Arrived s =
     (let gr = job_grant E j
      in Some (at_pc p (if gr = GDenied then denied_pc j
                        else if gr = GPopAndCap then Granted gr else Allowed (grant_access gr)) s))"
| "advance E p j (Granted gr) s =
     (let (r, g1) = verify_pop_once (he_verify E) (he_dec E) (hs_replay s) (proof_header (jb_req j))
            (requester_id (he_dec E) (jb_req j)) (jb_cid j) ABILITY_READ (jb_now j)
      in Some (at_pc p (case r of Inl e \<Rightarrow> denied_pc j | Inr u \<Rightarrow> Allowed (grant_access gr))
                 (s\<lparr>hs_replay := g1, hs_log := hs_log s @ [p]\<rparr>)))"
| "advance E p j (Allowed acc) s =
     (if if_none_match_matches (header_str (jb_req j) ''if-none-match'') (jb_cid j)
      then Some (at_pc p (Answered (to_http (not_modified (jb_cid j) (hs_cache s) (jb_now j)))) s)
      else (case (if contains_fresh (jb_cid j) (jb_now j) (hs_cache s) then (False, hs_cache s)
                  else is_negative (jb_cid j) (jb_now j) (hs_cache s)) of
              (neg, c) \<Rightarrow>
                Some (at_pc p (if neg then Answered (to_http (not_found (jb_cid j))) else Checked acc)
                        (s\<lparr>hs_cache := c\<rparr>))))"
| "advance E p j (Checked acc) s =
     (case cache_get (jb_cid j) (jb_now j) (hs_cache s) of
        (h, c) \<Rightarrow>
          Some (at_pc p (case h of Some b \<Rightarrow> Obtained acc b True | None \<Rightarrow> Waiting acc) (s\<lparr>hs_cache := c\<rparr>)))"
| "advance E p j (Waiting acc) s =
     (if hs_locks s (jb_cid j) = None
      then Some (at_pc p (Inside acc) (s\<lparr>hs_locks := (hs_locks s)(jb_cid j \<mapsto> p)\<rparr>)) else None)"
| "advance E p j (Inside acc) s =
     (case cache_get (jb_cid j) (jb_now j) (hs_cache s) of
        (Some b, c) \<Rightarrow> Some (unlock (jb_cid j) (at_pc p (Obtained acc b True) (s\<lparr>hs_cache := c\<rparr>)))
      | (None, c) \<Rightarrow>
          (case is_negative (jb_cid j) (jb_now j) c of
             (neg, c') \<Rightarrow>
               if neg then Some (unlock (jb_cid j)
                 (at_pc p (Answered (to_http (not_found (jb_cid j)))) (s\<lparr>hs_cache := c'\<rparr>)))
               else Some (at_pc p (Fetching acc) (s\<lparr>hs_cache := c'\<rparr>))))"
| "advance E p j (Fetched acc r) s =
     (let m = (if sc_max_object_bytes (he_cfg E) = 0 then max_bytes (hs_cache s)
               else sc_max_object_bytes (he_cfg E))
      in case fetch_and_store (\<lambda>k u. (r, ())) m (jb_cid j) (jb_now j) (hs_cache s) () of
           (ob, c, u) \<Rightarrow>
             Some (unlock (jb_cid j) (at_pc p
               (case ob of
                  Got b hit \<Rightarrow> Obtained acc b hit
                | Absent \<Rightarrow> Answered (to_http (not_found (jb_cid j)))
                | TooLarge \<Rightarrow> Answered (text_resp 413 ''object exceeds edge size limit''))
               (s\<lparr>hs_cache := c\<rparr>))))"
| "advance E p j (Obtained acc b hit) s =
     Some (at_pc p
       (case serve (jb_cid j) b (header_str (jb_req j) ''range'') acc (hs_cache s) (jb_now j) hit of
          None \<Rightarrow> Panicked
        | Some r \<Rightarrow> Answered (if jb_head j then (to_http r)\<lparr>hr_body := []\<rparr> else to_http r)) s)"
| "advance E p j _ s = None"

fun holding :: "cpc \<Rightarrow> bool" where
  "holding (Inside acc) = True"
| "holding (Fetching acc) = True"
| "holding (Fetched acc r) = True"
| "holding _ = False"

fun finished :: "cpc \<Rightarrow> bool" where
  "finished (Answered r) = True"
| "finished Panicked = True"
| "finished Dropped = True"
| "finished _ = False"

fun conc_step :: "'ch http_env \<Rightarrow> conc_event \<Rightarrow> http_sys \<Rightarrow> http_sys option" where
  "conc_step E (Advance p) s = advance E p (he_job E p) (hs_pc s p) s"
| "conc_step E (Origin_Answers p r) s =
     (case hs_pc s p of Fetching acc \<Rightarrow> Some (at_pc p (Fetched acc r) s) | _ \<Rightarrow> None)"
| "conc_step E (Drop_Task p) s =
     (if finished (hs_pc s p) then None
      else Some (at_pc p Dropped (if holding (hs_pc s p) then unlock (jb_cid (he_job E p)) s else s)))"

fun conc_run :: "'ch http_env \<Rightarrow> conc_event list \<Rightarrow> http_sys \<Rightarrow> http_sys option" where
  "conc_run E [] s = Some s"
| "conc_run E (e # es) s = Option.bind (conc_step E e s) (conc_run E es)"

definition conc_start :: "edge_cache \<Rightarrow> replay_guard \<Rightarrow> http_sys" where
  "conc_start c g = \<lparr>hs_cache = c, hs_replay = g, hs_locks = (\<lambda>k. None), hs_pc = (\<lambda>p. Arrived), hs_log = []\<rparr>"

section \<open>What every task may rely on\<close>

definition shown :: "'ch http_env \<Rightarrow> job \<Rightarrow> bool" where
  "shown E j \<longleftrightarrow> access_shown (he_verify E) (he_dec E) (he_iam E) (he_cfg E) (pub_cids (he_public E))
     (jb_req j) (jb_cid j) (jb_now j)"

definition good_answer :: "'ch http_env \<Rightarrow> (string \<Rightarrow> bytes) \<Rightarrow> job \<Rightarrow> http_response \<Rightarrow> bool" where
  "good_answer E obj j r \<longleftrightarrow>
     right_body (obj (jb_cid j)) (header_str (jb_req j) ''range'') (jb_head j) r \<and> (hr_status r = 403 \<or> shown E j)"

fun pc_ok :: "'ch http_env \<Rightarrow> (string \<Rightarrow> bytes) \<Rightarrow> job \<Rightarrow> cpc \<Rightarrow> bool" where
  "pc_ok E obj j Arrived \<longleftrightarrow> True"
| "pc_ok E obj j (Granted gr) \<longleftrightarrow> gr = GPopAndCap \<and> shown E j"
| "pc_ok E obj j (Allowed acc) \<longleftrightarrow> acc \<noteq> Denied \<and> shown E j"
| "pc_ok E obj j (Checked acc) \<longleftrightarrow> acc \<noteq> Denied \<and> shown E j"
| "pc_ok E obj j (Waiting acc) \<longleftrightarrow> acc \<noteq> Denied \<and> shown E j"
| "pc_ok E obj j (Inside acc) \<longleftrightarrow> acc \<noteq> Denied \<and> shown E j"
| "pc_ok E obj j (Fetching acc) \<longleftrightarrow> acc \<noteq> Denied \<and> shown E j"
| "pc_ok E obj j (Fetched acc r) \<longleftrightarrow> acc \<noteq> Denied \<and> shown E j \<and> (\<forall>b. r = Inr b \<longrightarrow> b = obj (jb_cid j))"
| "pc_ok E obj j (Obtained acc b hit) \<longleftrightarrow> acc \<noteq> Denied \<and> shown E j \<and> b = obj (jb_cid j)"
| "pc_ok E obj j (Answered r) \<longleftrightarrow> good_answer E obj j r"
| "pc_ok E obj j Panicked \<longleftrightarrow> False"
| "pc_ok E obj j Dropped \<longleftrightarrow> True"

lemma at_pc_simps [simp]:
  "hs_cache (at_pc p x s) = hs_cache s" "hs_replay (at_pc p x s) = hs_replay s"
  "hs_locks (at_pc p x s) = hs_locks s" "hs_log (at_pc p x s) = hs_log s"
  "hs_pc (at_pc p x s) q = (if q = p then x else hs_pc s q)"
  by (simp_all add: at_pc_def)

lemma unlock_simps [simp]:
  "hs_cache (unlock cid s) = hs_cache s" "hs_replay (unlock cid s) = hs_replay s"
  "hs_locks (unlock cid s) k = (if k = cid then None else hs_locks s k)" "hs_log (unlock cid s) = hs_log s"
  "hs_pc (unlock cid s) = hs_pc s"
  by (simp_all add: unlock_def)

lemma denied_answer: "denied_pc j = Answered \<lparr>hr_status = 403, hr_headers = [(''content-type'', ''text/plain'')], hr_body = []\<rparr>"
  by (simp add: denied_pc_def serve_def to_http_denied)

lemma job_granted: "job_grant E j \<noteq> GDenied \<Longrightarrow> shown E j"
  unfolding job_grant_def by (drule resolve_grant_sound) (simp add: shown_def access_shown_def, blast)

lemma good_small:
  assumes "shown E j"
  shows "good_answer E obj j (to_http (not_found (jb_cid j)))"
    and "good_answer E obj j (to_http (not_modified (jb_cid j) c now))"
    and "good_answer E obj j (text_resp 413 ''object exceeds edge size limit'')"
  using assms by (simp_all add: good_answer_def right_body_def to_http_def not_found_def not_modified_def text_resp_def)

lemma good_served:
  assumes "shown E j" "acc \<noteq> Denied" "vec_ok (obj (jb_cid j))"
  shows "\<exists>r. serve (jb_cid j) (obj (jb_cid j)) (header_str (jb_req j) ''range'') acc c now hit = Some r \<and>
    good_answer E obj j (if jb_head j then (to_http r)\<lparr>hr_body := []\<rparr> else to_http r)"
  using right_body_served [OF assms(3,2)] assms(1) unfolding good_answer_def by blast

lemma stored_right:
  assumes "honest obj c" "\<forall>b. r = Inr b \<longrightarrow> b = obj cid"
    and "fetch_and_store (\<lambda>k u. (r, ())) m cid now c () = (ob, c1, u)"
  shows "served_right obj cid c1 ob"
proof (rule fetch_and_store_right)
  show "verifies_origin (\<lambda>k u. (if k = cid then r else Inl [], ())) obj"
    using assms(2) by (auto simp: verifies_origin_def)
  show "fetch_and_store (\<lambda>k u. (if k = cid then r else Inl [], ())) m cid now c () = (ob, c1, u)"
    using assms(3) by (simp add: fetch_and_store_def)
qed (rule assms(1))

lemma advance_ok:
  assumes "advance E p j pc s = Some s'" "hs_pc s p = pc" "honest obj (hs_cache s)" "pc_ok E obj j pc"
    and "vec_ok (obj (jb_cid j))"
  shows "honest obj (hs_cache s') \<and> pc_ok E obj j (hs_pc s' p)"
proof (cases pc)
  case Arrived
  with assms job_granted [of E j] show ?thesis
    by (auto simp: Let_def denied_answer good_answer_def right_body_def grant_access_def split: grant.splits)
next
  case (Granted gr)
  obtain r g1 where v: "verify_pop_once (he_verify E) (he_dec E) (hs_replay s) (proof_header (jb_req j))
      (requester_id (he_dec E) (jb_req j)) (jb_cid j) ABILITY_READ (jb_now j) = (r, g1)" by fastforce
  with Granted assms show ?thesis
    by (cases r) (auto simp: denied_answer good_answer_def right_body_def grant_access_def)
next
  case (Allowed acc)
  obtain neg c where n: "(if contains_fresh (jb_cid j) (jb_now j) (hs_cache s) then (False, hs_cache s)
      else is_negative (jb_cid j) (jb_now j) (hs_cache s)) = (neg, c)" by fastforce
  then have "honest obj c" using assms(3) honest_negative [OF assms(3), of "jb_cid j" "jb_now j" neg c]
    by (auto split: if_splits)
  with Allowed assms n good_small [of E j obj] show ?thesis by (auto simp del: if_split split: if_splits)
next
  case (Checked acc)
  obtain h c where g: "cache_get (jb_cid j) (jb_now j) (hs_cache s) = (h, c)" by fastforce
  with Checked assms cache.good_after_lookup [OF assms(3) g] honest_sound [OF assms(3)] show ?thesis
    by (cases h) auto
next
  case (Inside acc)
  obtain h c where g: "cache_get (jb_cid j) (jb_now j) (hs_cache s) = (h, c)" by fastforce
  obtain neg c' where n: "is_negative (jb_cid j) (jb_now j) c = (neg, c')" by fastforce
  have hon: "honest obj c" by (rule cache.good_after_lookup [OF assms(3) g])
  with Inside assms g n honest_negative [OF hon n] honest_sound [OF assms(3)] good_small [of E j obj] show ?thesis
    by (cases h; cases neg) auto
next
  case (Fetched acc r)
  let ?m = "if sc_max_object_bytes (he_cfg E) = 0 then max_bytes (hs_cache s) else sc_max_object_bytes (he_cfg E)"
  obtain ob c u where f: "fetch_and_store (\<lambda>k u. (r, ())) ?m (jb_cid j) (jb_now j) (hs_cache s) () = (ob, c, u)"
    by (cases "fetch_and_store (\<lambda>k u. (r, ())) ?m (jb_cid j) (jb_now j) (hs_cache s) ()")
  have "served_right obj (jb_cid j) c ob" using stored_right [OF assms(3) _ f] assms(4) Fetched by simp
  with Fetched assms f good_small [of E j obj] show ?thesis
    by (cases ob) (auto simp: served_right_def Let_def)
next
  case (Obtained acc b hit)
  with assms(4) obtain r where "serve (jb_cid j) b (header_str (jb_req j) ''range'') acc (hs_cache s) (jb_now j) hit = Some r"
    "good_answer E obj j (if jb_head j then (to_http r)\<lparr>hr_body := []\<rparr> else to_http r)"
    using good_served [of E j acc obj "hs_cache s" "jb_now j" hit] assms(5) by auto
  with Obtained assms show ?thesis by auto
qed (use assms in \<open>auto split: if_splits\<close>)

section \<open>Locks and the replay guard\<close>

lemma advance_others: "advance E p j pc s = Some s' \<Longrightarrow> q \<noteq> p \<Longrightarrow> hs_pc s' q = hs_pc s q"
  by (cases pc) (auto simp: Let_def split: if_splits prod.splits option.splits)

definition locks_ok :: "'ch http_env \<Rightarrow> http_sys \<Rightarrow> bool" where
  "locks_ok E s \<longleftrightarrow>
     (\<forall>p. holding (hs_pc s p) \<longleftrightarrow> hs_locks s (jb_cid (he_job E p)) = Some p) \<and>
     (\<forall>k p. hs_locks s k = Some p \<longrightarrow> jb_cid (he_job E p) = k)"

text \<open>What a step does to the lock of the task's id.\<close>

lemma advance_locks:
  assumes "advance E p j pc s = Some s'" "hs_pc s p = pc"
  shows "if holding pc = holding (hs_pc s' p) then hs_locks s' = hs_locks s
    else if holding pc then hs_locks s' = (hs_locks s)(jb_cid j := None)
    else hs_locks s (jb_cid j) = None \<and> hs_locks s' = (hs_locks s)(jb_cid j \<mapsto> p)"
  using assms
  by (cases pc)
     (auto simp: Let_def denied_answer fun_eq_iff split: if_splits prod.splits option.splits sum.splits obtained.splits)

lemma locks_ok_update:
  assumes "locks_ok E s" "\<And>q. q \<noteq> p \<Longrightarrow> hs_pc s' q = hs_pc s q"
    and "if holding (hs_pc s p) = holding (hs_pc s' p) then hs_locks s' = hs_locks s
      else if holding (hs_pc s p) then hs_locks s' = (hs_locks s)(jb_cid (he_job E p) := None)
      else hs_locks s (jb_cid (he_job E p)) = None \<and> hs_locks s' = (hs_locks s)(jb_cid (he_job E p) \<mapsto> p)"
  shows "locks_ok E s'"
proof -
  have own: "holding (hs_pc s q) \<longleftrightarrow> hs_locks s (jb_cid (he_job E q)) = Some q"
    and cid: "hs_locks s k = Some q \<Longrightarrow> jb_cid (he_job E q) = k" for q k
    using assms(1) by (auto simp: locks_ok_def)
  show ?thesis unfolding locks_ok_def
  proof (intro conjI allI impI)
    show "holding (hs_pc s' q) \<longleftrightarrow> hs_locks s' (jb_cid (he_job E q)) = Some q" for q
      using assms(2) [of q] assms(3) own [of q] own [of p] by (cases "q = p") (auto split: if_splits)
    show "jb_cid (he_job E q) = k" if "hs_locks s' k = Some q" for k q
      using that assms(3) cid [of k q] by (auto split: if_splits)
  qed
qed

definition request_of :: "'ch http_env \<Rightarrow> task \<Rightarrow> pop_request" where
  "request_of E p =
     \<lparr>rq_header = proof_header (jb_req (he_job E p)), rq_who = requester_id (he_dec E) (jb_req (he_job E p)),
      rq_cid = jb_cid (he_job E p), rq_ability = ABILITY_READ, rq_now = jb_now (he_job E p)\<rparr>"

definition guard_at :: "'ch http_env \<Rightarrow> replay_guard \<Rightarrow> task list \<Rightarrow> replay_guard" where
  "guard_at E g0 ps = pop_run (he_verify E) (he_dec E) g0 (map (request_of E) ps)"

fun admitted_pc :: "cpc \<Rightarrow> bool" where
  "admitted_pc Arrived = False"
| "admitted_pc (Granted gr) = False"
| "admitted_pc (Answered r) \<longleftrightarrow> hr_status r \<noteq> 403"
| "admitted_pc Panicked = False"
| "admitted_pc Dropped = False"
| "admitted_pc _ = True"

text \<open>A task whose only way in is a proof of possession with a chain.\<close>

definition proof_only :: "'ch http_env \<Rightarrow> task \<Rightarrow> bool" where
  "proof_only E p \<longleftrightarrow> jb_cid (he_job E p) \<notin> pub_cids (he_public E) \<and> sc_presign_keys (he_cfg E) = []"

definition accepted_at :: "'ch http_env \<Rightarrow> replay_guard \<Rightarrow> task list \<Rightarrow> task \<Rightarrow> bool" where
  "accepted_at E g0 ps p \<longleftrightarrow>
     (\<exists>xs ys. ps = xs @ p # ys \<and> fst (pop_step (he_verify E) (he_dec E) (guard_at E g0 xs) (request_of E p)) = Inr ())"

definition log_ok :: "'ch http_env \<Rightarrow> replay_guard \<Rightarrow> http_sys \<Rightarrow> bool" where
  "log_ok E g0 s \<longleftrightarrow>
     distinct (hs_log s) \<and> hs_replay s = guard_at E g0 (hs_log s) \<and>
     (\<forall>p \<in> set (hs_log s). hs_pc s p \<noteq> Arrived \<and> (\<forall>gr. hs_pc s p \<noteq> Granted gr)) \<and>
     (\<forall>p. admitted_pc (hs_pc s p) \<and> proof_only E p \<longrightarrow> accepted_at E g0 (hs_log s) p)"

lemma guard_at_snoc:
  "guard_at E g0 (ps @ [p]) = snd (pop_step (he_verify E) (he_dec E) (guard_at E g0 ps) (request_of E p))"
  by (simp add: guard_at_def pop_run_def)

lemma accepted_later: "accepted_at E g0 ps p \<Longrightarrow> accepted_at E g0 (ps @ [q]) p"
  unfolding accepted_at_def by (metis append.assoc append_Cons)

lemma job_grant_proof_only: "proof_only E p \<Longrightarrow> job_grant E (he_job E p) \<in> {GPopAndCap, GDenied}"
  by (auto simp: proof_only_def job_grant_def resolve_grant_def is_public_def split: option.splits sum.splits)

text \<open>Steps that do not reach the guard and do not admit a task keep the log.\<close>

lemma log_ok_update:
  assumes "log_ok E g0 s" "\<And>q. q \<noteq> p \<Longrightarrow> hs_pc s' q = hs_pc s q"
    and "hs_log s' = hs_log s" "hs_replay s' = hs_replay s"
    and "proof_only E p \<Longrightarrow> admitted_pc (hs_pc s' p) \<Longrightarrow> admitted_pc (hs_pc s p)"
    and "p \<in> set (hs_log s) \<Longrightarrow> hs_pc s' p \<noteq> Arrived \<and> (\<forall>gr. hs_pc s' p \<noteq> Granted gr)"
  shows "log_ok E g0 s'"
  using assms unfolding log_ok_def by (metis (no_types, lifting))

lemma advance_log_granted:
  assumes adv: "advance E p (he_job E p) (hs_pc s p) s = Some s'" and "log_ok E g0 s" and pc: "hs_pc s p = Granted gr"
  shows "log_ok E g0 s'"
proof -
  obtain r g1 where v: "pop_step (he_verify E) (he_dec E) (hs_replay s) (request_of E p) = (r, g1)" by fastforce
  have s': "s' = at_pc p (case r of Inl e \<Rightarrow> denied_pc (he_job E p) | Inr u \<Rightarrow> Allowed (grant_access gr))
      (s\<lparr>hs_replay := g1, hs_log := hs_log s @ [p]\<rparr>)"
    using adv pc v by (simp add: pop_step_def request_of_def)
  have out: "p \<notin> set (hs_log s)" using assms(2) pc by (auto simp: log_ok_def)
  have g: "hs_replay s = guard_at E g0 (hs_log s)" using assms(2) by (simp add: log_ok_def)
  have "accepted_at E g0 (hs_log s @ [p]) q" if "admitted_pc (hs_pc s' q)" "proof_only E q" for q
  proof (cases "q = p")
    case True
    then have "r = Inr ()" using that(1) unfolding s' by (cases r) (simp_all add: denied_answer)
    with v g have "fst (pop_step (he_verify E) (he_dec E) (guard_at E g0 (hs_log s)) (request_of E p)) = Inr ()" by simp
    with True show ?thesis unfolding accepted_at_def by blast
  next
    case False
    with that assms(2) have "accepted_at E g0 (hs_log s) q" unfolding s' log_ok_def by simp
    then show ?thesis by (rule accepted_later)
  qed
  moreover have "g1 = guard_at E g0 (hs_log s @ [p])" using v g by (simp add: guard_at_snoc)
  ultimately show ?thesis
    using assms(2) out unfolding log_ok_def s' by (auto simp: denied_answer split: sum.splits)
qed

lemma advance_log:
  assumes "advance E p (he_job E p) (hs_pc s p) s = Some s'" "log_ok E g0 s"
    and "\<And>gr. hs_pc s p = Granted gr \<Longrightarrow> gr = GPopAndCap"
  shows "log_ok E g0 s'"
proof (cases "hs_pc s p")
  case Arrived
  have "p \<notin> set (hs_log s)" using assms(2) Arrived by (auto simp: log_ok_def)
  moreover have "\<not> admitted_pc (hs_pc s' p)" if "proof_only E p"
    using job_grant_proof_only [OF that] assms(1) Arrived by (auto simp: Let_def denied_answer)
  ultimately show ?thesis
    using assms(1) Arrived by (intro log_ok_update [OF assms(2) advance_others [OF assms(1)]]) (auto simp: Let_def)
next
  case (Granted gr)
  then show ?thesis using advance_log_granted [OF assms(1,2)] by blast
next
  case (Allowed acc)
  with assms(1) show ?thesis
    by (intro log_ok_update [OF assms(2) advance_others [OF assms(1)]]) (auto split: if_splits prod.splits)
next
  case (Checked acc)
  with assms(1) show ?thesis
    by (intro log_ok_update [OF assms(2) advance_others [OF assms(1)]]) (auto split: prod.splits option.splits)
next
  case (Waiting acc)
  with assms(1) show ?thesis
    by (intro log_ok_update [OF assms(2) advance_others [OF assms(1)]]) (auto split: if_splits)
next
  case (Inside acc)
  with assms(1) show ?thesis
    by (intro log_ok_update [OF assms(2) advance_others [OF assms(1)]])
       (auto split: prod.splits option.splits if_splits)
next
  case (Fetched acc r)
  with assms(1) show ?thesis
    by (intro log_ok_update [OF assms(2) advance_others [OF assms(1)]])
       (auto simp: Let_def split: prod.splits obtained.splits)
next
  case (Obtained acc b hit)
  with assms(1) show ?thesis
    by (intro log_ok_update [OF assms(2) advance_others [OF assms(1)]]) (auto split: option.splits)
qed (use assms(1) in simp_all)

section \<open>The invariant of a run\<close>

definition conc_ok :: "'ch http_env \<Rightarrow> (string \<Rightarrow> bytes) \<Rightarrow> replay_guard \<Rightarrow> http_sys \<Rightarrow> bool" where
  "conc_ok E obj g0 s \<longleftrightarrow> honest obj (hs_cache s) \<and> (\<forall>p. pc_ok E obj (he_job E p) (hs_pc s p)) \<and>
     locks_ok E s \<and> log_ok E g0 s"

text \<open>The origin answers with the published object or an error.\<close>

definition true_answer :: "'ch http_env \<Rightarrow> (string \<Rightarrow> bytes) \<Rightarrow> conc_event \<Rightarrow> bool" where
  "true_answer E obj e \<longleftrightarrow> (\<forall>p b. e = Origin_Answers p (Inr b) \<longrightarrow> b = obj (jb_cid (he_job E p)))"

lemma conc_step_others:
  "conc_step E e s = Some s' \<Longrightarrow> e \<in> {Advance p, Origin_Answers p r, Drop_Task p} \<Longrightarrow> q \<noteq> p \<Longrightarrow> hs_pc s' q = hs_pc s q"
  by (auto simp: advance_others split: cpc.splits if_splits)

lemma conc_step_ok:
  assumes step: "conc_step E e s = Some s'" and true: "true_answer E obj e" and ok: "conc_ok E obj g0 s"
    and small: "\<And>cid. vec_ok (obj cid)"
  shows "conc_ok E obj g0 s'"
proof -
  have hon: "honest obj (hs_cache s)" and pcs: "pc_ok E obj (he_job E p) (hs_pc s p)" and locks: "locks_ok E s"
    and logs: "log_ok E g0 s" for p
    using ok by (auto simp: conc_ok_def)
  have out: "pc_ok E obj (he_job E p) (hs_pc s' p) \<Longrightarrow> \<forall>q. pc_ok E obj (he_job E q) (hs_pc s' q)"
    if "\<And>q. q \<noteq> p \<Longrightarrow> hs_pc s' q = hs_pc s q" for p
    using that pcs by metis
  show ?thesis
  proof (cases e)
    case (Advance p)
    with step have adv: "advance E p (he_job E p) (hs_pc s p) s = Some s'" by simp
    note others = advance_others [OF adv]
    have "gr = GPopAndCap" if "hs_pc s p = Granted gr" for gr using pcs [of p] that by simp
    with advance_ok [OF adv refl hon pcs small] out [of p, OF others]
      locks_ok_update [OF locks others advance_locks [OF adv refl]] advance_log [OF adv logs]
    show ?thesis by (simp add: conc_ok_def)
  next
    case (Origin_Answers p r)
    then obtain acc where f: "hs_pc s p = Fetching acc" "s' = at_pc p (Fetched acc r) s"
      using step by (auto split: cpc.splits)
    have "pc_ok E obj (he_job E p) (hs_pc s' p)"
      using f pcs [of p] true Origin_Answers by (auto simp: true_answer_def)
    moreover have "log_ok E g0 s'" by (rule log_ok_update [OF logs, of p]) (simp_all add: f)
    moreover have "locks_ok E s'" by (rule locks_ok_update [OF locks, of p]) (simp_all add: f)
    ultimately show ?thesis using hon out [of p] f by (simp add: conc_ok_def)
  next
    case (Drop_Task p)
    then have s': "s' = at_pc p Dropped (if holding (hs_pc s p) then unlock (jb_cid (he_job E p)) s else s)"
      using step by (simp split: if_splits)
    have "log_ok E g0 s'" by (rule log_ok_update [OF logs, of p]) (simp_all add: s')
    moreover have "locks_ok E s'" by (rule locks_ok_update [OF locks, of p]) (auto simp: s' unlock_def)
    ultimately show ?thesis using hon out [of p] s' by (simp add: conc_ok_def)
  qed
qed

lemma conc_run_ok:
  "conc_run E es s = Some s' \<Longrightarrow> list_all (true_answer E obj) es \<Longrightarrow> conc_ok E obj g0 s \<Longrightarrow>
     (\<And>cid. vec_ok (obj cid)) \<Longrightarrow> conc_ok E obj g0 s'"
  by (induction es arbitrary: s) (auto simp: bind_eq_Some_conv dest: conc_step_ok)

lemma conc_start_ok: "conc_ok E obj g0 (conc_start (cache_new m ttl) g0)"
  by (simp add: conc_ok_def conc_start_def honest_new locks_ok_def log_ok_def guard_at_def pop_run_def)

text \<open>
  C4: serving over HTTP is safe under concurrency. In every interleaving of any number of requests, with
  clients going away at any moment, an origin that answers each fetch with the published object or an
  error leaves the cache holding only published objects; no handler panics; every response carries the
  bytes its request may have (the whole object, the positions asked for, or none of them) and is a 403
  unless the request showed a right to the object; and no two tasks are inside the single-flight lock of
  the same content id.
\<close>
theorem concurrent_requests_safe:
  assumes "conc_run E es (conc_start (cache_new m ttl) g0) = Some s" and "list_all (true_answer E obj) es"
    and "\<And>cid. vec_ok (obj cid)"
  shows "(\<forall>cid bs. content (hs_cache s) cid = Some bs \<longrightarrow> bs = obj cid) \<and>
    (\<forall>p. hs_pc s p \<noteq> Panicked \<and> (\<forall>r. hs_pc s p = Answered r \<longrightarrow> good_answer E obj (he_job E p) r)) \<and>
    (\<forall>p q. holding (hs_pc s p) \<longrightarrow> holding (hs_pc s q) \<longrightarrow> jb_cid (he_job E p) = jb_cid (he_job E q) \<longrightarrow> p = q)"
proof -
  have ok: "conc_ok E obj g0 s" by (rule conc_run_ok [OF assms(1,2) conc_start_ok assms(3)])
  then have pcs: "pc_ok E obj (he_job E p) (hs_pc s p)" for p by (simp add: conc_ok_def)
  have "hs_pc s p \<noteq> Panicked \<and> (\<forall>r. hs_pc s p = Answered r \<longrightarrow> good_answer E obj (he_job E p) r)" for p
    using pcs [of p] by auto
  moreover have "p = q" if "holding (hs_pc s p)" "holding (hs_pc s q)"
    "jb_cid (he_job E p) = jb_cid (he_job E q)" for p q
    using ok that unfolding conc_ok_def locks_ok_def by (metis option.inject)
  ultimately show ?thesis using ok unfolding conc_ok_def cache.good_def by blast
qed

section \<open>Concurrent replays\<close>

lemma guard_at_ok:
  assumes "guard_ok g0"
  shows "guard_ok (guard_at E g0 ps) \<and> unat (rg_capacity (guard_at E g0 ps)) = unat (rg_capacity g0)"
proof -
  have "\<forall>q \<in> set (map (request_of E) ps). length (rq_who q) = 32"
    by (auto simp: request_of_def requester_id_length)
  from pop_run_keys [OF this, of "he_verify E" "he_dec E" g0] show ?thesis
    using replay.run_ok [OF assms] unfolding guard_at_def by metis
qed

lemma accepted_once:
  assumes "guard_ok g0" "length (xs @ p # mid @ q # ys) \<le> unat (rg_capacity g0)"
    and "fst (pop_step (he_verify E) (he_dec E) (guard_at E g0 xs) (request_of E p)) = Inr ()"
    and "requester_id (he_dec E) (jb_req (he_job E q)) = requester_id (he_dec E) (jb_req (he_job E p))"
    and "proof_header (jb_req (he_job E q)) = proof_header (jb_req (he_job E p))"
  shows "fst (pop_step (he_verify E) (he_dec E) (guard_at E g0 (xs @ p # mid)) (request_of E q)) \<noteq> Inr ()"
proof -
  let ?g = "guard_at E g0 xs"
  let ?who = "requester_id (he_dec E) (jb_req (he_job E p))"
  obtain g1 where first: "pop_step (he_verify E) (he_dec E) ?g (request_of E p) = (Inr (), g1)"
    using assms(3) by (cases "pop_step (he_verify E) (he_dec E) ?g (request_of E p)") simp
  obtain hdr where hdr: "proof_header (jb_req (he_job E p)) = Some hdr"
    using first by (cases "proof_header (jb_req (he_job E p))")
      (auto simp: pop_step_def request_of_def verify_pop_once_def verify_pop_def split: sum.splits)
  have later: "guard_at E g0 (xs @ p # mid) = pop_run (he_verify E) (he_dec E) g1 (map (request_of E) mid)"
    using first by (simp add: guard_at_def pop_run_def)
  have "fst (verify_pop_once (he_verify E) (he_dec E) (pop_run (he_verify E) (he_dec E) g1 (map (request_of E) mid))
      (Some hdr) ?who (jb_cid (he_job E q)) ABILITY_READ (jb_now (he_job E q))) \<noteq> Inr ()"
  proof (rule single_use)
    show "guard_ok ?g" using guard_at_ok [OF assms(1)] by blast
    show "length (map (request_of E) mid) < unat (rg_capacity ?g)"
      using guard_at_ok [OF assms(1), of E xs] assms(2) by simp
    show "verify_pop_once (he_verify E) (he_dec E) ?g (Some hdr) ?who (jb_cid (he_job E p)) ABILITY_READ
        (jb_now (he_job E p)) = (Inr (), g1)"
      using first hdr by (simp add: pop_step_def request_of_def)
  qed (auto simp: requester_id_length request_of_def)
  then show ?thesis using assms(4,5) hdr by (simp add: later pop_step_def request_of_def)
qed


section \<open>Every request can be answered\<close>

fun pc_rank :: "cpc \<Rightarrow> nat" where
  "pc_rank Arrived = 9"
| "pc_rank (Granted gr) = 8"
| "pc_rank (Allowed acc) = 7"
| "pc_rank (Checked acc) = 6"
| "pc_rank (Waiting acc) = 5"
| "pc_rank (Inside acc) = 4"
| "pc_rank (Fetching acc) = 3"
| "pc_rank (Fetched acc r) = 2"
| "pc_rank (Obtained acc b hit) = 1"
| "pc_rank _ = 0"

text \<open>What a task does next, the origin answering \<open>ans\<close>.\<close>

definition next_event :: "(task \<Rightarrow> bytes result) \<Rightarrow> task \<Rightarrow> http_sys \<Rightarrow> conc_event" where
  "next_event ans p s = (case hs_pc s p of Fetching acc \<Rightarrow> Origin_Answers p (ans p) | _ \<Rightarrow> Advance p)"

lemma next_enabled:
  assumes "\<not> finished (hs_pc s p)"
    and "\<And>acc. hs_pc s p = Waiting acc \<Longrightarrow> hs_locks s (jb_cid (he_job E p)) = None"
  shows "\<exists>s'. conc_step E (next_event ans p s) s = Some s' \<and> pc_rank (hs_pc s' p) < pc_rank (hs_pc s p) \<and> hs_pc s' p \<noteq> Dropped"
proof (cases "hs_pc s p")
  case Arrived
  then show ?thesis by (simp add: next_event_def Let_def denied_answer)
next
  case (Granted gr)
  obtain r g1 where "verify_pop_once (he_verify E) (he_dec E) (hs_replay s) (proof_header (jb_req (he_job E p)))
      (requester_id (he_dec E) (jb_req (he_job E p))) (jb_cid (he_job E p)) ABILITY_READ (jb_now (he_job E p)) = (r, g1)"
    by fastforce
  with Granted show ?thesis by (cases r) (simp_all add: next_event_def denied_answer)
next
  case (Allowed acc)
  then show ?thesis by (auto simp: next_event_def split: prod.split)
next
  case (Checked acc)
  then show ?thesis by (auto simp: next_event_def split: prod.split option.split)
next
  case (Waiting acc)
  with assms(2) show ?thesis by (simp add: next_event_def)
next
  case (Inside acc)
  then show ?thesis by (auto simp: next_event_def split: prod.split option.split)
next
  case (Fetching acc)
  then show ?thesis by (simp add: next_event_def)
next
  case (Fetched acc r)
  then show ?thesis by (auto simp: next_event_def Let_def split: prod.split obtained.split)
next
  case (Obtained acc b hit)
  then show ?thesis by (auto simp: next_event_def split: option.split)
qed (use assms(1) in simp_all)

text \<open>Events that are steps of tasks and answers of the origin, no client going away.\<close>

definition served_events :: "(task \<Rightarrow> bytes result) \<Rightarrow> conc_event set" where
  "served_events ans = range Advance \<union> range (\<lambda>p. Origin_Answers p (ans p))"

lemma next_event_served: "next_event ans p s \<in> served_events ans"
  by (auto simp: next_event_def served_events_def split: cpc.split)

lemma next_event_others:
  "conc_step E (next_event ans p s) s = Some s' \<Longrightarrow> q \<noteq> p \<Longrightarrow> hs_pc s' q = hs_pc s q"
  by (rule conc_step_others [where p = p and r = "ans p"]) (auto simp: next_event_def split: cpc.split)

lemma served_true:
  assumes "\<forall>p b. ans p = Inr b \<longrightarrow> b = obj (jb_cid (he_job E p))"
  shows "e \<in> served_events ans \<Longrightarrow> true_answer E obj e"
  using assms by (auto simp: served_events_def true_answer_def)

lemma conc_run_append: "conc_run E (es @ fs) s = Option.bind (conc_run E es s) (conc_run E fs)"
  by (induction es arbitrary: s) (auto split: bind_splits)

text \<open>A task that holds a lock can always go on until it lets go, and nothing else moves.\<close>

lemma holder_lets_go:
  "holding (hs_pc s p) \<Longrightarrow> \<exists>es s'. conc_run E es s = Some s' \<and> set es \<subseteq> served_events ans \<and>
     \<not> holding (hs_pc s' p) \<and> (\<forall>q. q \<noteq> p \<longrightarrow> hs_pc s' q = hs_pc s q)"
proof (induction "pc_rank (hs_pc s p)" arbitrary: s rule: less_induct)
  case less
  obtain s1 where s1: "conc_step E (next_event ans p s) s = Some s1" "pc_rank (hs_pc s1 p) < pc_rank (hs_pc s p)"
    using next_enabled [of s p E ans] less.prems by (cases "hs_pc s p") auto
  note others = next_event_others [OF s1(1)]
  show ?case
  proof (cases "holding (hs_pc s1 p)")
    case True
    from less.hyps [OF s1(2) True] obtain es s' where "conc_run E es s1 = Some s'" "set es \<subseteq> served_events ans"
      "\<not> holding (hs_pc s' p)" "\<forall>q. q \<noteq> p \<longrightarrow> hs_pc s' q = hs_pc s1 q" by blast
    with s1(1) others next_event_served [of ans p s] show ?thesis
      by (intro exI [of _ "next_event ans p s # es"] exI [of _ s']) auto
  next
    case False
    with s1(1) others next_event_served [of ans p s] show ?thesis
      by (intro exI [of _ "[next_event ans p s]"] exI [of _ s1]) auto
  qed
qed

lemma lock_freed:
  assumes ok: "conc_ok E obj g0 s" and small: "\<And>cid. vec_ok (obj cid)"
    and ans: "\<forall>p b. ans p = Inr b \<longrightarrow> b = obj (jb_cid (he_job E p))"
    and wait: "\<not> holding (hs_pc s p)"
  shows "\<exists>es s'. conc_run E es s = Some s' \<and> set es \<subseteq> served_events ans \<and>
    hs_locks s' (jb_cid (he_job E p)) = None \<and> hs_pc s' p = hs_pc s p"
proof (cases "hs_locks s (jb_cid (he_job E p))")
  case None
  then show ?thesis by (intro exI [of _ "[]"] exI [of _ s]) simp
next
  case (Some q)
  let ?k = "jb_cid (he_job E p)"
  have locks: "locks_ok E s" using ok by (simp add: conc_ok_def)
  then have "holding (hs_pc s q)" using Some unfolding locks_ok_def by metis
  from holder_lets_go [OF this, of E ans] obtain es s' where run: "conc_run E es s = Some s'" "set es \<subseteq> served_events ans"
    and let_go: "\<not> holding (hs_pc s' q)" "\<forall>r. r \<noteq> q \<longrightarrow> hs_pc s' r = hs_pc s r" by blast
  have "q \<noteq> p" using \<open>holding (hs_pc s q)\<close> wait by auto
  have "list_all (true_answer E obj) es" using run(2) served_true [OF ans] by (auto simp: list_all_iff)
  from conc_run_ok [OF run(1) this ok small] have locks': "locks_ok E s'" by (simp add: conc_ok_def)
  have "hs_locks s' ?k = None"
  proof (rule ccontr)
    assume "hs_locks s' ?k \<noteq> None"
    then obtain r where r: "hs_locks s' ?k = Some r" by auto
    then have h: "holding (hs_pc s' r)" and k: "jb_cid (he_job E r) = ?k"
      using locks' unfolding locks_ok_def by metis+
    then have "r \<noteq> q" using let_go(1) by auto
    with let_go(2) h have "holding (hs_pc s r)" by simp
    then have "hs_locks s ?k = Some r" using locks k unfolding locks_ok_def by metis
    with Some \<open>r \<noteq> q\<close> show False by simp
  qed
  with run let_go(2) \<open>q \<noteq> p\<close> show ?thesis by (intro exI [of _ es] exI [of _ s']) simp
qed

lemma runs_to_answer:
  assumes small: "\<And>cid. vec_ok (obj cid)" and ans: "\<forall>p b. ans p = Inr b \<longrightarrow> b = obj (jb_cid (he_job E p))"
  shows "conc_ok E obj g0 s \<Longrightarrow> hs_pc s p \<noteq> Dropped \<Longrightarrow>
    \<exists>es s' r. conc_run E es s = Some s' \<and> set es \<subseteq> served_events ans \<and> hs_pc s' p = Answered r"
proof (induction "pc_rank (hs_pc s p)" arbitrary: s rule: less_induct)
  case less
  show ?case
  proof (cases "finished (hs_pc s p)")
    case True
    have "pc_ok E obj (he_job E p) (hs_pc s p)" using less.prems(1) by (simp add: conc_ok_def)
    with True less.prems(2) obtain r where "hs_pc s p = Answered r" by (cases "hs_pc s p") auto
    then show ?thesis by (intro exI [of _ "[]"] exI [of _ s] exI [of _ r]) simp
  next
    case False
    obtain es s1 where s1: "conc_run E es s = Some s1" "set es \<subseteq> served_events ans" "hs_pc s1 p = hs_pc s p"
      and free: "\<And>acc. hs_pc s1 p = Waiting acc \<Longrightarrow> hs_locks s1 (jb_cid (he_job E p)) = None"
    proof (cases "\<exists>acc. hs_pc s p = Waiting acc")
      case True
      then have "\<not> holding (hs_pc s p)" by auto
      from lock_freed [OF less.prems(1) small ans this] that show ?thesis by blast
    next
      case False
      with that [of "[]" s] show ?thesis by auto
    qed
    have ok1: "conc_ok E obj g0 s1"
      using conc_run_ok [OF s1(1) _ less.prems(1) small] served_true [OF ans] s1(2) by (auto simp: list_all_iff)
    obtain s2 where s2: "conc_step E (next_event ans p s1) s1 = Some s2" "pc_rank (hs_pc s2 p) < pc_rank (hs_pc s1 p)"
      "hs_pc s2 p \<noteq> Dropped"
      using next_enabled [of s1 p E ans] False s1(3) free by auto
    have ok2: "conc_ok E obj g0 s2"
      by (rule conc_step_ok [OF s2(1) served_true [OF ans next_event_served] ok1 small])
    obtain fs s' r where "conc_run E fs s2 = Some s'" "set fs \<subseteq> served_events ans" "hs_pc s' p = Answered r"
      using less.hyps [OF _ ok2 s2(3)] s2(2) s1(3) by auto
    with s1 s2(1) next_event_served [of ans p s1] show ?thesis
      by (intro exI [of _ "es @ next_event ans p s1 # fs"] exI [of _ s'] exI [of _ r]) (simp add: conc_run_append)
  qed
qed

text \<open>
  C21: no deadlock. From every reachable state, whatever tasks wait for each other's locks and whoever has
  gone away, every request whose client is still there can be brought to its answer by steps of the
  tasks and answers of the origin, errors or the published objects, in some order.
\<close>
theorem concurrent_request_finishes:
  assumes "conc_run E es (conc_start (cache_new m ttl) g0) = Some s" and "list_all (true_answer E obj) es"
    and "\<And>cid. vec_ok (obj cid)" and "\<forall>p b. ans p = Inr b \<longrightarrow> b = obj (jb_cid (he_job E p))"
    and "hs_pc s p \<noteq> Dropped"
  shows "\<exists>es' s' r. conc_run E es' s = Some s' \<and> set es' \<subseteq> served_events ans \<and> hs_pc s' p = Answered r"
  by (rule runs_to_answer [OF assms(3,4) conc_run_ok [OF assms(1,2) conc_start_ok assms(3)] assms(5)])

section \<open>A race\<close>

text \<open>
  Two tasks present the same proof for the same private object: both are granted before either reaches
  the replay guard; the first gets the object from the origin, the second is refused.
\<close>

definition race_env :: "unit http_env" where
  "race_env =
     \<lparr>he_verify = one_proof_verify, he_dec = ref_decode, he_iam = demo_iam, he_cfg = demo_server_config,
      he_public = public_new,
      he_job = (\<lambda>p. \<lparr>jb_req = demo_request, jb_cid = ''cidA'', jb_head = False, jb_now = 900\<rparr>)\<rparr>"

definition race_events :: "conc_event list" where
  "race_events =
     [Advance 1, Advance 2, Advance 1, Advance 2, Advance 1, Advance 1, Advance 1, Advance 1,
      Origin_Answers 1 (Inr demo_object), Advance 1, Advance 1, Drop_Task 3]"

definition race_end :: http_sys where
  "race_end = the (conc_run race_env race_events (conc_start (cache_new 100 60) (guard_new 8)))"

lemma race_fields:
  "he_job race_env p = \<lparr>jb_req = demo_request, jb_cid = ''cidA'', jb_head = False, jb_now = 900\<rparr>"
  "he_verify race_env = one_proof_verify" "he_dec race_env = ref_decode" "he_cfg race_env = demo_server_config"
  by (simp_all add: race_env_def)

lemma race_grant:
  "job_grant race_env \<lparr>jb_req = demo_request, jb_cid = ''cidA'', jb_head = False, jb_now = 900\<rparr> = GPopAndCap"
proof -
  have ok: "one_proof_verify (replicate 32 1) (challenge (replicate 32 1) ''cidA'' ''cdn:read'' (replicate 16 2) 1000) toy_sig"
    by (simp add: one_proof_verify_def toy_verify_def)
  have "capability_hex demo_request = []"
    by (simp add: capability_hex_def header_str_def demo_request_def)
  then show ?thesis
    using sample_verifies(1) [where vf = one_proof_verify, OF ok]
    by (simp add: job_grant_def race_env_def resolve_grant_def is_public_def public_new_def demo_iam_def
        ABILITY_READ_def demo_server_config_def demo_requester demo_proof_header)
qed

lemma race_guard:
  "\<exists>g1. verify_pop_once one_proof_verify ref_decode (guard_new 8) (Some sample_proof) (replicate 32 1) ''cidA''
      ABILITY_READ 900 = (Inr (), g1) \<and>
    (\<exists>e g2. verify_pop_once one_proof_verify ref_decode g1 (Some sample_proof) (replicate 32 1) ''cidA''
      ABILITY_READ 900 = (Inl e, g2))"
proof -
  let ?v = "\<lambda>g. verify_pop_once one_proof_verify ref_decode g (Some sample_proof) (replicate 32 1) ''cidA'' ABILITY_READ 900"
  have ok: "one_proof_verify (replicate 32 1) (challenge (replicate 32 1) ''cidA'' ''cdn:read'' (replicate 16 2) 1000) toy_sig"
    by (simp add: one_proof_verify_def toy_verify_def)
  obtain g1 where first: "?v (guard_new 8) = (Inr (), g1)"
    using sample_verifies(2) [where vf = one_proof_verify, OF ok]
    by (cases "?v (guard_new 8)") (simp add: ABILITY_READ_def)
  have "fst (?v (pop_run one_proof_verify ref_decode g1 [])) \<noteq> Inr ()"
    by (rule single_use [OF guard_new_ok _ _ _ first]) (simp_all add: guard_new_def max_def word_le_nat_alt)
  then have "fst (?v g1) \<noteq> Inr ()" by (simp add: pop_run_def)
  then have "\<exists>e g2. ?v g1 = (Inl e, g2)" by (cases "?v g1"; cases "fst (?v g1)") auto
  with first show ?thesis by blast
qed

lemma race_ran:
  "case conc_run race_env race_events (conc_start (cache_new 100 60) (guard_new 8)) of
     None \<Rightarrow> False
   | Some s \<Rightarrow> (\<exists>r r'. hs_pc s 1 = Answered r \<and> hs_pc s 2 = Answered r') \<and> hs_log s = [1, 2] \<and> hs_pc s 4 = Arrived"
proof -
  obtain g1 e g2 where v: "verify_pop_once one_proof_verify ref_decode (guard_new 8) (Some sample_proof)
      (replicate 32 1) ''cidA'' ABILITY_READ 900 = (Inr (), g1)"
    "verify_pop_once one_proof_verify ref_decode g1 (Some sample_proof) (replicate 32 1) ''cidA'' ABILITY_READ 900 = (Inl e, g2)"
    using race_guard by blast
  have none: "header_str demo_request ''if-none-match'' = None" "header_str demo_request ''range'' = None"
    by (simp_all add: header_str_def demo_request_def)
  have upd: "(\<lambda>p. Arrived)(2 := Granted GPopAndCap, 1 := x, 2 := y) = (\<lambda>p. Arrived)(1 := x, 2 := y)" for x y
    by (rule ext) simp
  have start: "conc_run race_env (take 4 race_events) (conc_start (cache_new 100 60) (guard_new 8))
    = Some \<lparr>hs_cache = cache_new 100 60, hs_replay = g2, hs_locks = (\<lambda>k. None),
        hs_pc = (\<lambda>p. Arrived)(1 := Allowed Authorized, 2 := denied_pc (he_job race_env 2)), hs_log = [1, 2]\<rparr>"
    using v
    by (simp add: race_events_def conc_start_def at_pc_def Let_def grant_access_def demo_requester demo_proof_header
        race_grant race_fields upd fun_upd_twist)
  have rest: "case conc_run race_env (drop 4 race_events)
     \<lparr>hs_cache = cache_new 100 60, hs_replay = g2, hs_locks = (\<lambda>k. None),
        hs_pc = (\<lambda>p. Arrived)(1 := Allowed Authorized, 2 := denied_pc (he_job race_env 2)), hs_log = [1, 2]\<rparr> of
     None \<Rightarrow> False
   | Some s \<Rightarrow> (\<exists>r r'. hs_pc s 1 = Answered r \<and> hs_pc s 2 = Answered r') \<and> hs_log s = [1, 2] \<and> hs_pc s 4 = Arrived"
    using evict_room
    by (simp add: race_events_def at_pc_def unlock_def denied_answer race_fields none cache_new_def contains_fresh_def is_negative_def
        cache_get_def next_tick_def Let_def hm_get_def hm_insert_def fetch_and_store_def cache_insert_def
        insert_with_ttl_def drop_entry_def len64_def sat_add_def word_le_nat_alt word_less_nat_alt
        if_none_match_matches_def demo_object_def demo_server_config_def serve_def parse_range_def)
  have "conc_run race_env race_events s = Option.bind (conc_run race_env (take 4 race_events) s) (conc_run race_env (drop 4 race_events))"
    for s
    using conc_run_append [of race_env "take 4 race_events" "drop 4 race_events" s] by simp
  with start rest show ?thesis by simp
qed

lemma race_ends:
  "conc_run race_env race_events (conc_start (cache_new 100 60) (guard_new 8)) = Some race_end"
  "\<exists>r. hs_pc race_end 1 = Answered r" "\<exists>r. hs_pc race_end 2 = Answered r" "hs_log race_end = [1, 2]"
  "hs_pc race_end 4 = Arrived"
  using race_ran by (auto simp: race_end_def split: option.splits)

lemma race_true: "list_all (true_answer race_env (\<lambda>cid. demo_object)) race_events"
  by (simp add: race_events_def true_answer_def)

lemma concurrent_requests_safe_witness:
  "let s = race_end; obj = (\<lambda>cid. demo_object) in
    (\<forall>cid bs. content (hs_cache s) cid = Some bs \<longrightarrow> bs = obj cid) \<and>
    (\<forall>p. hs_pc s p \<noteq> Panicked \<and> (\<forall>r. hs_pc s p = Answered r \<longrightarrow> good_answer race_env obj (he_job race_env p) r)) \<and>
    (\<forall>p q. holding (hs_pc s p) \<longrightarrow> holding (hs_pc s q) \<longrightarrow>
       jb_cid (he_job race_env p) = jb_cid (he_job race_env q) \<longrightarrow> p = q)"
  unfolding Let_def
  by (rule concurrent_requests_safe [OF race_ends(1) race_true]) (simp add: vec_ok_def demo_object_def)


lemma concurrent_request_finishes_witness:
  "\<exists>es' s' r. conc_run race_env es' race_end = Some s' \<and> set es' \<subseteq> served_events (\<lambda>p. Inr demo_object) \<and>
    hs_pc s' 4 = Answered r"
proof (rule concurrent_request_finishes [OF race_ends(1) race_true])
  show "hs_pc race_end 4 \<noteq> Dropped"
    by (simp add: race_ends(5))
qed (simp_all add: vec_ok_def demo_object_def)

end
