(* ===== verification/Lock_Map.thy ===== *)
theory Lock_Map
  imports Inflight Http_Concurrent
begin

text \<open>
  The single-flight locks of \<open>src/server.rs\<close> as the code has them: \<open>serve_cid\<close> looks its lock up in the
  map of \<open>inflight_lock\<close>, which may prune the map at that moment, waits for that lock object, and gives
  its handle back when it leaves. \<open>Http_Concurrent\<close> has one lock per content id instead. The theorem says
  that the two are the same: the abstraction maps the reachable states of the one onto those of the
  other, so what is proved there holds for the map of locks.
\<close>

section \<open>The system with lock objects\<close>

text \<open>In \<open>lk_sys\<close> the per-id locks of the abstract system are not used and stay free.\<close>

record lock_objects =
  lk_sys :: http_sys
  lk_map :: inflight
  lk_owner :: "lock_id \<Rightarrow> task option"

text \<open>A task that missed the cache first gets its handle, which awaits nothing.\<close>

datatype lock_event = Get_Handle task | Other conc_event

definition handle_of :: "inflight \<Rightarrow> task \<Rightarrow> lock_id option" where
  "handle_of m p = map_option snd (map_of (if_held m) p)"

text \<open>What leaving the section or being dropped does: the guard is released, the handle goes.\<close>

definition let_go :: "task \<Rightarrow> cpc \<Rightarrow> lock_objects \<Rightarrow> lock_objects" where
  "let_go p pc s =
     s\<lparr>lk_map := inflight_drop p (lk_map s),
       lk_owner := (case handle_of (lk_map s) p of
                      Some l \<Rightarrow> if holding pc then (lk_owner s)(l := None) else lk_owner s
                    | None \<Rightarrow> lk_owner s)\<rparr>"

fun waiting :: "cpc \<Rightarrow> bool" where
  "waiting (Waiting acc) = True"
| "waiting _ = False"

fun lk_step :: "'ch http_env \<Rightarrow> lock_event \<Rightarrow> lock_objects \<Rightarrow> lock_objects option" where
  "lk_step E (Get_Handle p) s =
     (if waiting (hs_pc (lk_sys s) p) \<and> handle_of (lk_map s) p = None
      then Some (s\<lparr>lk_map := snd (inflight_lock p (jb_cid (he_job E p)) (lk_map s))\<rparr>) else None)"
| "lk_step E (Other (Advance p)) s =
     (case hs_pc (lk_sys s) p of
        Waiting acc \<Rightarrow>
          (case handle_of (lk_map s) p of
             None \<Rightarrow> None
           | Some l \<Rightarrow>
               if lk_owner s l = None
               then Some (s\<lparr>lk_sys := at_pc p (Inside acc) (lk_sys s), lk_owner := (lk_owner s)(l \<mapsto> p)\<rparr>)
               else None)
      | pc \<Rightarrow>
          (case advance E p (he_job E p) pc (lk_sys s) of
             None \<Rightarrow> None
           | Some t \<Rightarrow>
               let s1 = s\<lparr>lk_sys := t\<rparr>
               in Some (if holding pc \<and> \<not> holding (hs_pc t p) then let_go p pc s1 else s1)))"
| "lk_step E (Other (Origin_Answers p r)) s =
     map_option (\<lambda>t. s\<lparr>lk_sys := t\<rparr>) (conc_step E (Origin_Answers p r) (lk_sys s))"
| "lk_step E (Other (Drop_Task p)) s =
     (if finished (hs_pc (lk_sys s) p) then None
      else Some (let_go p (hs_pc (lk_sys s) p) (s\<lparr>lk_sys := at_pc p Dropped (lk_sys s)\<rparr>)))"

fun lk_run :: "'ch http_env \<Rightarrow> lock_event list \<Rightarrow> lock_objects \<Rightarrow> lock_objects option" where
  "lk_run E [] s = Some s"
| "lk_run E (e # es) s = Option.bind (lk_step E e s) (lk_run E es)"

lemma lk_run_append: "lk_run E (es @ fs) s = Option.bind (lk_run E es s) (lk_run E fs)"
  by (induction es arbitrary: s) (auto split: bind_splits)

definition lk_start :: "edge_cache \<Rightarrow> replay_guard \<Rightarrow> lock_objects" where
  "lk_start c g = \<lparr>lk_sys = conc_start c g, lk_map = inflight_new, lk_owner = (\<lambda>l. None)\<rparr>"

section \<open>The abstraction\<close>

definition locks_by_id :: "lock_objects \<Rightarrow> string \<Rightarrow> task option" where
  "locks_by_id s cid = Option.bind (hm_get (if_map (lk_map s)) cid) (lk_owner s)"

definition by_id :: "lock_objects \<Rightarrow> http_sys" where
  "by_id s = (lk_sys s)\<lparr>hs_locks := locks_by_id s\<rparr>"

definition lk_ok :: "'ch http_env \<Rightarrow> lock_objects \<Rightarrow> bool" where
  "lk_ok E s \<longleftrightarrow> inflight_ok (lk_map s) \<and> distinct (map fst (if_held (lk_map s))) \<and>
     (\<forall>(p, c, l) \<in> set (if_held (lk_map s)). c = jb_cid (he_job E p) \<and>
        (waiting (hs_pc (lk_sys s) p) \<or> holding (hs_pc (lk_sys s) p))) \<and>
     (\<forall>p. holding (hs_pc (lk_sys s) p) \<longrightarrow> (\<exists>l. handle_of (lk_map s) p = Some l \<and> lk_owner s l = Some p)) \<and>
     (\<forall>l p. lk_owner s l = Some p \<longrightarrow> handle_of (lk_map s) p = Some l \<and> holding (hs_pc (lk_sys s) p))"

lemma handle_of_iff:
  assumes "distinct (map fst (if_held m))"
  shows "handle_of m p = Some l \<longleftrightarrow> (\<exists>c. (p, c, l) \<in> set (if_held m))"
  using map_of_eq_Some_iff [OF assms] by (auto simp: handle_of_def split: option.splits)

lemma handle_of_Cons [simp]:
  "handle_of (m\<lparr>if_map := k, if_held := (t, c, l) # h, if_next := n\<rparr>) p =
     (if t = p then Some l else handle_of (m\<lparr>if_held := h\<rparr>) p)"
  "handle_of (m\<lparr>if_map := k, if_held := (t, c, l) # h\<rparr>) p =
     (if t = p then Some l else handle_of (m\<lparr>if_held := h\<rparr>) p)"
  by (simp_all add: handle_of_def)

lemma handle_of_drop [simp]: "handle_of (inflight_drop p m) q = (if q = p then None else handle_of m q)"
proof -
  have "map_of (filter (\<lambda>(t, c, l). t \<noteq> p) xs) q = (if q = p then None else map_of xs q)"
    for xs :: "(nat \<times> string \<times> lock_id) list"
    by (induction xs) auto
  then show ?thesis by (simp add: handle_of_def inflight_drop_def)
qed

text \<open>Steps of the abstract system that do not acquire read no lock.\<close>

lemma advance_locks_free:
  assumes "\<not> waiting pc" "hs_pc s p = pc"
  shows "advance E p j pc (s\<lparr>hs_locks := L\<rparr>) =
     map_option (\<lambda>t. t\<lparr>hs_locks := (if holding pc \<and> \<not> holding (hs_pc t p) then L(jb_cid j := None) else L)\<rparr>)
       (advance E p j pc s)"
  using assms
  by (cases pc)
     (auto simp: Let_def at_pc_def unlock_def denied_answer split: prod.splits option.splits sum.splits obtained.splits if_splits)

section \<open>Looking the lock up\<close>

lemma waiting_not_holding: "waiting pc \<Longrightarrow> \<not> holding pc"
  by (cases pc) simp_all

lemma lk_okD:
  assumes "lk_ok E s"
  shows "inflight_ok (lk_map s)" and "distinct (map fst (if_held (lk_map s)))"
    and "(p, c, l) \<in> set (if_held (lk_map s)) \<Longrightarrow>
      c = jb_cid (he_job E p) \<and> (waiting (hs_pc (lk_sys s) p) \<or> holding (hs_pc (lk_sys s) p))"
    and "holding (hs_pc (lk_sys s) p) \<Longrightarrow> \<exists>l. handle_of (lk_map s) p = Some l \<and> lk_owner s l = Some p"
    and "lk_owner s l = Some p \<Longrightarrow> handle_of (lk_map s) p = Some l \<and> holding (hs_pc (lk_sys s) p)"
  using assms unfolding lk_ok_def by blast+

lemma handle_held:
  assumes "lk_ok E s" "handle_of (lk_map s) p = Some l"
  shows "(p, jb_cid (he_job E p), l) \<in> set (if_held (lk_map s))"
    and "hm_get (if_map (lk_map s)) (jb_cid (he_job E p)) = Some l"
proof -
  obtain c where c: "(p, c, l) \<in> set (if_held (lk_map s))"
    using assms(2) handle_of_iff [OF lk_okD(2) [OF assms(1)]] by blast
  with lk_okD(3) [OF assms(1) c] show "(p, jb_cid (he_job E p), l) \<in> set (if_held (lk_map s))" by simp
  then show "hm_get (if_map (lk_map s)) (jb_cid (he_job E p)) = Some l"
    by (rule inflight_held [OF lk_okD(1) [OF assms(1)]])
qed

text \<open>An owned lock is in the map, under its owner's id, and pruning keeps it.\<close>

lemma owned_in_map:
  assumes "lk_ok E s" "lk_owner s l = Some p"
  shows "hm_get (if_map (lk_map s)) (jb_cid (he_job E p)) = Some l"
    and "hm_get (pruned (lk_map s)) (jb_cid (he_job E p)) = Some l"
    and "l < if_next (lk_map s)"
proof -
  note h = conjunct1 [OF lk_okD(5) [OF assms]]
  note ok = lk_okD(1) [OF assms(1)]
  show g: "hm_get (if_map (lk_map s)) (jb_cid (he_job E p)) = Some l" by (rule handle_held(2) [OF assms(1) h])
  show "hm_get (pruned (lk_map s)) (jb_cid (he_job E p)) = Some l"
    by (rule pruned_get(3) [OF ok handle_held(1) [OF assms(1) h]])
  show "l < if_next (lk_map s)" using ok g unfolding inflight_ok_def by blast
qed

lemma one_id_per_lock:
  assumes "inflight_ok m" "hm_get (if_map m) c = Some l" "hm_get (if_map m) d = Some l"
  shows "c = d"
  using assms unfolding inflight_ok_def by blast

lemma pruned_owner:
  assumes "lk_ok E s"
  shows "Option.bind (hm_get (pruned (lk_map s)) k) (lk_owner s) = locks_by_id s k"
proof (cases "hm_get (pruned (lk_map s)) k")
  case (Some l)
  with pruned_get(2) [OF lk_okD(1) [OF assms] Some] show ?thesis by (simp add: locks_by_id_def)
next
  case None
  have "lk_owner s l = None" if g: "hm_get (if_map (lk_map s)) k = Some l" for l
  proof (rule ccontr)
    assume "lk_owner s l \<noteq> None"
    then obtain q where q: "lk_owner s l = Some q" by auto
    have "jb_cid (he_job E q) = k"
      by (rule one_id_per_lock [OF lk_okD(1) [OF assms] owned_in_map(1) [OF assms q] g])
    with owned_in_map(2) [OF assms q] None show False by simp
  qed
  with None show ?thesis by (cases "hm_get (if_map (lk_map s)) k") (simp_all add: locks_by_id_def)
qed

lemma inflight_lock_shape:
  "\<exists>l k n. snd (inflight_lock p cid m) = m\<lparr>if_map := k, if_held := (p, cid, l) # if_held m, if_next := n\<rparr> \<and>
     (k = pruned m \<or> hm_get (pruned m) cid = None \<and> k = hm_insert cid (if_next m) (pruned m))"
proof (cases "hm_get (pruned m) cid")
  case None
  then show ?thesis unfolding inflight_lock_eq
    by (intro exI [of _ "if_next m"] exI [of _ "hm_insert cid (if_next m) (pruned m)"] exI [of _ "if_next m + 1"]) simp
next
  case (Some l)
  then show ?thesis unfolding inflight_lock_eq
    by (intro exI [of _ l] exI [of _ "pruned m"] exI [of _ "if_next m"]) (cases m, simp)
qed

lemma get_handle_simulated:
  assumes ok: "lk_ok E s" and wait: "waiting (hs_pc (lk_sys s) p)" and none: "handle_of (lk_map s) p = None"
  defines "s' \<equiv> s\<lparr>lk_map := snd (inflight_lock p (jb_cid (he_job E p)) (lk_map s))\<rparr>"
  shows "lk_ok E s'" and "by_id s' = by_id s" and "handle_of (lk_map s') p \<noteq> None"
proof -
  let ?m = "lk_map s" and ?cid = "jb_cid (he_job E p)"
  obtain l k n where m': "snd (inflight_lock p ?cid ?m) = ?m\<lparr>if_map := k, if_held := (p, ?cid, l) # if_held ?m, if_next := n\<rparr>"
    and k: "k = pruned ?m \<or> hm_get (pruned ?m) ?cid = None \<and> k = hm_insert ?cid (if_next ?m) (pruned ?m)"
    using inflight_lock_shape [of p ?cid ?m] by blast
  note okm = lk_okD(1) [OF ok]
  have fresh: "lk_owner s (if_next ?m) = None"
    using owned_in_map(3) [OF ok, of "if_next ?m"] by (cases "lk_owner s (if_next ?m)") auto
  have "Option.bind (hm_get k c) (lk_owner s) = locks_by_id s c" for c
  proof (cases "c = ?cid \<and> k \<noteq> pruned ?m")
    case True
    with k have "hm_get (pruned ?m) c = None" "hm_get k c = Some (if_next ?m)"
      using hm_get_insert [OF pruned_get(1) [OF okm]] by auto
    with fresh pruned_owner [OF ok, of c] show ?thesis by simp
  next
    case False
    then have "hm_get k c = hm_get (pruned ?m) c" using k hm_get_insert [OF pruned_get(1) [OF okm]] by auto
    with pruned_owner [OF ok, of c] show ?thesis by simp
  qed
  then have "locks_by_id s' = locks_by_id s" by (simp add: fun_eq_iff locks_by_id_def s'_def m')
  then show "by_id s' = by_id s" by (simp add: by_id_def s'_def)
  have out: "p \<notin> fst ` set (if_held ?m)" using none by (simp add: handle_of_def map_of_eq_None_iff)
  have handle: "handle_of (lk_map s') q = (if q = p then Some l else handle_of ?m q)" for q
    by (simp add: s'_def m' handle_of_def)
  then show "handle_of (lk_map s') p \<noteq> None" by simp
  have "inflight_ok (lk_map s')" unfolding s'_def using inflight_ok_lock [OF okm] by simp
  with ok out wait handle show "lk_ok E s'"
    using waiting_not_holding [OF wait] none unfolding lk_ok_def by (auto simp: s'_def m')
qed

section \<open>The other steps\<close>

lemma lock_set:
  assumes "inflight_ok (lk_map s)" "hm_get (if_map (lk_map s)) cid = Some l"
  shows "Option.bind (hm_get (if_map (lk_map s)) k) ((lk_owner s)(l := x)) = ((locks_by_id s)(cid := x)) k"
  using one_id_per_lock [OF assms(1), of k l cid] assms(2)
  by (cases "hm_get (if_map (lk_map s)) k") (auto simp: locks_by_id_def)

lemma handle_working:
  "lk_ok E s \<Longrightarrow> handle_of (lk_map s) p = Some l \<Longrightarrow> waiting (hs_pc (lk_sys s) p) \<or> holding (hs_pc (lk_sys s) p)"
  using handle_held(1) lk_okD(3) by blast

text \<open>A task that goes on without taking or leaving the lock.\<close>

lemma goes_on:
  assumes ok: "lk_ok E s" and others: "\<And>q. q \<noteq> p \<Longrightarrow> hs_pc t q = hs_pc (lk_sys s) q"
    and same: "holding (hs_pc t p) = holding (hs_pc (lk_sys s) p)" and pc: "\<not> waiting (hs_pc (lk_sys s) p)"
  shows "lk_ok E (s\<lparr>lk_sys := t\<rparr>)"
proof -
  have hold: "holding (hs_pc t q) = holding (hs_pc (lk_sys s) q)" for q
    using others [of q] same by (cases "q = p") auto
  have held: "c = jb_cid (he_job E q) \<and> (waiting (hs_pc t q) \<or> holding (hs_pc t q))"
    if h: "(q, c, l) \<in> set (if_held (lk_map s))" for q c l
    using lk_okD(3) [OF ok h] others [of q] same pc by (cases "q = p") auto
  have "lk_sys (s\<lparr>lk_sys := t\<rparr>) = t" "lk_map (s\<lparr>lk_sys := t\<rparr>) = lk_map s" "lk_owner (s\<lparr>lk_sys := t\<rparr>) = lk_owner s"
    by simp_all
  then show ?thesis unfolding lk_ok_def
    using lk_okD(1,2,4,5) [OF ok] held by (simp only: hold) blast
qed

lemma let_go_owner:
  assumes ok: "lk_ok E s"
  shows "lk_owner (let_go p (hs_pc (lk_sys s) p) (s\<lparr>lk_sys := t\<rparr>)) l
    = (if holding (hs_pc (lk_sys s) p) \<and> lk_owner s l = Some p then None else lk_owner s l)"
proof (cases "handle_of (lk_map s) p")
  case None
  with lk_okD(5) [OF ok, of l p] have "lk_owner s l \<noteq> Some p" by auto
  with None show ?thesis by (simp add: let_go_def)
next
  case (Some k)
  show ?thesis
  proof (cases "holding (hs_pc (lk_sys s) p)")
    case True
    then have o: "lk_owner s k = Some p" using lk_okD(4) [OF ok True] Some by auto
    show ?thesis
    proof (cases "l = k")
      case False
      with lk_okD(5) [OF ok, of l p] Some have "lk_owner s l \<noteq> Some p" by auto
      with True Some False show ?thesis by (simp add: let_go_def)
    qed (simp add: let_go_def Some True o)
  qed (simp add: let_go_def Some)
qed

text \<open>A task that leaves the section, waits no longer, or is dropped anywhere.\<close>

lemma leaves:
  assumes ok: "lk_ok E s" and others: "\<And>q. q \<noteq> p \<Longrightarrow> hs_pc t q = hs_pc (lk_sys s) q"
    and out: "\<not> holding (hs_pc t p)"
  defines "s' \<equiv> let_go p (hs_pc (lk_sys s) p) (s\<lparr>lk_sys := t\<rparr>)"
  shows "lk_ok E s'"
    and "locks_by_id s' = (if holding (hs_pc (lk_sys s) p) then (locks_by_id s)(jb_cid (he_job E p) := None) else locks_by_id s)"
proof -
  have map': "lk_map s' = inflight_drop p (lk_map s)" "if_map (lk_map s') = if_map (lk_map s)" "lk_sys s' = t"
    by (simp_all add: s'_def let_go_def inflight_drop_def)
  have ok': "inflight_ok (lk_map s')"
    using inflight_ok_step [OF lk_okD(1) [OF ok], of "Release p"] by (simp add: map'(1))
  have dis: "distinct (map fst (if_held (lk_map s')))"
    using lk_okD(2) [OF ok] unfolding map'(1) inflight_drop_def by (simp add: distinct_map_filter)
  have held: "c = jb_cid (he_job E q) \<and> (waiting (hs_pc t q) \<or> holding (hs_pc t q))"
    if h: "(q, c, l) \<in> set (if_held (lk_map s'))" for q c l
  proof -
    have "(q, c, l) \<in> set (if_held (lk_map s))" "q \<noteq> p" using h by (auto simp: map'(1) inflight_drop_def)
    with lk_okD(3) [OF ok] others [of q] show ?thesis by simp
  qed
  have owner: "lk_owner s' l = (if holding (hs_pc (lk_sys s) p) \<and> lk_owner s l = Some p then None else lk_owner s l)" for l
    unfolding s'_def by (rule let_go_owner [OF ok])
  have notp: "lk_owner s' l \<noteq> Some p" for l using lk_okD(5) [OF ok, of l p] by (auto simp: owner)
  have hold: "\<exists>l. handle_of (lk_map s') q = Some l \<and> lk_owner s' l = Some q" if "holding (hs_pc t q)" for q
  proof -
    have "q \<noteq> p" using out that by auto
    with that others have "holding (hs_pc (lk_sys s) q)" by simp
    then obtain l where "handle_of (lk_map s) q = Some l" "lk_owner s l = Some q" using lk_okD(4) [OF ok] by blast
    with \<open>q \<noteq> p\<close> show ?thesis by (intro exI [of _ l]) (simp add: map'(1) owner)
  qed
  have own: "handle_of (lk_map s') q = Some l \<and> holding (hs_pc t q)" if "lk_owner s' l = Some q" for l q
  proof -
    have "q \<noteq> p" using notp that by auto
    with that others [of q] lk_okD(5) [OF ok, of l q] show ?thesis by (auto simp: map'(1) owner split: if_splits)
  qed
  show "lk_ok E s'" unfolding lk_ok_def map'(3) using ok' dis held hold own by blast
  show "locks_by_id s' = (if holding (hs_pc (lk_sys s) p) then (locks_by_id s)(jb_cid (he_job E p) := None) else locks_by_id s)"
  proof (cases "holding (hs_pc (lk_sys s) p)")
    case True
    then obtain l where l: "handle_of (lk_map s) p = Some l" using lk_okD(4) [OF ok] by blast
    have e: "lk_owner s' = (lk_owner s)(l := None)" using True l by (simp add: s'_def let_go_def)
    have "locks_by_id s' k = ((locks_by_id s)(jb_cid (he_job E p) := None)) k" for k
      using lock_set [OF lk_okD(1) [OF ok] handle_held(2) [OF ok l], of k None]
      by (simp only: locks_by_id_def [of s'] map'(2) e)
    with True show ?thesis by (simp add: fun_eq_iff)
  next
    case False
    then have e: "lk_owner s' = lk_owner s" by (simp add: fun_eq_iff owner)
    have "locks_by_id s' = locks_by_id s" unfolding locks_by_id_def map'(2) e ..
    with False show ?thesis by simp
  qed
qed

lemma advance_not_in: "advance E p j pc s = Some t \<Longrightarrow> \<not> waiting pc \<Longrightarrow> holding (hs_pc t p) \<Longrightarrow> holding pc"
  by (cases pc)
     (auto simp: Let_def denied_answer split: prod.splits option.splits sum.splits if_splits obtained.splits)

lemma by_id_sys: "hs_pc (by_id s) = hs_pc (lk_sys s)" "hs_locks (by_id s) = locks_by_id s"
  by (simp_all add: by_id_def)

text \<open>A step that is not waiting for the lock.\<close>

definition lk_move :: "task \<Rightarrow> cpc \<Rightarrow> http_sys \<Rightarrow> lock_objects \<Rightarrow> lock_objects" where
  "lk_move p pc t s =
     (if holding pc \<and> \<not> holding (hs_pc t p) then let_go p pc (s\<lparr>lk_sys := t\<rparr>) else s\<lparr>lk_sys := t\<rparr>)"

lemma lk_advance:
  "\<not> waiting (hs_pc (lk_sys s) p) \<Longrightarrow> lk_step E (Other (Advance p)) s =
     map_option (\<lambda>t. lk_move p (hs_pc (lk_sys s) p) t s) (advance E p (he_job E p) (hs_pc (lk_sys s) p) (lk_sys s))"
  by (cases "hs_pc (lk_sys s) p") (simp_all add: lk_move_def Let_def split: option.split)

lemma lk_move_simulated:
  assumes ok: "lk_ok E s" and pc: "\<not> waiting (hs_pc (lk_sys s) p)"
    and adv: "advance E p (he_job E p) (hs_pc (lk_sys s) p) (lk_sys s) = Some t"
  shows "lk_ok E (lk_move p (hs_pc (lk_sys s) p) t s)"
    and "conc_step E (Advance p) (by_id s) = Some (by_id (lk_move p (hs_pc (lk_sys s) p) t s))"
proof -
  let ?pc = "hs_pc (lk_sys s) p"
  let ?s = "lk_move p ?pc t s"
  note others = advance_others [OF adv]
  have c: "conc_step E (Advance p) (by_id s) = Some (t\<lparr>hs_locks :=
      (if holding ?pc \<and> \<not> holding (hs_pc t p) then (locks_by_id s)(jb_cid (he_job E p) := None) else locks_by_id s)\<rparr>)"
    using advance_locks_free [OF pc refl, of E "he_job E p" "locks_by_id s"] adv by (simp add: by_id_def)
  show "lk_ok E ?s"
  proof (cases "holding ?pc \<and> \<not> holding (hs_pc t p)")
    case True
    then show ?thesis using leaves(1) [OF ok others] by (simp add: lk_move_def)
  next
    case False
    then have "holding (hs_pc t p) = holding ?pc" using advance_not_in [OF adv pc] by blast
    with False goes_on [OF ok others _ pc] show ?thesis by (simp add: lk_move_def)
  qed
  have "lk_sys ?s = t" by (simp add: lk_move_def let_go_def)
  moreover have "locks_by_id ?s =
      (if holding ?pc \<and> \<not> holding (hs_pc t p) then (locks_by_id s)(jb_cid (he_job E p) := None) else locks_by_id s)"
  proof (cases "holding ?pc \<and> \<not> holding (hs_pc t p)")
    case True
    then show ?thesis using leaves(2) [OF ok others] by (simp add: lk_move_def)
  next
    case False
    then have "?s = s\<lparr>lk_sys := t\<rparr>" unfolding lk_move_def by (rule if_not_P)
    then have "locks_by_id ?s = locks_by_id s" by (simp add: locks_by_id_def fun_eq_iff)
    then show ?thesis by (simp only: if_not_P [OF False])
  qed
  ultimately show "conc_step E (Advance p) (by_id s) = Some (by_id ?s)" unfolding c by (simp add: by_id_def)
qed

text \<open>Taking the lock once its object is free.\<close>

lemma lk_acquire:
  "hs_pc (lk_sys s) p = Waiting acc \<Longrightarrow> handle_of (lk_map s) p = Some l \<Longrightarrow> lk_step E (Other (Advance p)) s =
     (if lk_owner s l = None
      then Some (s\<lparr>lk_sys := at_pc p (Inside acc) (lk_sys s), lk_owner := (lk_owner s)(l \<mapsto> p)\<rparr>) else None)"
  by simp

lemma by_id_lock:
  assumes "lk_ok E s" "handle_of (lk_map s) p = Some l"
  shows "locks_by_id s (jb_cid (he_job E p)) = lk_owner s l"
  using handle_held(2) [OF assms] by (simp add: locks_by_id_def)

lemma acquire_simulated:
  assumes ok: "lk_ok E s" and pc: "hs_pc (lk_sys s) p = Waiting acc" and l: "handle_of (lk_map s) p = Some l"
    and free: "lk_owner s l = None"
  defines "s' \<equiv> s\<lparr>lk_sys := at_pc p (Inside acc) (lk_sys s), lk_owner := (lk_owner s)(l \<mapsto> p)\<rparr>"
  shows "lk_ok E s'" and "conc_step E (Advance p) (by_id s) = Some (by_id s')"
proof -
  have f: "lk_sys s' = at_pc p (Inside acc) (lk_sys s)" "lk_map s' = lk_map s" "lk_owner s' = (lk_owner s)(l \<mapsto> p)"
    by (simp_all add: s'_def)
  have notp: "lk_owner s k \<noteq> Some p" for k using lk_okD(5) [OF ok, of k p] pc by auto
  have a: "\<exists>k. handle_of (lk_map s) q = Some k \<and> ((lk_owner s)(l \<mapsto> p)) k = Some q"
    if h: "holding (hs_pc (lk_sys s') q)" for q
  proof (cases "q = p")
    case False
    with h obtain k where k: "handle_of (lk_map s) q = Some k" "lk_owner s k = Some q"
      using lk_okD(4) [OF ok, of q] by (auto simp: f)
    with free have "k \<noteq> l" by auto
    with k show ?thesis by (intro exI [of _ k]) simp
  qed (simp add: l)
  have b: "handle_of (lk_map s) q = Some k \<and> holding (hs_pc (lk_sys s') q)"
    if o: "((lk_owner s)(l \<mapsto> p)) k = Some q" for k q
  proof (cases "k = l")
    case False
    with o have "lk_owner s k = Some q" by simp
    with lk_okD(5) [OF ok this] notp [of k] show ?thesis by (auto simp: f)
  qed (use o l in \<open>auto simp: f\<close>)
  have c: "d = jb_cid (he_job E q) \<and> (waiting (hs_pc (lk_sys s') q) \<or> holding (hs_pc (lk_sys s') q))"
    if "(q, d, k) \<in> set (if_held (lk_map s))" for q d k
    using lk_okD(3) [OF ok that] by (auto simp: f)
  show "lk_ok E s'" unfolding lk_ok_def f(2,3) using lk_okD(1,2) [OF ok] a b c by blast
  have "locks_by_id s' = (locks_by_id s)(jb_cid (he_job E p) \<mapsto> p)"
    using lock_set [OF lk_okD(1) [OF ok] handle_held(2) [OF ok l], of _ "Some p"]
    by (simp add: fun_eq_iff locks_by_id_def f)
  then show "conc_step E (Advance p) (by_id s) = Some (by_id s')"
    using pc free by_id_lock [OF ok l] by (simp add: by_id_def f at_pc_def)
qed

lemma answer_simulated:
  assumes ok: "lk_ok E s"
  shows "map_option by_id (lk_step E (Other (Origin_Answers p r)) s) = conc_step E (Origin_Answers p r) (by_id s)"
    and "lk_step E (Other (Origin_Answers p r)) s = Some s' \<Longrightarrow> lk_ok E s'"
proof -
  have l: "locks_by_id (s\<lparr>lk_sys := t\<rparr>) = locks_by_id s" for t by (simp add: locks_by_id_def fun_eq_iff)
  show "map_option by_id (lk_step E (Other (Origin_Answers p r)) s) = conc_step E (Origin_Answers p r) (by_id s)"
    by (cases "hs_pc (lk_sys s) p") (simp_all add: by_id_def l at_pc_def)
  assume "lk_step E (Other (Origin_Answers p r)) s = Some s'"
  then obtain acc where "hs_pc (lk_sys s) p = Fetching acc" "s' = s\<lparr>lk_sys := at_pc p (Fetched acc r) (lk_sys s)\<rparr>"
    by (auto split: cpc.splits)
  then show "lk_ok E s'" using goes_on [OF ok, of p "at_pc p (Fetched acc r) (lk_sys s)"] by simp
qed

lemma drop_simulated:
  assumes ok: "lk_ok E s"
  shows "map_option by_id (lk_step E (Other (Drop_Task p)) s) = conc_step E (Drop_Task p) (by_id s)"
    and "lk_step E (Other (Drop_Task p)) s = Some s' \<Longrightarrow> lk_ok E s'"
proof -
  let ?t = "at_pc p Dropped (lk_sys s)"
  let ?s = "let_go p (hs_pc (lk_sys s) p) (s\<lparr>lk_sys := ?t\<rparr>)"
  have others: "\<And>q. q \<noteq> p \<Longrightarrow> hs_pc ?t q = hs_pc (lk_sys s) q" and out: "\<not> holding (hs_pc ?t p)" by simp_all
  have "by_id ?s = at_pc p Dropped (if holding (hs_pc (lk_sys s) p) then unlock (jb_cid (he_job E p)) (by_id s) else by_id s)"
    using leaves(2) [OF ok others out] by (simp add: by_id_def unlock_def at_pc_def let_go_def)
  then show "map_option by_id (lk_step E (Other (Drop_Task p)) s) = conc_step E (Drop_Task p) (by_id s)"
    by (simp add: by_id_sys)
  assume "lk_step E (Other (Drop_Task p)) s = Some s'"
  then show "lk_ok E s'" using leaves(1) [OF ok others out] by (auto split: if_splits)
qed

section \<open>Runs\<close>

text \<open>Every step of the code is a step of the abstract system, or none.\<close>

fun others_of :: "lock_event list \<Rightarrow> conc_event list" where
  "others_of [] = []"
| "others_of (Get_Handle p # es) = others_of es"
| "others_of (Other e # es) = e # others_of es"

lemma advance_forth:
  assumes ok: "lk_ok E s" and step: "lk_step E (Other (Advance p)) s = Some s'"
  shows "lk_ok E s' \<and> conc_step E (Advance p) (by_id s) = Some (by_id s')"
proof (cases "waiting (hs_pc (lk_sys s) p)")
  case True
  then obtain acc where pc: "hs_pc (lk_sys s) p = Waiting acc" by (cases "hs_pc (lk_sys s) p") auto
  with step obtain l where l: "handle_of (lk_map s) p = Some l" by (auto split: option.splits)
  from step lk_acquire [OF pc l, of E] have "lk_owner s l = None"
    and "s' = s\<lparr>lk_sys := at_pc p (Inside acc) (lk_sys s), lk_owner := (lk_owner s)(l \<mapsto> p)\<rparr>"
    by (simp_all del: lk_step.simps split: if_splits)
  with acquire_simulated [OF ok pc l] show ?thesis by simp
next
  case False
  with step obtain t where "advance E p (he_job E p) (hs_pc (lk_sys s) p) (lk_sys s) = Some t"
    and "s' = lk_move p (hs_pc (lk_sys s) p) t s"
    by (auto simp: lk_advance simp del: lk_step.simps)
  with lk_move_simulated [OF ok False] show ?thesis by simp
qed

lemma other_forth:
  assumes "lk_ok E s" "lk_step E (Other e) s = Some s'"
  shows "lk_ok E s' \<and> conc_step E e (by_id s) = Some (by_id s')"
proof (cases e)
  case (Advance p)
  with advance_forth assms show ?thesis by blast
next
  case (Origin_Answers p r)
  with answer_simulated [OF assms(1), of p r] assms(2) show ?thesis by (metis option.simps(9))
next
  case (Drop_Task p)
  with drop_simulated [OF assms(1), of p] assms(2) show ?thesis by (metis option.simps(9))
qed

lemma lk_run_forth:
  "lk_ok E s \<Longrightarrow> lk_run E es s = Some s' \<Longrightarrow> lk_ok E s' \<and> conc_run E (others_of es) (by_id s) = Some (by_id s')"
proof (induction es arbitrary: s)
  case (Cons e es)
  then obtain s1 where s1: "lk_step E e s = Some s1" "lk_run E es s1 = Some s'" by (auto split: bind_splits)
  show ?case
  proof (cases e)
    case (Get_Handle p)
    with s1(1) have "waiting (hs_pc (lk_sys s) p)" "handle_of (lk_map s) p = None"
      and "s1 = s\<lparr>lk_map := snd (inflight_lock p (jb_cid (he_job E p)) (lk_map s))\<rparr>" by (auto split: if_splits)
    with get_handle_simulated [OF Cons.prems(1)] Cons.IH [OF _ s1(2)] Get_Handle show ?thesis by simp
  next
    case (Other x)
    with other_forth [OF Cons.prems(1)] s1 Cons.IH [OF _ s1(2)] show ?thesis by simp
  qed
qed simp

text \<open>And every step of the abstract system is one of the code, after a lookup where it is missing.\<close>

lemma other_back:
  assumes ok: "lk_ok E s" and step: "conc_step E e (by_id s) = Some t"
  shows "\<exists>es s'. lk_run E es s = Some s' \<and> by_id s' = t"
proof -
  have one: ?thesis if "lk_step E (Other e) s \<noteq> None"
    using that other_forth [OF ok] step by (intro exI [of _ "[Other e]"]) (auto simp del: lk_step.simps conc_step.simps)
  show ?thesis
  proof (cases e)
    case (Origin_Answers p r)
    with answer_simulated(1) [OF ok, of p r] step show ?thesis
      by (intro one) (auto simp del: lk_step.simps conc_step.simps)
  next
    case (Drop_Task p)
    with drop_simulated(1) [OF ok, of p] step show ?thesis
      by (intro one) (auto simp del: lk_step.simps conc_step.simps)
  next
    case (Advance p)
    show ?thesis
    proof (cases "waiting (hs_pc (lk_sys s) p)")
      case False
      then have "advance E p (he_job E p) (hs_pc (lk_sys s) p) (lk_sys s) \<noteq> None"
        using advance_locks_free [OF False refl, of E "he_job E p" "locks_by_id s"] step Advance by (auto simp: by_id_def)
      with lk_advance [OF False, of E] show ?thesis
        by (intro one) (simp add: Advance del: lk_step.simps)
    next
      case True
      then obtain acc where pc: "hs_pc (lk_sys s) p = Waiting acc" by (cases "hs_pc (lk_sys s) p") auto
      with step Advance have free: "locks_by_id s (jb_cid (he_job E p)) = None"
        by (simp add: by_id_def split: if_splits)
      obtain fs s1 where s1: "lk_run E fs s = Some s1" "lk_ok E s1" "by_id s1 = by_id s" "handle_of (lk_map s1) p \<noteq> None"
        and sys: "lk_sys s1 = lk_sys s"
      proof (cases "handle_of (lk_map s) p")
        case None
        with get_handle_simulated [OF ok True None] True show ?thesis 
          by (intro that [of "[Get_Handle p]" "s\<lparr>lk_map := snd (inflight_lock p (jb_cid (he_job E p)) (lk_map s))\<rparr>"]) simp_all
      next
        case (Some l)
        with ok show ?thesis by (intro that [of "[]" s]) simp_all
      qed
      obtain l where l: "handle_of (lk_map s1) p = Some l" using s1(4) by blast
      have pc1: "hs_pc (lk_sys s1) p = Waiting acc" using pc sys by simp
      have "lk_owner s1 l = None"
        using by_id_lock [OF s1(2) l] free arg_cong [OF s1(3), of hs_locks] by (simp add: by_id_sys)
      with acquire_simulated(2) [OF s1(2) pc1 l this] lk_acquire [OF pc1 l, of E] s1 step Advance show ?thesis
        by (intro exI [of _ "fs @ [Other (Advance p)]"]) (simp add: lk_run_append del: lk_step.simps conc_step.simps)
    qed
  qed
qed

lemma lk_run_back:
  "lk_ok E s \<Longrightarrow> conc_run E es (by_id s) = Some t \<Longrightarrow> \<exists>fs s'. lk_run E fs s = Some s' \<and> by_id s' = t"
proof (induction es arbitrary: s)
  case (Cons e es)
  then obtain t1 where t1: "conc_step E e (by_id s) = Some t1" "conc_run E es t1 = Some t" by (auto split: bind_splits)
  from other_back [OF Cons.prems(1) t1(1)] obtain fs s1 where s1: "lk_run E fs s = Some s1" "by_id s1 = t1" by blast
  from Cons.IH [OF conjunct1 [OF lk_run_forth [OF Cons.prems(1) s1(1)]]] t1(2) s1(2) obtain gs s'
    where "lk_run E gs s1 = Some s'" "by_id s' = t" by blast
  with s1(1) show ?case by (intro exI [of _ "fs @ gs"]) (simp add: lk_run_append)
next
  case Nil
  then show ?case by (intro exI [of _ "[]"] exI [of _ s]) simp
qed

lemma lk_start_ok: "lk_ok E (lk_start c g)" "by_id (lk_start c g) = conc_start c g"
proof -
  have "inflight_ok inflight_new" using inflight_ok_run [of "[]"] by (simp add: inflight_run_def)
  then show "lk_ok E (lk_start c g)"
    by (simp add: lk_ok_def lk_start_def conc_start_def inflight_new_def)
  have "locks_by_id (lk_start c g) = (\<lambda>k. None)"
    by (simp add: fun_eq_iff lk_start_def inflight_new_def locks_by_id_def hm_get_def)
  then show "by_id (lk_start c g) = conc_start c g" by (simp add: by_id_def) (simp add: lk_start_def conc_start_def)
qed

text \<open>
  C17: the map of lock objects is one lock per content id. Under the code's protocol (look the lock up,
  prune the map when it has grown past 1024 entries, wait for that very object, give the handle back on
  leaving or when dropped) the reachable states, read through the map, are exactly the reachable states
  of the system with a lock per id: pruning never lets two tasks into the section of one object, and
  never keeps one waiting for an object that somebody else fetches.
\<close>
theorem lock_map_is_lock_per_id:
  "by_id ` {s. \<exists>es. lk_run E es (lk_start c g) = Some s} = {t. \<exists>es. conc_run E es (conc_start c g) = Some t}"
proof (intro equalityI subsetI)
  fix t assume "t \<in> by_id ` {s. \<exists>es. lk_run E es (lk_start c g) = Some s}"
  then obtain es s where "lk_run E es (lk_start c g) = Some s" "t = by_id s" by auto
  with lk_run_forth [OF lk_start_ok(1) this(1)] show "t \<in> {t. \<exists>es. conc_run E es (conc_start c g) = Some t}"
    by (auto simp: lk_start_ok(2))
next
  fix t assume "t \<in> {t. \<exists>es. conc_run E es (conc_start c g) = Some t}"
  then obtain es where "conc_run E es (by_id (lk_start c g)) = Some t" by (auto simp: lk_start_ok(2))
  from lk_run_back [OF lk_start_ok(1) this] show "t \<in> by_id ` {s. \<exists>es. lk_run E es (lk_start c g) = Some s}" by auto
qed

end
