(* ===== verification/Catalog.thy ===== *)
theory Catalog
  imports Rust_Collections Rust_Strings
begin

text \<open>
  Model of the data and operations of \<open>src/catalog.rs\<close>: the publisher's index of content and of the
  edges that replicate it, its operations, and the atomic save as a sequence of file-system actions.
  The JSON codec is a parameter. The lock that serialises updates is modelled in \<open>Catalog_Lock\<close>.
\<close>

section \<open>Data\<close>

datatype cat_access = CatPublic | CatPrivate

definition is_public_access :: "cat_access \<Rightarrow> bool" where
  "is_public_access a \<longleftrightarrow> (case a of CatPublic \<Rightarrow> True | CatPrivate \<Rightarrow> False)"

record content =
  ct_cid :: string
  ct_bytes_len :: u64
  ct_access :: cat_access
  ct_replication :: u8
  ct_ttl_secs :: u64
  ct_label :: "string option"
  ct_tags :: "string list"

record edge_replica =
  er_edge :: string
  er_healthy :: bool

record catalog_entry =
  ce_content :: content
  ce_edges :: "edge_replica list"

definition healthy_edges :: "catalog_entry \<Rightarrow> nat" where
  "healthy_edges e = length (filter er_healthy (ce_edges e))"

definition edge_ids :: "catalog_entry \<Rightarrow> string list" where
  "edge_ids e = map er_edge (ce_edges e)"

definition CATALOG_SCHEMA_VERSION :: u32 where
  "CATALOG_SCHEMA_VERSION = 1"

record catalog =
  cat_version :: u32
  cat_items :: "catalog_entry btreemap"

definition default_catalog :: catalog where
  "default_catalog = \<lparr>cat_version = CATALOG_SCHEMA_VERSION, cat_items = []\<rparr>"

section \<open>Operations\<close>

definition upsert :: "catalog_entry \<Rightarrow> catalog \<Rightarrow> catalog" where
  "upsert e c = c\<lparr>cat_items := bt_insert (ct_cid (ce_content e)) e (cat_items c)\<rparr>"

definition cat_remove :: "string \<Rightarrow> catalog \<Rightarrow> catalog_entry option \<times> catalog" where
  "cat_remove cid c = (bt_get (cat_items c) cid, c\<lparr>cat_items := bt_remove cid (cat_items c)\<rparr>)"

definition cat_get :: "string \<Rightarrow> catalog \<Rightarrow> catalog_entry option" where
  "cat_get cid c = bt_get (cat_items c) cid"

text \<open>\<open>if let Some(entry) = cat.get_mut(cid)\<close> with an assignment through the reference.\<close>

definition cat_modify :: "string \<Rightarrow> (catalog_entry \<Rightarrow> catalog_entry) \<Rightarrow> catalog \<Rightarrow> catalog" where
  "cat_modify cid f c =
     (case bt_get (cat_items c) cid of
        None \<Rightarrow> c
      | Some e \<Rightarrow> c\<lparr>cat_items := map (\<lambda>(k, x). if k = cid then (k, f x) else (k, x)) (cat_items c)\<rparr>)"

definition cids_with_tag :: "string \<Rightarrow> catalog \<Rightarrow> string list" where
  "cids_with_tag tag c =
     map fst (filter (\<lambda>(_, e). list_ex (\<lambda>t. t = tag) (ct_tags (ce_content e))) (cat_items c))"

section \<open>Invariant\<close>

text \<open>The map is ordered and every entry is filed under its own content id.\<close>

definition cat_ok :: "catalog \<Rightarrow> bool" where
  "cat_ok c \<longleftrightarrow> bt_ok (cat_items c) \<and> (\<forall>k e. cat_get k c = Some e \<longrightarrow> ct_cid (ce_content e) = k)"

lemma cat_ok_default: "cat_ok default_catalog"
  by (simp add: cat_ok_def default_catalog_def cat_get_def bt_get_def)

lemma cat_get_upsert:
  "cat_ok c \<Longrightarrow> cat_get k (upsert e c) = (if k = ct_cid (ce_content e) then Some e else cat_get k c)"
  by (simp add: cat_get_def upsert_def cat_ok_def bt.get_put)

lemma cat_ok_upsert: "cat_ok c \<Longrightarrow> cat_ok (upsert e c)"
  unfolding cat_ok_def using cat_get_upsert [of c _ e]
  by (auto simp: cat_ok_def bt.ok_put upsert_def split: if_splits)

lemma cat_get_remove:
  "cat_ok c \<Longrightarrow> cat_get k (snd (cat_remove cid c)) = (if k = cid then None else cat_get k c)"
  by (simp add: cat_get_def cat_remove_def cat_ok_def bt.get_del)

lemma cat_ok_remove: "cat_ok c \<Longrightarrow> cat_ok (snd (cat_remove cid c))"
  unfolding cat_ok_def using cat_get_remove [of c _ cid]
  by (auto simp: cat_ok_def bt.ok_del cat_remove_def split: if_splits)

lemma keys_modify: "map fst (cat_items (cat_modify cid f c)) = map fst (cat_items c)"
  by (auto simp: cat_modify_def split: option.splits)

lemma map_of_modify:
  "map_of (map (\<lambda>(k, x). if k = cid then (k, f x) else (k, x)) m) k
     = (if k = cid then map_option f (map_of m k) else map_of m k)"
  by (induction m) auto

lemma cat_get_modify:
  "cat_get k (cat_modify cid f c) = (if k = cid then map_option f (cat_get k c) else cat_get k c)"
  by (auto simp: cat_get_def cat_modify_def bt_get_def map_of_modify split: option.splits)

lemma cat_ok_modify:
  "cat_ok c \<Longrightarrow> (\<And>e. ct_cid (ce_content (f e)) = ct_cid (ce_content e)) \<Longrightarrow> cat_ok (cat_modify cid f c)"
  using keys_modify [of cid f c]
  by (auto simp: cat_ok_def cat_get_modify bt_ok_def split: if_splits)

lemma cat_in_items: "cat_ok c \<Longrightarrow> (k, e) \<in> set (cat_items c) \<longleftrightarrow> cat_get k c = Some e"
  using bt_ok_distinct [of "cat_items c"] by (auto simp: cat_ok_def cat_get_def bt_get_def)

lemma cids_with_tag_core:
  assumes "cat_ok c"
  shows "sorted_wrt (<) (cids_with_tag tag c) \<and>
    set (cids_with_tag tag c) = {cid. \<exists>e. cat_get cid c = Some e \<and> tag \<in> set (ct_tags (ce_content e))}"
proof
  have "sorted_wrt (<) (map fst (cat_items c))" using assms by (simp add: cat_ok_def bt_ok_def)
  then show "sorted_wrt (<) (cids_with_tag tag c)"
    by (auto simp: cids_with_tag_def sorted_wrt_map intro: sorted_wrt_filter)
  show "set (cids_with_tag tag c) = {cid. \<exists>e. cat_get cid c = Some e \<and> tag \<in> set (ct_tags (ce_content e))}"
    by (force simp: cids_with_tag_def list_ex_iff cat_in_items [OF assms, symmetric])
qed

text \<open>
  Purging by tag reaches exactly the tagged objects. On a well-formed catalog \<open>cids_with_tag\<close>
  lists each content id once, in increasing order, and a content id is listed if and only if the
  catalog holds an entry for it whose tags include the given one.
\<close>
theorem cids_with_tag_exact:
  assumes "cat_ok c"
  shows "sorted_wrt (<) (cids_with_tag tag c) \<and>
    set (cids_with_tag tag c) = {cid. \<exists>e. cat_get cid c = Some e \<and> tag \<in> set (ct_tags (ce_content e))}"
  using cids_with_tag_core [OF assms] .

definition sample_content :: "string \<Rightarrow> string list \<Rightarrow> content" where
  "sample_content cid tags = \<lparr>ct_cid = cid, ct_bytes_len = 1, ct_access = CatPublic,
     ct_replication = 2, ct_ttl_secs = 60, ct_label = None, ct_tags = tags\<rparr>"

definition sample_catalog :: catalog where
  "sample_catalog =
     upsert \<lparr>ce_content = sample_content ''b'' [''rel''], ce_edges = []\<rparr>
       (upsert \<lparr>ce_content = sample_content ''a'' [''x'', ''rel''], ce_edges = []\<rparr> default_catalog)"

lemma sample_catalog_ok: "cat_ok sample_catalog"
  unfolding sample_catalog_def by (intro cat_ok_upsert cat_ok_default)

lemma cids_with_tag_exact_witness:
  "sorted_wrt (<) (cids_with_tag ''rel'' sample_catalog) \<and>
    set (cids_with_tag ''rel'' sample_catalog)
      = {cid. \<exists>e. cat_get cid sample_catalog = Some e \<and> ''rel'' \<in> set (ct_tags (ce_content e))}"
  by (rule cids_with_tag_exact [OF sample_catalog_ok])

section \<open>Loading and saving\<close>

text \<open>
  A directory maps file names to contents. Saving is a sequence of file-system actions on it; the
  rename is atomic, the bytes are written one after the other, so a crash leaves some prefix done.
\<close>

type_synonym dir = "string \<Rightarrow> bytes option"

datatype fs_op = Create string | Append string u8 | Rename string string

fun fs_apply :: "dir \<Rightarrow> fs_op \<Rightarrow> dir" where
  "fs_apply d (Create f) = d(f := Some [])"
| "fs_apply d (Append f b) = d(f := map_option (\<lambda>bs. bs @ [b]) (d f))"
| "fs_apply d (Rename f g) = (case d f of None \<Rightarrow> d | Some bs \<Rightarrow> d(g := Some bs, f := None))"

definition fs_run :: "dir \<Rightarrow> fs_op list \<Rightarrow> dir" where
  "fs_run = foldl fs_apply"

datatype read_outcome = ReadBytes bytes | ReadNotFound | ReadError string

definition read_file :: "dir \<Rightarrow> string \<Rightarrow> read_outcome" where
  "read_file d f = (case d f of None \<Rightarrow> ReadNotFound | Some bs \<Rightarrow> ReadBytes bs)"

definition load_catalog :: "(bytes \<Rightarrow> catalog result) \<Rightarrow> string \<Rightarrow> read_outcome \<Rightarrow> catalog result" where
  "load_catalog from_json path outcome =
     (case outcome of
        ReadBytes bs \<Rightarrow>
          (case from_json bs of Inl e \<Rightarrow> Inl (''parsing '' @ path) | Inr c \<Rightarrow> Inr c)
      | ReadNotFound \<Rightarrow> Inr default_catalog
      | ReadError e \<Rightarrow> Inl (''reading '' @ path))"

definition tmp_name :: "string \<Rightarrow> nat \<Rightarrow> string" where
  "tmp_name file pid = ''.'' @ file @ ''.tmp.'' @ show_nat pid"

definition save_ops :: "(catalog \<Rightarrow> bytes) \<Rightarrow> string \<Rightarrow> nat \<Rightarrow> catalog \<Rightarrow> fs_op list" where
  "save_ops to_json path pid c =
     (let to_write = c\<lparr>cat_version := CATALOG_SCHEMA_VERSION\<rparr>;
          json = to_json to_write;
          tmp = tmp_name path pid
      in Create tmp # map (Append tmp) json @ [Rename tmp path])"

lemma tmp_name_differs: "tmp_name file pid \<noteq> file"
proof
  assume "tmp_name file pid = file"
  then have "length (tmp_name file pid) = length file" by simp
  then show False by (simp add: tmp_name_def)
qed

lemma fs_run_appends: "fs_run d (map (Append f) bs) = d(f := map_option (\<lambda>xs. xs @ bs) (d f))"
proof (induction bs arbitrary: d)
  case (Cons b bs)
  then show ?case by (auto simp: fs_run_def option.map_comp o_def intro!: ext)
qed (auto simp: fs_run_def fun_eq_iff option.map_ident)

lemma fs_run_append: "fs_run d (xs @ ys) = fs_run (fs_run d xs) ys"
  by (simp add: fs_run_def)

text \<open>Every prefix of a save leaves the catalog file as it was, or is the whole save.\<close>

lemma save_prefix:
  fixes c :: catalog and to_json :: "catalog \<Rightarrow> bytes"
  defines "json \<equiv> to_json (c\<lparr>cat_version := CATALOG_SCHEMA_VERSION\<rparr>)"
  shows "fs_run d (take n (save_ops to_json path pid c)) path
    = (if length (save_ops to_json path pid c) \<le> n then Some json else d path)"
proof -
  let ?tmp = "tmp_name path pid"
  let ?ops = "Create ?tmp # map (Append ?tmp) json"
  have ops: "save_ops to_json path pid c = ?ops @ [Rename ?tmp path]"
    by (simp add: save_ops_def json_def Let_def)
  have done': "fs_run d ?ops = d(?tmp := Some json)"
    by (simp add: fs_run_def) (simp add: fs_run_appends [unfolded fs_run_def])
  show ?thesis
  proof (cases "length ?ops < n")
    case True
    then have "take n (save_ops to_json path pid c) = ?ops @ [Rename ?tmp path]"
      by (simp add: ops)
    with True tmp_name_differs [of path pid] show ?thesis
      by (simp only: fs_run_append done') (auto simp: fs_run_def ops)
  next
    case False
    have "fs_run d (take k ?ops) path = d path" for k
    proof (cases k)
      case (Suc j)
      with tmp_name_differs [of path pid] fs_run_appends [of "d(?tmp := Some [])" ?tmp "take j json"]
      show ?thesis by (simp add: fs_run_def take_map)
    qed (simp add: fs_run_def)
    moreover have "take n (save_ops to_json path pid c) = take n ?ops"
      unfolding ops using False by (simp del: append_Cons)
    moreover have "\<not> length (save_ops to_json path pid c) \<le> n"
      unfolding ops using False by simp
    ultimately show ?thesis by simp
  qed
qed



section \<open>Where the catalog lives\<close>

text \<open>
  The parent directory of the default path: \<open>$CE_CDN_DIR\<close>, else the platform's configuration
  directory (from the \<open>directories\<close> crate), else \<open>.ce-cdn\<close>.
\<close>

definition default_path :: "(string \<Rightarrow> string option) \<Rightarrow> string option \<Rightarrow> string" where
  "default_path env config_dir =
     (case env ''CE_CDN_DIR'' of
        Some d \<Rightarrow> d @ ''/catalog.json''
      | None \<Rightarrow> (case config_dir of None \<Rightarrow> ''.ce-cdn'' | Some d \<Rightarrow> d) @ ''/catalog.json'')"

end
