(* ===== verification/Maintain.thy ===== *)
theory Maintain
  imports Client Catalog
begin

text \<open>
  Model of \<open>src/maintain.rs\<close>: one maintenance pass. For every catalog entry the recorded edges are
  probed, the healthy ones kept, and fresh edges recruited up to the target; the outcome is committed
  in one catalog update. The client and catalog operations are fields of a record over the world
  \<open>'w\<close>, which every call may change; \<open>client_ops\<close> fills them with the client model.
\<close>

section \<open>Planning\<close>

record entry_plan =
  ep_cid :: string
  ep_healthy :: "string list"
  ep_unhealthy :: "string list"
  ep_recruit :: nat

definition plan_entry :: "string \<Rightarrow> u8 \<Rightarrow> (string \<times> bool) list \<Rightarrow> entry_plan" where
  "plan_entry cid target probes =
     (let healthy = map fst (filter snd probes);
          unhealthy = map fst (filter (\<lambda>p. \<not> snd p) probes)
      in \<lparr>ep_cid = cid, ep_healthy = healthy, ep_unhealthy = unhealthy,
          ep_recruit = replicas_needed target (length healthy)\<rparr>)"

record maintain_report =
  mr_examined :: nat
  mr_recruited :: nat
  mr_shortfalls :: nat

section \<open>One pass\<close>

record 'w maintain_ops =
  mo_load :: "'w \<Rightarrow> catalog result \<times> 'w"
  mo_probe :: "string \<Rightarrow> string \<Rightarrow> 'w \<Rightarrow> status_resp result \<times> 'w"
  mo_pick :: "nat \<Rightarrow> string list \<Rightarrow> 'w \<Rightarrow> string list result \<times> 'w"
  mo_replicate :: "string \<Rightarrow> string \<Rightarrow> u64 \<Rightarrow> u64 \<Rightarrow> 'w \<Rightarrow> cache_resp result \<times> 'w"
  mo_update :: "(catalog \<Rightarrow> catalog) \<Rightarrow> 'w \<Rightarrow> unit result \<times> 'w"

fun probe_all :: "'w maintain_ops \<Rightarrow> string \<Rightarrow> string list \<Rightarrow> 'w \<Rightarrow> (string \<times> bool) list \<times> 'w" where
  "probe_all ops cid [] w = ([], w)"
| "probe_all ops cid (edge # es) w =
     (let (r, w1) = mo_probe ops edge cid w;
          healthy = (case r of Inl e \<Rightarrow> False | Inr s \<Rightarrow> sr_held s);
          (ps, w2) = probe_all ops cid es w1
      in ((edge, healthy) # ps, w2))"

text \<open>The recruiting loop: the edges gained so far are threaded along with the exclusion set.\<close>

fun recruit_loop ::
  "'w maintain_ops \<Rightarrow> content \<Rightarrow> string \<Rightarrow> string list \<Rightarrow> string list \<Rightarrow> edge_replica list \<Rightarrow> nat \<Rightarrow> 'w
     \<Rightarrow> (edge_replica list \<times> nat) \<times> 'w" where
  "recruit_loop ops con cid [] exclude edges got w = ((edges, got), w)"
| "recruit_loop ops con cid (pick # picks) exclude edges got w =
     (if pick \<in> set exclude then recruit_loop ops con cid picks exclude edges got w
      else (case mo_replicate ops pick cid (ct_bytes_len con) (ct_ttl_secs con) w of
              (Inr r, w1) \<Rightarrow>
                if cr_cached r
                then recruit_loop ops con cid picks (pick # exclude)
                       (edges @ [\<lparr>er_edge = pick, er_healthy = True\<rparr>]) (got + 1) w1
                else recruit_loop ops con cid picks exclude edges got w1
            | (Inl e, w1) \<Rightarrow> recruit_loop ops con cid picks exclude edges got w1))"

definition reconcile ::
  "'w maintain_ops \<Rightarrow> string \<Rightarrow> catalog_entry \<Rightarrow> maintain_report \<Rightarrow> 'w
     \<Rightarrow> (edge_replica list \<times> maintain_report) \<times> 'w" where
  "reconcile ops cid entry report w =
     (let report1 = report\<lparr>mr_examined := mr_examined report + 1\<rparr>;
          target = ct_replication (ce_content entry);
          (probes, w1) = probe_all ops cid (edge_ids entry) w;
          plan = plan_entry cid target probes;
          edges = map (\<lambda>e. \<lparr>er_edge = e, er_healthy = True\<rparr>) (ep_healthy plan)
      in if ep_recruit plan > 0 then
           (let exclude = sort (remdups (edge_ids entry));
                (pr, w2) = mo_pick ops (ep_recruit plan) exclude w1;
                picks = unwrap_or [] pr;
                ((edges', got), w3) = recruit_loop ops (ce_content entry) cid picks exclude edges 0 w2;
                report2 = report1\<lparr>mr_recruited := mr_recruited report1 + got\<rparr>
            in ((edges', if got < ep_recruit plan
                         then report2\<lparr>mr_shortfalls := mr_shortfalls report2 + 1\<rparr> else report2), w3))
         else ((edges, report1), w1))"

fun reconcile_all ::
  "'w maintain_ops \<Rightarrow> (string \<times> catalog_entry) list \<Rightarrow> maintain_report \<Rightarrow> 'w
     \<Rightarrow> ((string \<times> edge_replica list) list \<times> maintain_report) \<times> 'w" where
  "reconcile_all ops [] report w = (([], report), w)"
| "reconcile_all ops ((cid, entry) # items) report w =
     (let ((edges, report1), w1) = reconcile ops cid entry report w;
          ((rest, report2), w2) = reconcile_all ops items report1 w1
      in (((cid, edges) # rest, report2), w2))"

definition commit_results :: "(string \<times> edge_replica list) list \<Rightarrow> catalog \<Rightarrow> catalog" where
  "commit_results results c =
     foldl (\<lambda>c (cid, edges). cat_modify cid (\<lambda>e. e\<lparr>ce_edges := edges\<rparr>) c) c results"

definition run_once :: "'w maintain_ops \<Rightarrow> 'w \<Rightarrow> maintain_report result \<times> 'w" where
  "run_once ops w =
     (case mo_load ops w of
        (Inl e, w1) \<Rightarrow> (Inl e, w1)
      | (Inr snapshot, w1) \<Rightarrow>
          (let ((results, report), w2) = reconcile_all ops (cat_items snapshot)
                 \<lparr>mr_examined = 0, mr_recruited = 0, mr_shortfalls = 0\<rparr> w1
           in case mo_update ops (commit_results results) w2 of
                (Inl e, w3) \<Rightarrow> (Inl e, w3)
              | (Inr _, w3) \<Rightarrow> (Inr report, w3)))"

text \<open>The operations of the client model, for one capability chain.\<close>

definition client_ops ::
  "'w sdk \<Rightarrow> (status_req \<Rightarrow> bytes result) \<Rightarrow> (bytes \<Rightarrow> status_resp result)
     \<Rightarrow> (cache_req \<Rightarrow> bytes result) \<Rightarrow> (bytes \<Rightarrow> cache_resp result)
     \<Rightarrow> ('w \<Rightarrow> catalog result \<times> 'w) \<Rightarrow> ((catalog \<Rightarrow> catalog) \<Rightarrow> 'w \<Rightarrow> unit result \<times> 'w) \<Rightarrow> string
     \<Rightarrow> 'w maintain_ops" where
  "client_ops ce sq sr cq cr load upd caps =
     \<lparr>mo_load = load,
      mo_probe = (\<lambda>edge cid. probe ce sq sr edge cid caps),
      mo_pick = pick_edges ce,
      mo_replicate = (\<lambda>edge cid len ttl. replicate_to ce cq cr edge cid len ttl caps),
      mo_update = upd\<rparr>"

section \<open>What a reconciled entry looks like\<close>

lemma fst_probe_all: "map fst (fst (probe_all ops cid es w)) = es"
  by (induction es arbitrary: w) (simp_all add: Let_def case_prod_beta)

lemma recruit_loop_new:
  "\<exists>new. fst (recruit_loop ops con cid picks exclude edges got w) =
      (edges @ map (\<lambda>e. \<lparr>er_edge = e, er_healthy = True\<rparr>) new, got + length new) \<and>
     distinct new \<and> set new \<inter> set exclude = {} \<and> set new \<subseteq> set picks \<and> length new \<le> length picks"
proof (induction picks arbitrary: exclude edges got w)
  case (Cons pick picks)
  note IH = Cons.IH
  show ?case
  proof (cases "pick \<in> set exclude")
    case True
    with IH [of exclude edges got w] show ?thesis by auto
  next
    case False
    obtain r w1 where rep: "mo_replicate ops pick cid (ct_bytes_len con) (ct_ttl_secs con) w = (r, w1)"
      by (cases "mo_replicate ops pick cid (ct_bytes_len con) (ct_ttl_secs con) w")
    show ?thesis
    proof (cases "\<exists>x. r = Inr x \<and> cr_cached x")
      case True
      obtain new where "fst (recruit_loop ops con cid picks (pick # exclude)
            (edges @ [\<lparr>er_edge = pick, er_healthy = True\<rparr>]) (got + 1) w1) =
          ((edges @ [\<lparr>er_edge = pick, er_healthy = True\<rparr>])
             @ map (\<lambda>e. \<lparr>er_edge = e, er_healthy = True\<rparr>) new, got + 1 + length new)"
        "distinct new" "set new \<inter> set (pick # exclude) = {}" "set new \<subseteq> set picks"
        "length new \<le> length picks"
        using IH [of "pick # exclude" _ "got + 1" w1] by metis
      with True False rep show ?thesis by (intro exI [of _ "pick # new"]) auto
    next
      case skip: False
      have "recruit_loop ops con cid (pick # picks) exclude edges got w
          = recruit_loop ops con cid picks exclude edges got w1"
        using skip False rep by (cases r) auto
      with IH [of exclude edges got w1] show ?thesis by auto
    qed
  qed
qed simp


text \<open>
  A concrete network: edge \<open>a\<close> still holds the object, edge \<open>b\<close> does not, and every edge accepts a
  copy. The world counts the calls.
\<close>

definition demo_ops :: "nat maintain_ops" where
  "demo_ops =
     \<lparr>mo_load = (\<lambda>w. (Inr sample_catalog, w + 1)),
      mo_probe = (\<lambda>edge cid w. (Inr \<lparr>sr_held = (edge = ''a''), sr_bytes = 1, sr_ttl_remaining = 0\<rparr>, w + 1)),
      mo_pick = (\<lambda>n ex w. (Inr (take n [''c'', ''d'']), w + 1)),
      mo_replicate = (\<lambda>edge cid len ttl w.
        (Inr \<lparr>cr_cached = True, cr_stored_bytes = len, cr_ttl_secs = ttl, cr_reason = None\<rparr>, w + 1)),
      mo_update = (\<lambda>f w. (Inr (), w + 1))\<rparr>"

definition demo_entry :: catalog_entry where
  "demo_entry = \<lparr>ce_content = sample_content ''x'' [],
     ce_edges = [\<lparr>er_edge = ''a'', er_healthy = True\<rparr>, \<lparr>er_edge = ''b'', er_healthy = True\<rparr>]\<rparr>"

definition demo_report :: maintain_report where
  "demo_report = \<lparr>mr_examined = 0, mr_recruited = 0, mr_shortfalls = 0\<rparr>"


text \<open>The client's own edge picking never returns more than asked for.\<close>

lemma pick_edges_few: "length (unwrap_or [] (fst (pick_edges ce n ex w))) \<le> n"
  by (simp add: pick_edges_def Let_def case_prod_beta unwrap_or_def select_filter)

section \<open>Committing a pass\<close>

lemma commit_results_Cons:
  "commit_results ((cid, edges) # rs) c
     = commit_results rs (cat_modify cid (\<lambda>e. e\<lparr>ce_edges := edges\<rparr>) c)"
  by (simp add: commit_results_def)

lemma cat_get_commit:
  "distinct (map fst rs) \<Longrightarrow> cat_get k (commit_results rs c) =
     (case map_of rs k of
        None \<Rightarrow> cat_get k c
      | Some edges \<Rightarrow> map_option (\<lambda>e. e\<lparr>ce_edges := edges\<rparr>) (cat_get k c))"
proof (induction rs arbitrary: c)
  case (Cons r rs)
  obtain cid edges where r: "r = (cid, edges)" by (cases r)
  have "map_of rs cid = None" using Cons.prems r by (simp add: map_of_eq_None_iff)
  with Cons r show ?case
    by (auto simp: commit_results_Cons cat_get_modify split: option.splits)
qed (simp add: commit_results_def)

lemma cat_ok_commit: "cat_ok c \<Longrightarrow> cat_ok (commit_results rs c)"
proof (induction rs arbitrary: c)
  case (Cons r rs)
  obtain cid edges where r: "r = (cid, edges)" by (cases r)
  have "cat_ok (cat_modify cid (\<lambda>e. e\<lparr>ce_edges := edges\<rparr>) c)"
    by (rule cat_ok_modify [OF Cons.prems]) simp
  with Cons.IH r show ?case by (simp add: commit_results_Cons)
qed (simp add: commit_results_def)

lemma reconcile_all_cids: "map fst (fst (fst (reconcile_all ops items report w))) = map fst items"
  by (induction items arbitrary: report w) (auto simp: Let_def case_prod_beta)

text \<open>
  C30: committing a pass does not undo concurrent changes. The commit is applied to the catalog as it
  is at that moment, possibly changed since the snapshot was reconciled: an entry removed meanwhile
  stays removed, an entry added meanwhile is untouched, an entry that was examined keeps its content
  and gets exactly the edges of this pass, and the catalog stays well-formed.
\<close>
theorem commit_preserves_others:
  fixes ops :: "'w maintain_ops" and report :: maintain_report and w :: 'w
  assumes "cat_ok snapshot" and "cat_ok now"
  defines "results \<equiv> fst (fst (reconcile_all ops (cat_items snapshot) report w))"
  shows "cat_ok (commit_results results now) \<and>
    (\<forall>cid. cat_get cid (commit_results results now) =
       (case cat_get cid now of
          None \<Rightarrow> None
        | Some e \<Rightarrow>
            (case map_of results cid of
               None \<Rightarrow> Some e
             | Some edges \<Rightarrow> Some (e\<lparr>ce_edges := edges\<rparr>)))) \<and>
    (\<forall>cid. map_of results cid = None \<longleftrightarrow> cat_get cid snapshot = None)"
proof -
  have fst_results: "map fst results = map fst (cat_items snapshot)"
    by (simp add: results_def reconcile_all_cids)
  have "distinct (map fst results)"
    unfolding fst_results using assms(1) by (simp add: cat_ok_def bt_ok_distinct)
  then have "cat_get cid (commit_results results now) =
       (case cat_get cid now of
          None \<Rightarrow> None
        | Some e \<Rightarrow>
            (case map_of results cid of
               None \<Rightarrow> Some e
             | Some edges \<Rightarrow> Some (e\<lparr>ce_edges := edges\<rparr>)))" for cid
    by (auto simp: cat_get_commit split: option.splits)
  moreover have "map_of results cid = None \<longleftrightarrow> cat_get cid snapshot = None" for cid
  proof -
    have "fst ` set results = fst ` set (cat_items snapshot)"
      using arg_cong [OF fst_results, of set] by simp
    then show ?thesis by (simp add: map_of_eq_None_iff cat_get_def bt_get_def)
  qed
  ultimately show ?thesis using cat_ok_commit [OF assms(2)] by simp
qed

lemma commit_preserves_others_witness:
  "cat_ok (commit_results (fst (fst (reconcile_all demo_ops (cat_items sample_catalog) demo_report 0))) default_catalog) \<and>
    (\<forall>cid. cat_get cid (commit_results (fst (fst (reconcile_all demo_ops (cat_items sample_catalog) demo_report 0))) default_catalog) =
       (case cat_get cid default_catalog of
          None \<Rightarrow> None
        | Some e \<Rightarrow>
            (case map_of (fst (fst (reconcile_all demo_ops (cat_items sample_catalog) demo_report 0))) cid of
               None \<Rightarrow> Some e
             | Some edges \<Rightarrow> Some (e\<lparr>ce_edges := edges\<rparr>)))) \<and>
    (\<forall>cid. map_of (fst (fst (reconcile_all demo_ops (cat_items sample_catalog) demo_report 0))) cid = None
       \<longleftrightarrow> cat_get cid sample_catalog = None)"
  by (rule commit_preserves_others [OF sample_catalog_ok cat_ok_default])

end
