(* ===== verification/Catalog_Lock.thy ===== *)
theory Catalog_Lock
  imports Catalog
begin

text \<open>
  Model of \<open>FileLock\<close> and \<open>Catalog::update\<close> in \<open>src/catalog.rs\<close> as a step relation: any number of
  processes, each running one load-modify-save under the lock file, interleaved step by step with a
  clock. A process that finds the lock file older than \<open>LOCK_STALE_SECS\<close> removes it in a later step,
  as the code does. The theorems say when the lock protects the catalog, and that stealing can break
  it.
\<close>

section \<open>State and steps\<close>

definition LOCK_STALE_SECS :: nat where
  "LOCK_STALE_SECS = 30"

definition LOCK_ATTEMPTS :: nat where
  "LOCK_ATTEMPTS = 200"

type_synonym pid = nat

text \<open>
  Where a process is in \<open>update\<close>; the catalog it has loaded is local to it. An attempt that finds the
  file (\<open>AlreadyExists\<close>) looks at its age in a later step, when it may be gone or another's.
\<close>

datatype 'c pc = Idle | Trying nat | Checking nat | Stealing nat | Locked | Loaded 'c | Finished | Released
  | TimedOut | Refused

record 'c lock_sys =
  ls_file :: 'c
  ls_lock :: "(pid \<times> nat) option"
  ls_time :: nat
  ls_pc :: "pid \<Rightarrow> 'c pc"

datatype event =
  EStart pid | ECreate pid | EFound pid | ERefuse pid | EWait pid | ESeeStale pid | ESteal pid | EGiveUp pid
  | ELoad pid | ELoadFail pid | EFail pid | ESave pid | ERelease pid | ETick

text \<open>\<open>lock_is_stale\<close>: a lock file that is gone, or dated in the future, is not stale.\<close>

definition lock_is_stale :: "(pid \<times> nat) option \<Rightarrow> nat \<Rightarrow> bool" where
  "lock_is_stale lock now \<longleftrightarrow>
     (case lock of None \<Rightarrow> False | Some (q, modified) \<Rightarrow> now - modified > LOCK_STALE_SECS)"

definition set_pc :: "pid \<Rightarrow> 'c pc \<Rightarrow> 'c lock_sys \<Rightarrow> 'c lock_sys" where
  "set_pc p x s = s\<lparr>ls_pc := (ls_pc s)(p := x)\<rparr>"

text \<open>
  \<open>refuse\<close>, \<open>load_fail\<close> and \<open>fail\<close> are the error returns: the lock file cannot be created for another
  reason, the catalog cannot be read, the closure or the save fails (a failed save leaves the file as
  it was: it writes beside it and renames). The guard's \<open>drop\<close> removes the lock file in \<open>release\<close>.
\<close>

inductive lock_step :: "(pid \<Rightarrow> 'c \<Rightarrow> 'c option) \<Rightarrow> 'c lock_sys \<Rightarrow> event \<Rightarrow> 'c lock_sys \<Rightarrow> bool"
  for upd :: "pid \<Rightarrow> 'c \<Rightarrow> 'c option" where
  start: "ls_pc s p = Idle \<Longrightarrow> lock_step upd s (EStart p) (set_pc p (Trying 0) s)"
| create: "ls_pc s p = Trying n \<Longrightarrow> n < LOCK_ATTEMPTS \<Longrightarrow> ls_lock s = None \<Longrightarrow>
    lock_step upd s (ECreate p) (set_pc p Locked (s\<lparr>ls_lock := Some (p, ls_time s)\<rparr>))"
| found: "ls_pc s p = Trying n \<Longrightarrow> n < LOCK_ATTEMPTS \<Longrightarrow> ls_lock s \<noteq> None \<Longrightarrow>
    lock_step upd s (EFound p) (set_pc p (Checking n) s)"
| refuse: "ls_pc s p = Trying n \<Longrightarrow> n < LOCK_ATTEMPTS \<Longrightarrow>
    lock_step upd s (ERefuse p) (set_pc p Refused s)"
| wait: "ls_pc s p = Checking n \<Longrightarrow> \<not> lock_is_stale (ls_lock s) (ls_time s) \<Longrightarrow>
    lock_step upd s (EWait p) (set_pc p (Trying (Suc n)) s)"
| see_stale: "ls_pc s p = Checking n \<Longrightarrow> lock_is_stale (ls_lock s) (ls_time s) \<Longrightarrow>
    lock_step upd s (ESeeStale p) (set_pc p (Stealing n) s)"
| steal: "ls_pc s p = Stealing n \<Longrightarrow>
    lock_step upd s (ESteal p) (set_pc p (Trying (Suc n)) (s\<lparr>ls_lock := None\<rparr>))"
| give_up: "ls_pc s p = Trying n \<Longrightarrow> LOCK_ATTEMPTS \<le> n \<Longrightarrow>
    lock_step upd s (EGiveUp p) (set_pc p TimedOut s)"
| load: "ls_pc s p = Locked \<Longrightarrow> lock_step upd s (ELoad p) (set_pc p (Loaded (ls_file s)) s)"
| load_fail: "ls_pc s p = Locked \<Longrightarrow> lock_step upd s (ELoadFail p) (set_pc p Finished s)"
| fail: "ls_pc s p = Loaded c \<Longrightarrow> lock_step upd s (EFail p) (set_pc p Finished s)"
| save: "ls_pc s p = Loaded c \<Longrightarrow> upd p c = Some c' \<Longrightarrow>
    lock_step upd s (ESave p) (set_pc p Finished (s\<lparr>ls_file := c'\<rparr>))"
| release: "ls_pc s p = Finished \<Longrightarrow>
    lock_step upd s (ERelease p) (set_pc p Released (s\<lparr>ls_lock := None\<rparr>))"
| tick: "lock_step upd s ETick (s\<lparr>ls_time := Suc (ls_time s)\<rparr>)"

definition lock_init :: "'c \<Rightarrow> 'c lock_sys" where
  "lock_init c0 = \<lparr>ls_file = c0, ls_lock = None, ls_time = 0, ls_pc = (\<lambda>p. Idle)\<rparr>"

inductive lock_run :: "(pid \<Rightarrow> 'c \<Rightarrow> 'c option) \<Rightarrow> 'c \<Rightarrow> event list \<Rightarrow> 'c lock_sys \<Rightarrow> bool"
  for upd :: "pid \<Rightarrow> 'c \<Rightarrow> 'c option" and c0 :: 'c where
  init: "lock_run upd c0 [] (lock_init c0)"
| snoc: "lock_run upd c0 es s \<Longrightarrow> lock_step upd s e s' \<Longrightarrow> lock_run upd c0 (es @ [e]) s'"

inductive_cases lock_stepE: "lock_step upd s e s'"
inductive_cases lock_run_snocE: "lock_run upd c0 (es @ [e]) s'"

section \<open>Without stealing the lock excludes and nothing is lost\<close>

text \<open>A process is inside when it has created the lock file and not yet removed it.\<close>

fun inside :: "'c pc \<Rightarrow> bool" where
  "inside Locked = True"
| "inside (Loaded c) = True"
| "inside Finished = True"
| "inside _ = False"

text \<open>The catalog after the saves of a run, one after the other.\<close>

definition commit :: "(pid \<Rightarrow> 'c \<Rightarrow> 'c option) \<Rightarrow> 'c \<Rightarrow> event \<Rightarrow> 'c" where
  "commit upd c e = (case e of ESave p \<Rightarrow> (case upd p c of None \<Rightarrow> c | Some c' \<Rightarrow> c') | _ \<Rightarrow> c)"

definition no_stealing :: "event list \<Rightarrow> bool" where
  "no_stealing es \<longleftrightarrow> (\<forall>p. ESeeStale p \<notin> set es)"

definition lock_inv :: "(pid \<Rightarrow> 'c \<Rightarrow> 'c option) \<Rightarrow> 'c \<Rightarrow> event list \<Rightarrow> 'c lock_sys \<Rightarrow> bool" where
  "lock_inv upd c0 es s \<longleftrightarrow>
     (\<forall>p. inside (ls_pc s p) \<longleftrightarrow> (\<exists>t. ls_lock s = Some (p, t))) \<and>
     (\<forall>p n. ls_pc s p \<noteq> Stealing n) \<and>
     (\<forall>p c. ls_pc s p = Loaded c \<longrightarrow> c = ls_file s) \<and>
     ls_file s = foldl (commit upd) c0 es"

text \<open>A step that only moves one process, neither into nor out of the lock.\<close>

lemma lock_inv_move:
  assumes "lock_inv upd c0 es s" "inside x = inside (ls_pc s p)" "\<forall>n. x \<noteq> Stealing n"
    and "\<forall>c. x = Loaded c \<longrightarrow> c = ls_file s" "\<And>c. commit upd c e = c"
  shows "lock_inv upd c0 (es @ [e]) (set_pc p x s)"
  using assms by (simp add: lock_inv_def set_pc_def) metis

lemma lock_inv_step:
  assumes "lock_inv upd c0 es s" "lock_step upd s e s'" "\<forall>p. e \<noteq> ESeeStale p"
  shows "lock_inv upd c0 (es @ [e]) s'"
proof -
  have in_iff: "inside (ls_pc s p) \<longleftrightarrow> (\<exists>t. ls_lock s = Some (p, t))"
    and no_steal: "ls_pc s p \<noteq> Stealing n"
    and loaded: "ls_pc s p = Loaded c \<Longrightarrow> c = ls_file s"
    and disk: "ls_file s = foldl (commit upd) c0 es" for p n c
    using assms(1) by (auto simp: lock_inv_def)
  have alone: "inside (ls_pc s p) \<Longrightarrow> inside (ls_pc s q) \<Longrightarrow> p = q" for p q
    using in_iff [of p] in_iff [of q] by auto
  from assms(2) show ?thesis
  proof cases
    case (save p c c')
    have "\<not> inside (ls_pc s q)" if "q \<noteq> p" for q
      using alone [of p q] that save by auto
    then have "ls_pc s q \<noteq> Loaded d" if "q \<noteq> p" for q d using that by fastforce
    moreover have "\<exists>t. ls_lock s = Some (p, t)" using in_iff [of p] save by simp
    ultimately show ?thesis
      using save loaded [of p c] disk in_iff no_steal
      by (auto simp: lock_inv_def set_pc_def commit_def)
  next
    case (release p)
    with alone [of p] in_iff no_steal loaded disk show ?thesis
      by (force simp: lock_inv_def set_pc_def commit_def)
  next
    case (steal p n)
    with no_steal show ?thesis by blast
  next
    case (see_stale p n)
    with assms(3) show ?thesis by blast
  next
    case (create p n)
    with in_iff no_steal loaded disk show ?thesis
      by (auto simp: lock_inv_def set_pc_def commit_def)
  next
    case tick
    with in_iff no_steal loaded disk show ?thesis
      by (simp add: lock_inv_def commit_def)
  qed (auto intro!: lock_inv_move [OF assms(1)] simp: commit_def)
qed

lemma lock_inv_run: "lock_run upd c0 es s \<Longrightarrow> no_stealing es \<Longrightarrow> lock_inv upd c0 es s"
proof (induction rule: lock_run.induct)
  case init
  show ?case by (simp add: lock_inv_def lock_init_def)
next
  case (snoc es s e s')
  then show ?case
    by (intro lock_inv_step [OF snoc.IH snoc.hyps(2)]) (auto simp: no_stealing_def)
qed

text \<open>
  C19: concurrent updates of the catalog do not lose one another. In every interleaving of any number
  of processes in which no process ever sees a stale lock file (every holder finishes within thirty
  seconds), at most one process is inside the lock at a time, and the file always holds exactly the
  initial catalog with the completed saves applied one after the other, in the order they happened.
\<close>
theorem update_serialised:
  assumes "lock_run upd c0 es s" and "no_stealing es"
  shows "(\<forall>p q. inside (ls_pc s p) \<longrightarrow> inside (ls_pc s q) \<longrightarrow> p = q) \<and>
    ls_file s = foldl (commit upd) c0 es"
proof -
  have "lock_inv upd c0 es s" using assms by (rule lock_inv_run)
  then show ?thesis unfolding lock_inv_def by fastforce
qed

section \<open>Runs by evaluation\<close>

fun exec_event :: "(pid \<Rightarrow> 'c \<Rightarrow> 'c option) \<Rightarrow> event \<Rightarrow> 'c lock_sys \<Rightarrow> 'c lock_sys option" where
  "exec_event upd (EStart p) s = (case ls_pc s p of Idle \<Rightarrow> Some (set_pc p (Trying 0) s) | _ \<Rightarrow> None)"
| "exec_event upd (ECreate p) s =
     (case (ls_pc s p, ls_lock s) of
        (Trying n, None) \<Rightarrow>
          if n < LOCK_ATTEMPTS then Some (set_pc p Locked (s\<lparr>ls_lock := Some (p, ls_time s)\<rparr>)) else None
      | _ \<Rightarrow> None)"
| "exec_event upd (EFound p) s =
     (case ls_pc s p of
        Trying n \<Rightarrow> if n < LOCK_ATTEMPTS \<and> ls_lock s \<noteq> None then Some (set_pc p (Checking n) s) else None
      | _ \<Rightarrow> None)"
| "exec_event upd (ERefuse p) s =
     (case ls_pc s p of Trying n \<Rightarrow> if n < LOCK_ATTEMPTS then Some (set_pc p Refused s) else None | _ \<Rightarrow> None)"
| "exec_event upd (EWait p) s =
     (case ls_pc s p of
        Checking n \<Rightarrow> if lock_is_stale (ls_lock s) (ls_time s) then None else Some (set_pc p (Trying (Suc n)) s)
      | _ \<Rightarrow> None)"
| "exec_event upd (ESeeStale p) s =
     (case ls_pc s p of
        Checking n \<Rightarrow> if lock_is_stale (ls_lock s) (ls_time s) then Some (set_pc p (Stealing n) s) else None
      | _ \<Rightarrow> None)"
| "exec_event upd (ESteal p) s =
     (case ls_pc s p of Stealing n \<Rightarrow> Some (set_pc p (Trying (Suc n)) (s\<lparr>ls_lock := None\<rparr>)) | _ \<Rightarrow> None)"
| "exec_event upd (EGiveUp p) s =
     (case ls_pc s p of Trying n \<Rightarrow> if LOCK_ATTEMPTS \<le> n then Some (set_pc p TimedOut s) else None | _ \<Rightarrow> None)"
| "exec_event upd (ELoad p) s =
     (case ls_pc s p of Locked \<Rightarrow> Some (set_pc p (Loaded (ls_file s)) s) | _ \<Rightarrow> None)"
| "exec_event upd (ELoadFail p) s =
     (case ls_pc s p of Locked \<Rightarrow> Some (set_pc p Finished s) | _ \<Rightarrow> None)"
| "exec_event upd (EFail p) s =
     (case ls_pc s p of Loaded c \<Rightarrow> Some (set_pc p Finished s) | _ \<Rightarrow> None)"
| "exec_event upd (ESave p) s =
     (case ls_pc s p of
        Loaded c \<Rightarrow>
          (case upd p c of None \<Rightarrow> None | Some c' \<Rightarrow> Some (set_pc p Finished (s\<lparr>ls_file := c'\<rparr>)))
      | _ \<Rightarrow> None)"
| "exec_event upd (ERelease p) s =
     (case ls_pc s p of Finished \<Rightarrow> Some (set_pc p Released (s\<lparr>ls_lock := None\<rparr>)) | _ \<Rightarrow> None)"
| "exec_event upd ETick s = Some (s\<lparr>ls_time := Suc (ls_time s)\<rparr>)"

lemma exec_event_step: "exec_event upd e s = Some s' \<Longrightarrow> lock_step upd s e s'"
  by (cases e) (auto intro: lock_step.intros split: pc.splits option.splits if_splits)

fun exec_events :: "(pid \<Rightarrow> 'c \<Rightarrow> 'c option) \<Rightarrow> event list \<Rightarrow> 'c lock_sys \<Rightarrow> 'c lock_sys option" where
  "exec_events upd [] s = Some s"
| "exec_events upd (e # es) s =
     (case exec_event upd e s of None \<Rightarrow> None | Some s' \<Rightarrow> exec_events upd es s')"

lemma exec_events_run:
  "exec_events upd es s = Some s' \<Longrightarrow> lock_run upd c0 es0 s \<Longrightarrow> lock_run upd c0 (es0 @ es) s'"
proof (induction es arbitrary: s es0)
  case (Cons e es)
  then obtain s1 where s1: "exec_event upd e s = Some s1" "exec_events upd es s1 = Some s'"
    by (auto split: option.splits)
  from Cons.IH [OF s1(2) lock_run.snoc [OF Cons.prems(2) exec_event_step [OF s1(1)]]]
  show ?case by simp
qed simp

lemma run_by_exec: "exec_events upd es (lock_init c0) = Some s \<Longrightarrow> lock_run upd c0 es s"
  using exec_events_run [OF _ lock_run.init, of upd es c0 s] by simp

text \<open>Each process appends its number to the catalog.\<close>

definition append_upd :: "pid \<Rightarrow> pid list \<Rightarrow> pid list option" where
  "append_upd p c = Some (c @ [p])"

definition contended_events :: "event list" where
  "contended_events =
     [EStart 1, ECreate 1, EStart 2, EFound 2, EWait 2, ELoad 1, ESave 1, ERelease 1, ECreate 2, ELoad 2, ESave 2]"

lemma update_serialised_witness:
  "let s = the (exec_events append_upd contended_events (lock_init [])) in
    (\<forall>p q. inside (ls_pc s p) \<longrightarrow> inside (ls_pc s q) \<longrightarrow> p = q) \<and>
    ls_file s = foldl (commit append_upd) [] contended_events"
  unfolding Let_def
proof (rule update_serialised)
  have "\<exists>s. exec_events append_upd contended_events (lock_init []) = Some s"
    by (simp add: contended_events_def lock_init_def set_pc_def append_upd_def LOCK_ATTEMPTS_def
        lock_is_stale_def)
  then show "lock_run append_upd [] contended_events
      (the (exec_events append_upd contended_events (lock_init [])))"
    using run_by_exec by fastforce
qed (simp add: no_stealing_def contended_events_def)

section \<open>Every process gets through\<close>

text \<open>Whose step an event is.\<close>

fun own :: "pid \<Rightarrow> event \<Rightarrow> bool" where
  "own p ETick \<longleftrightarrow> False"
| "own p (EStart q) \<longleftrightarrow> q = p"
| "own p (ECreate q) \<longleftrightarrow> q = p"
| "own p (EFound q) \<longleftrightarrow> q = p"
| "own p (ERefuse q) \<longleftrightarrow> q = p"
| "own p (EWait q) \<longleftrightarrow> q = p"
| "own p (ESeeStale q) \<longleftrightarrow> q = p"
| "own p (ESteal q) \<longleftrightarrow> q = p"
| "own p (EGiveUp q) \<longleftrightarrow> q = p"
| "own p (ELoad q) \<longleftrightarrow> q = p"
| "own p (ELoadFail q) \<longleftrightarrow> q = p"
| "own p (EFail q) \<longleftrightarrow> q = p"
| "own p (ESave q) \<longleftrightarrow> q = p"
| "own p (ERelease q) \<longleftrightarrow> q = p"

text \<open>How many steps a process can still take: an attempt costs at most three (find the file, see it stale, remove it).\<close>

fun steps_left :: "'c pc \<Rightarrow> nat" where
  "steps_left Idle = 3 * LOCK_ATTEMPTS + 2"
| "steps_left (Trying n) = 3 * (LOCK_ATTEMPTS - n) + 1"
| "steps_left (Checking n) = 3 * (LOCK_ATTEMPTS - n)"
| "steps_left (Stealing n) = 3 * (LOCK_ATTEMPTS - n) - 1"
| "steps_left Locked = 3"
| "steps_left (Loaded c) = 2"
| "steps_left Finished = 1"
| "steps_left Released = 0"
| "steps_left TimedOut = 0"
| "steps_left Refused = 0"

definition attempts_ok :: "'c lock_sys \<Rightarrow> bool" where
  "attempts_ok s \<longleftrightarrow> (\<forall>p n. ls_pc s p = Checking n \<or> ls_pc s p = Stealing n \<longrightarrow> n < LOCK_ATTEMPTS)"

lemma attempts_ok_step: "lock_step upd s e s' \<Longrightarrow> attempts_ok s \<Longrightarrow> attempts_ok s'"
  by (induction rule: lock_step.induct) (auto simp: attempts_ok_def set_pc_def)

lemma attempts_ok_run: "lock_run upd c0 es s \<Longrightarrow> attempts_ok s"
proof (induction rule: lock_run.induct)
  case init
  show ?case by (simp add: attempts_ok_def lock_init_def)
qed (rule attempts_ok_step)

lemma own_step_descends:
  assumes "lock_step upd s e s'" "attempts_ok s" "own p e"
  shows "steps_left (ls_pc s' p) < steps_left (ls_pc s p)"
proof -
  have "n < LOCK_ATTEMPTS" if "ls_pc s p = Checking n \<or> ls_pc s p = Stealing n" for n
    using assms(2) that unfolding attempts_ok_def by blast
  from assms(1) assms(3) this show ?thesis by cases (auto simp: set_pc_def)
qed

lemma other_step_keeps: "lock_step upd s e s' \<Longrightarrow> \<not> own p e \<Longrightarrow> ls_pc s' p = ls_pc s p"
  by (induction rule: lock_step.induct) (auto simp: set_pc_def)

lemma steps_bounded:
  "lock_run upd c0 es s \<Longrightarrow>
     length (filter (own p) es) + steps_left (ls_pc s p) \<le> 3 * LOCK_ATTEMPTS + 2"
proof (induction rule: lock_run.induct)
  case init
  show ?case by (simp add: lock_init_def)
next
  case (snoc es s e s')
  show ?case
  proof (cases "own p e")
    case True
    with own_step_descends [OF snoc.hyps(2) attempts_ok_run [OF snoc.hyps(1)] True] snoc.IH
    show ?thesis by simp
  next
    case False
    with other_step_keeps [OF snoc.hyps(2) False] snoc.IH show ?thesis by simp
  qed
qed

text \<open>
  No state blocks a process: an attempt that finds the lock file goes on to wait or to remove it. The
  step need not be an I/O error, nor a failure of the closure when the closure accepts every catalog.
\<close>

definition proper :: "(pid \<Rightarrow> 'c \<Rightarrow> 'c option) \<Rightarrow> pid \<Rightarrow> event \<Rightarrow> bool" where
  "proper upd p e \<longleftrightarrow> own p e \<and> e \<noteq> ERefuse p \<and> e \<noteq> ELoadFail p \<and> (e = EFail p \<longrightarrow> (\<exists>c. upd p c = None))"

lemma proper_step_enabled:
  assumes "steps_left (ls_pc s p) > 0"
  shows "\<exists>e s'. proper upd p e \<and> lock_step upd s e s'"
proof -
  have "\<exists>e. proper upd p e \<and> exec_event upd e s \<noteq> None"
  proof (cases "ls_pc s p")
    case (Trying n)
    then show ?thesis
      by (cases "n < LOCK_ATTEMPTS"; cases "ls_lock s")
         (auto simp: proper_def intro: exI [of _ "ECreate p"] exI [of _ "EFound p"] exI [of _ "EGiveUp p"])
  next
    case (Checking n)
    then show ?thesis
      by (cases "lock_is_stale (ls_lock s) (ls_time s)")
         (auto simp: proper_def intro: exI [of _ "ESeeStale p"] exI [of _ "EWait p"])
  next
    case (Loaded c)
    then show ?thesis
      by (cases "upd p c") (auto simp: proper_def intro: exI [of _ "EFail p"] exI [of _ "ESave p"])
  next
    case Idle
    then show ?thesis by (intro exI [of _ "EStart p"]) (simp add: proper_def)
  next
    case (Stealing n)
    then show ?thesis by (intro exI [of _ "ESteal p"]) (simp add: proper_def)
  next
    case Locked
    then show ?thesis by (intro exI [of _ "ELoad p"]) (simp add: proper_def)
  next
    case Finished
    then show ?thesis by (intro exI [of _ "ERelease p"]) (simp add: proper_def)
  qed (use assms in simp_all)
  then show ?thesis using exec_event_step by blast
qed

lemma no_steps_left:
  assumes "attempts_ok s" "steps_left (ls_pc s p) = 0"
  shows "ls_pc s p \<in> {Released, TimedOut, Refused}"
proof -
  have "n < LOCK_ATTEMPTS" if "ls_pc s p = Checking n \<or> ls_pc s p = Stealing n" for n
    using assms(1) that unfolding attempts_ok_def by blast
  with assms(2) show ?thesis by (cases "ls_pc s p") simp_all
qed

lemma runs_to_end:
  "lock_run upd c0 es s \<Longrightarrow>
     \<exists>es' s'. lock_run upd c0 (es @ es') s' \<and> list_all (proper upd p) es' \<and>
       ls_pc s' p \<in> {Released, TimedOut, Refused}"
proof (induction "steps_left (ls_pc s p)" arbitrary: es s rule: less_induct)
  case less
  note ok = attempts_ok_run [OF less.prems]
  show ?case
  proof (cases "steps_left (ls_pc s p) = 0")
    case True
    with less.prems no_steps_left [OF ok] show ?thesis by (intro exI [of _ "[]"] exI [of _ s]) simp
  next
    case False
    then obtain e s1 where e: "proper upd p e" "lock_step upd s e s1"
      using proper_step_enabled [of s p upd] by auto
    then have own: "own p e" by (simp add: proper_def)
    have run: "lock_run upd c0 (es @ [e]) s1" by (rule lock_run.snoc [OF less.prems e(2)])
    obtain es' s' where es': "lock_run upd c0 ((es @ [e]) @ es') s'" "list_all (proper upd p) es'"
      "ls_pc s' p \<in> {Released, TimedOut, Refused}"
      using less.hyps [OF own_step_descends [OF e(2) ok own] run] by blast
    from es' e(1) show ?thesis by (intro exI [of _ "e # es'"] exI [of _ s']) simp
  qed
qed

text \<open>
  C20: \<open>update\<close> returns. In any run, with any number of other processes, stale locks and I/O errors
  included, a process takes at most \<open>3 * LOCK_ATTEMPTS + 2\<close> steps; and from every reachable state it can
  go on by its own steps alone, none of them an I/O error, whatever the others did with the lock file,
  until it has released the lock, timed out or been refused. So it can neither loop for ever nor be
  blocked for ever.
\<close>
theorem update_returns:
  assumes "lock_run upd c0 es s"
  shows "length (filter (own p) es) \<le> 3 * LOCK_ATTEMPTS + 2 \<and>
    (\<exists>es' s'. lock_run upd c0 (es @ es') s' \<and> list_all (proper upd p) es' \<and>
       ls_pc s' p \<in> {Released, TimedOut, Refused})"
  using steps_bounded [OF assms, of p] runs_to_end [OF assms, of p] by simp

lemma update_returns_witness:
  "length (filter (own 2) contended_events) \<le> 3 * LOCK_ATTEMPTS + 2 \<and>
    (\<exists>es' s'. lock_run append_upd [] (contended_events @ es') s' \<and> list_all (proper append_upd 2) es' \<and>
       ls_pc s' 2 \<in> {Released, TimedOut, Refused})"
proof -
  have "\<exists>s. exec_events append_upd contended_events (lock_init []) = Some s"
    by (simp add: contended_events_def lock_init_def set_pc_def append_upd_def LOCK_ATTEMPTS_def
        lock_is_stale_def)
  then obtain s where "exec_events append_upd contended_events (lock_init []) = Some s" by blast
  then have "lock_run append_upd [] contended_events s" by (rule run_by_exec)
  then show ?thesis by (rule update_returns)
qed

section \<open>Stealing can break the lock\<close>

text \<open>
  Two processes that both see the same stale lock file: the first removes it and creates its own, the
  second then removes that one and creates another. Both are inside, and an update is lost.
\<close>

definition steal_events :: "nat \<Rightarrow> event list" where
  "steal_events n =
     [EStart 0, ECreate 0] @ replicate n ETick
     @ [EStart 1, EStart 2, EFound 1, EFound 2, ESeeStale 1, ESeeStale 2, ESteal 1, ECreate 1, ELoad 1,
        ESteal 2, ECreate 2, ELoad 2, ESave 1, ESave 2]"

lemma exec_ticks:
  "exec_events upd (replicate n ETick @ es) s = exec_events upd es (s\<lparr>ls_time := n + ls_time s\<rparr>)"
  by (induction n arbitrary: s) simp_all

lemma stealing_loses_update:
  assumes "30 < n"
  shows "\<exists>s. lock_run append_upd [] (steal_events n) s \<and> inside (ls_pc s 1) \<and> inside (ls_pc s 2) \<and>
     ls_file s = [2] \<and> foldl (commit append_upd) [] (steal_events n) = [1, 2]"
proof -
  have "\<exists>s. exec_events append_upd (steal_events n) (lock_init []) = Some s \<and>
      inside (ls_pc s 2) \<and> ls_pc s 1 = Finished \<and> ls_file s = [2]"
    using assms
    by (simp add: steal_events_def exec_ticks lock_init_def set_pc_def append_upd_def
        LOCK_ATTEMPTS_def lock_is_stale_def LOCK_STALE_SECS_def)
  moreover have "foldl (commit append_upd) c (replicate n ETick) = c" for c n
    by (induction n) (simp_all add: commit_def)
  then have "foldl (commit append_upd) [] (steal_events n) = [1, 2]"
    by (simp add: steal_events_def commit_def append_upd_def)
  ultimately show ?thesis using run_by_exec [of append_upd "steal_events n" "[]"] by fastforce
qed

end
