(* ===== verification/Ref_Codec.thy ===== *)
theory Ref_Codec
  imports Catalog
begin

text \<open>
  A reference codec for catalogs. The crate leaves the JSON of the catalog to \<open>serde\<close>, which is a
  parameter of the model that is only assumed to read back what it wrote; this codec shows that the
  assumption can hold for all catalogs. It serves the concrete examples and models no code.
\<close>

definition codec :: "('a \<Rightarrow> bytes) \<Rightarrow> (bytes \<Rightarrow> ('a \<times> bytes) option) \<Rightarrow> bool" where
  "codec e d \<longleftrightarrow> (\<forall>x rest. d (e x @ rest) = Some (x, rest))"

definition enc_nat :: "nat \<Rightarrow> bytes" where
  "enc_nat n = replicate n 1 @ [0]"

fun dec_nat :: "bytes \<Rightarrow> (nat \<times> bytes) option" where
  "dec_nat [] = None"
| "dec_nat (b # bs) = (if b = 0 then Some (0, bs) else map_option (apfst Suc) (dec_nat bs))"

definition enc_via :: "('a \<Rightarrow> 'b) \<Rightarrow> ('b \<Rightarrow> bytes) \<Rightarrow> 'a \<Rightarrow> bytes" where
  "enc_via f e x = e (f x)"

definition dec_via :: "('b \<Rightarrow> 'a) \<Rightarrow> (bytes \<Rightarrow> ('b \<times> bytes) option) \<Rightarrow> bytes \<Rightarrow> ('a \<times> bytes) option" where
  "dec_via g d bs = map_option (apfst g) (d bs)"

definition enc_pair :: "('a \<Rightarrow> bytes) \<Rightarrow> ('b \<Rightarrow> bytes) \<Rightarrow> 'a \<times> 'b \<Rightarrow> bytes" where
  "enc_pair e f p = e (fst p) @ f (snd p)"

definition dec_pair ::
  "(bytes \<Rightarrow> ('a \<times> bytes) option) \<Rightarrow> (bytes \<Rightarrow> ('b \<times> bytes) option) \<Rightarrow> bytes \<Rightarrow> (('a \<times> 'b) \<times> bytes) option" where
  "dec_pair d g bs =
     Option.bind (d bs) (\<lambda>(x, r). map_option (\<lambda>(y, r'). ((x, y), r')) (g r))"

fun dec_many :: "(bytes \<Rightarrow> ('a \<times> bytes) option) \<Rightarrow> nat \<Rightarrow> bytes \<Rightarrow> ('a list \<times> bytes) option" where
  "dec_many d 0 bs = Some ([], bs)"
| "dec_many d (Suc n) bs =
     Option.bind (d bs) (\<lambda>(x, r). map_option (\<lambda>(xs, r'). (x # xs, r')) (dec_many d n r))"

definition enc_list :: "('a \<Rightarrow> bytes) \<Rightarrow> 'a list \<Rightarrow> bytes" where
  "enc_list e xs = enc_nat (length xs) @ concat (map e xs)"

definition dec_list :: "(bytes \<Rightarrow> ('a \<times> bytes) option) \<Rightarrow> bytes \<Rightarrow> ('a list \<times> bytes) option" where
  "dec_list d bs = Option.bind (dec_nat bs) (\<lambda>(n, r). dec_many d n r)"

lemma codec_nat: "codec enc_nat dec_nat"
proof -
  have "dec_nat (replicate n 1 @ 0 # rest) = Some (n, rest)" for n rest
    by (induction n) simp_all
  then show ?thesis by (simp add: codec_def enc_nat_def)
qed

lemma codec_via: "codec e d \<Longrightarrow> (\<And>x. g (f x) = x) \<Longrightarrow> codec (enc_via f e) (dec_via g d)"
  by (simp add: codec_def enc_via_def dec_via_def)

lemma codec_pair: "codec e d \<Longrightarrow> codec f g \<Longrightarrow> codec (enc_pair e f) (dec_pair d g)"
  by (auto simp: codec_def enc_pair_def dec_pair_def)

lemma codec_list:
  assumes "codec e d"
  shows "codec (enc_list e) (dec_list d)"
proof -
  have "dec_many d (length xs) (concat (map e xs) @ rest) = Some (xs, rest)" for xs rest
    using assms by (induction xs) (auto simp: codec_def)
  then show ?thesis using codec_nat by (simp add: codec_def enc_list_def dec_list_def)
qed

section \<open>Catalogs\<close>

definition enc_word :: "'a::len word \<Rightarrow> bytes" where
  "enc_word = enc_via unat enc_nat"

definition dec_word :: "bytes \<Rightarrow> ('a::len word \<times> bytes) option" where
  "dec_word = dec_via of_nat dec_nat"

definition enc_string :: "string \<Rightarrow> bytes" where
  "enc_string = enc_list (enc_via of_char enc_nat)"

definition dec_string :: "bytes \<Rightarrow> (string \<times> bytes) option" where
  "dec_string = dec_list (dec_via char_of dec_nat)"

definition content_tuple :: "content \<Rightarrow> string \<times> u64 \<times> nat \<times> u8 \<times> u64 \<times> string list \<times> string list" where
  "content_tuple c = (ct_cid c, ct_bytes_len c, if is_public_access (ct_access c) then 0 else 1,
     ct_replication c, ct_ttl_secs c, (case ct_label c of None \<Rightarrow> [] | Some l \<Rightarrow> [l]), ct_tags c)"

definition tuple_content :: "string \<times> u64 \<times> nat \<times> u8 \<times> u64 \<times> string list \<times> string list \<Rightarrow> content" where
  "tuple_content = (\<lambda>(cid, len, a, n, ttl, label, tags).
     \<lparr>ct_cid = cid, ct_bytes_len = len, ct_access = (if a = 0 then CatPublic else CatPrivate),
      ct_replication = n, ct_ttl_secs = ttl,
      ct_label = (case label of [] \<Rightarrow> None | l # ls \<Rightarrow> Some l), ct_tags = tags\<rparr>)"

definition enc_content :: "content \<Rightarrow> bytes" where
  "enc_content = enc_via content_tuple
     (enc_pair enc_string (enc_pair enc_word (enc_pair enc_nat (enc_pair enc_word (enc_pair enc_word
       (enc_pair (enc_list enc_string) (enc_list enc_string)))))))"

definition dec_content :: "bytes \<Rightarrow> (content \<times> bytes) option" where
  "dec_content = dec_via tuple_content
     (dec_pair dec_string (dec_pair dec_word (dec_pair dec_nat (dec_pair dec_word (dec_pair dec_word
       (dec_pair (dec_list dec_string) (dec_list dec_string)))))))"

definition enc_entry :: "catalog_entry \<Rightarrow> bytes" where
  "enc_entry = enc_via (\<lambda>e. (ce_content e, map (\<lambda>r. (er_edge r, if er_healthy r then 1 else 0)) (ce_edges e)))
     (enc_pair enc_content (enc_list (enc_pair enc_string enc_nat)))"

definition dec_entry :: "bytes \<Rightarrow> (catalog_entry \<times> bytes) option" where
  "dec_entry = dec_via (\<lambda>(c, es). \<lparr>ce_content = c, ce_edges = map (\<lambda>(i, h). \<lparr>er_edge = i, er_healthy = (h = 1)\<rparr>) es\<rparr>)
     (dec_pair dec_content (dec_list (dec_pair dec_string dec_nat)))"

definition enc_catalog :: "catalog \<Rightarrow> bytes" where
  "enc_catalog = enc_via (\<lambda>c. (cat_version c, cat_items c))
     (enc_pair enc_word (enc_list (enc_pair enc_string enc_entry)))"

definition dec_catalog :: "bytes \<Rightarrow> catalog result" where
  "dec_catalog bs =
     (case dec_via (\<lambda>(v, items). \<lparr>cat_version = v, cat_items = items\<rparr>)
             (dec_pair dec_word (dec_list (dec_pair dec_string dec_entry))) bs of
        None \<Rightarrow> Inl ''bad catalog''
      | Some (c, rest) \<Rightarrow> Inr c)"

lemma codec_word: "codec enc_word (dec_word :: bytes \<Rightarrow> ('a::len word \<times> bytes) option)"
  unfolding enc_word_def dec_word_def by (rule codec_via [OF codec_nat]) simp

lemma codec_string: "codec enc_string dec_string"
  unfolding enc_string_def dec_string_def by (intro codec_list codec_via [OF codec_nat]) simp

lemma codec_content: "codec enc_content dec_content"
  unfolding enc_content_def dec_content_def
  by (intro codec_via codec_pair codec_string codec_word codec_nat codec_list)
     (auto simp: content_tuple_def tuple_content_def is_public_access_def split: option.split cat_access.split)

lemma bit_of_bool: "((if b then 1 else 0) = Suc 0) = b"
  by simp

lemma rebuild_replicas:
  "map (\<lambda>r. \<lparr>er_edge = er_edge r, er_healthy = er_healthy r\<rparr>) rs = (rs :: edge_replica list)"
  by (induction rs) simp_all

lemma codec_entry: "codec enc_entry dec_entry"
  unfolding enc_entry_def dec_entry_def
  by (intro codec_via codec_pair codec_content codec_string codec_nat codec_list)
     (simp add: o_def bit_of_bool rebuild_replicas)

lemma dec_enc_catalog: "dec_catalog (enc_catalog c) = Inr c"
proof -
  have "codec enc_catalog (dec_via (\<lambda>(v, items). \<lparr>cat_version = v, cat_items = items\<rparr>)
      (dec_pair dec_word (dec_list (dec_pair dec_string dec_entry))))"
    unfolding enc_catalog_def by (intro codec_via codec_pair codec_word codec_list codec_string codec_entry) simp
  from this [unfolded codec_def, rule_format, of c "[]"] show ?thesis by (simp add: dec_catalog_def)
qed

end
