(* ===== verification/Cli.thy ===== *)
theory Cli
  imports Maintain Catalog_Lock Presign Setup Edge_Limits Ref_Codec
begin

text \<open>
  Model of the commands of \<open>src/main.rs\<close>: put, get, ls, purge, forget, status and presign. What
  the other commands print is not modelled, but the slice \<open>&edge[..16.min(edge.len())]\<close> they print is: it
  panics when byte 16 is inside a character, and a command that panics is \<open>None\<close>. The operations of
  the client and of the catalog file are fields of a record over the world \<open>'w\<close>, extending the one of
  the maintenance pass; the locale \<open>cli_world\<close> states what the commands rely on.
\<close>

section \<open>Operations\<close>

record 'w cli_ops = "'w maintain_ops" +
  co_put :: "bytes \<Rightarrow> 'w \<Rightarrow> put_result result \<times> 'w"
  co_get :: "string \<Rightarrow> 'w \<Rightarrow> bytes result \<times> 'w"
  co_get_range :: "string \<Rightarrow> string option \<Rightarrow> 'w \<Rightarrow> ((bytes \<times> byte_range \<times> u64) result \<times> 'w) option"
  co_find :: "string \<Rightarrow> 'w \<Rightarrow> string list result \<times> 'w"
  co_purge :: "string \<Rightarrow> string \<Rightarrow> 'w \<Rightarrow> purge_resp result \<times> 'w"
  co_write :: "string \<Rightarrow> bytes \<Rightarrow> 'w \<Rightarrow> unit result \<times> 'w"

definition is_char_boundary :: "string \<Rightarrow> nat \<Rightarrow> bool" where
  "is_char_boundary s n \<longleftrightarrow> n = length s \<or> n < length s \<and> (of_char (s ! n) :: nat) div 64 \<noteq> 2"

definition short_id :: "string \<Rightarrow> string option" where
  "short_id e = (let n = min 16 (length e) in if is_char_boundary e n then Some (take n e) else None)"

definition reason_suffix :: "string option \<Rightarrow> string" where
  "reason_suffix reason =
     (case reason of Some r \<Rightarrow> if r \<noteq> [] then '' ('' @ r @ '')'' else [] | None \<Rightarrow> [])"

section \<open>Put and get\<close>

fun put_edges ::
  "('w, 'm) cli_ops_scheme \<Rightarrow> string \<Rightarrow> u64 \<Rightarrow> u64 \<Rightarrow> string list \<Rightarrow> edge_replica list \<Rightarrow> 'w
     \<Rightarrow> (edge_replica list \<times> 'w) option" where
  "put_edges ops cid len ttl [] edges w = Some (edges, w)"
| "put_edges ops cid len ttl (edge # picks) edges w =
     (case mo_replicate ops edge cid len ttl w of
        (Inl e, w1) \<Rightarrow> put_edges ops cid len ttl picks edges w1
      | (Inr r, w1) \<Rightarrow>
          if short_id edge = None then None
          else put_edges ops cid len ttl picks
                 (if cr_cached r then edges @ [\<lparr>er_edge = edge, er_healthy = True\<rparr>] else edges) w1)"

definition cmd_put ::
  "('w, 'm) cli_ops_scheme \<Rightarrow> bytes result \<Rightarrow> u8 \<Rightarrow> u64 \<Rightarrow> bool \<Rightarrow> string option \<Rightarrow> string list \<Rightarrow> bool \<Rightarrow> 'w
     \<Rightarrow> (unit result \<times> 'w) option" where
  "cmd_put ops disk replication ttl private label tags no_replicate w =
     (case disk of
        Inl e \<Rightarrow> Some (Inl e, w)
      | Inr bs \<Rightarrow>
          (case co_put ops bs w of
             (Inl e, w1) \<Rightarrow> Some (Inl e, w1)
           | (Inr pub, w1) \<Rightarrow>
               (let access = (if private then CatPrivate else CatPublic);
                    replicated =
                      (if \<not> no_replicate \<and> replication > 0 then
                         (let (pr, w2) = mo_pick ops (unat replication) [] w1
                          in put_edges ops (pt_cid pub) (pt_bytes_len pub) ttl (unwrap_or [] pr) [] w2)
                       else Some ([], w1))
                in case replicated of
                     None \<Rightarrow> None
                   | Some (edges, w3) \<Rightarrow>
                       Some (mo_update ops
                         (upsert \<lparr>ce_content = \<lparr>ct_cid = pt_cid pub, ct_bytes_len = pt_bytes_len pub,
                              ct_access = access, ct_replication = replication, ct_ttl_secs = ttl,
                              ct_label = label, ct_tags = tags\<rparr>, ce_edges = edges\<rparr>) w3))))"

definition cmd_get ::
  "('w, 'm) cli_ops_scheme \<Rightarrow> string \<Rightarrow> string option \<Rightarrow> string option \<Rightarrow> 'w \<Rightarrow> (unit result \<times> 'w) option" where
  "cmd_get ops cid out range_header w =
     (let path = (case out of None \<Rightarrow> cid @ ''.bin'' | Some p \<Rightarrow> p)
      in case range_header of
           Some r \<Rightarrow>
             (case co_get_range ops cid (Some r) w of
                None \<Rightarrow> None
              | Some (Inl e, w1) \<Rightarrow> Some (Inl e, w1)
              | Some (Inr (bs, rng, tot), w1) \<Rightarrow> Some (with_context (''writing '' @ path) (co_write ops path bs w1)))
         | None \<Rightarrow>
             (case co_get ops cid w of
                (Inl e, w1) \<Rightarrow> Some (Inl e, w1)
              | (Inr bs, w1) \<Rightarrow> Some (with_context (''writing '' @ path) (co_write ops path bs w1))))"

section \<open>Purge and forget\<close>

definition union_ids :: "string list \<Rightarrow> string list \<Rightarrow> string list" where
  "union_ids ids adv = foldl (\<lambda>s a. if a \<in> set s then s else s @ [a]) ids adv"

definition purge_targets ::
  "('w, 'm) cli_ops_scheme \<Rightarrow> string option \<Rightarrow> string \<Rightarrow> 'w \<Rightarrow> string list result \<times> 'w" where
  "purge_targets ops edge cid w =
     (case edge of
        Some e \<Rightarrow> (Inr [e], w)
      | None \<Rightarrow>
          (case mo_load ops w of
             (Inl e, w1) \<Rightarrow> (Inl e, w1)
           | (Inr c, w1) \<Rightarrow>
               (let ids = (case cat_get cid c of None \<Rightarrow> [] | Some entry \<Rightarrow> edge_ids entry);
                    (adv, w2) = co_find ops (service_for cid) w1
                in (Inr (case adv of Inl e \<Rightarrow> ids | Inr a \<Rightarrow> union_ids ids a), w2))))"

fun purge_edges :: "('w, 'm) cli_ops_scheme \<Rightarrow> string \<Rightarrow> string list \<Rightarrow> 'w \<Rightarrow> 'w option" where
  "purge_edges ops cid [] w = Some w"
| "purge_edges ops cid (e # es) w =
     (if short_id e = None then None
      else (let (r, w1) = co_purge ops e cid w in purge_edges ops cid es w1))"

fun purge_cids ::
  "('w, 'm) cli_ops_scheme \<Rightarrow> string option \<Rightarrow> bool \<Rightarrow> string list \<Rightarrow> 'w \<Rightarrow> (unit result \<times> 'w) option" where
  "purge_cids ops edge keep [] w = Some (Inr (), w)"
| "purge_cids ops edge keep (cid # cids) w =
     (case purge_targets ops edge cid w of
        (Inl e, w1) \<Rightarrow> Some (Inl e, w1)
      | (Inr edges, w1) \<Rightarrow>
          (case purge_edges ops cid edges w1 of
             None \<Rightarrow> None
           | Some w2 \<Rightarrow>
               (case (if keep then (Inr (), w2) else mo_update ops (\<lambda>c. snd (cat_remove cid c)) w2) of
                  (Inl e, w3) \<Rightarrow> Some (Inl e, w3)
                | (Inr u, w3) \<Rightarrow> purge_cids ops edge keep cids w3)))"

definition cmd_purge ::
  "('w, 'm) cli_ops_scheme \<Rightarrow> string option \<Rightarrow> string option \<Rightarrow> string option \<Rightarrow> bool \<Rightarrow> 'w
     \<Rightarrow> (unit result \<times> 'w) option" where
  "cmd_purge ops cid tag edge keep w =
     (case (cid, tag) of
        (Some c, _) \<Rightarrow> purge_cids ops edge keep [c] w
      | (None, Some t) \<Rightarrow>
          (case mo_load ops w of
             (Inl e, w1) \<Rightarrow> Some (Inl e, w1)
           | (Inr c, w1) \<Rightarrow>
               (let cids = cids_with_tag t c
                in if cids = [] then Some (Inr (), w1) else purge_cids ops edge keep cids w1))
      | (None, None) \<Rightarrow> Some (Inl ''provide a CID or --tag'', w))"

definition cmd_forget :: "('w, 'm) cli_ops_scheme \<Rightarrow> string \<Rightarrow> 'w \<Rightarrow> unit result \<times> 'w" where
  "cmd_forget ops cid w = mo_update ops (\<lambda>c. snd (cat_remove cid c)) w"

section \<open>Status and presign\<close>

fun probe_edges :: "('w, 'm) cli_ops_scheme \<Rightarrow> string \<Rightarrow> string list \<Rightarrow> 'w \<Rightarrow> (nat \<times> 'w) option" where
  "probe_edges ops cid [] w = Some (0, w)"
| "probe_edges ops cid (e # es) w =
     (if short_id e = None then None
      else (let (r, w1) = mo_probe ops e cid w;
                live = (case r of Inl x \<Rightarrow> False | Inr s \<Rightarrow> sr_held s)
            in map_option (\<lambda>(n, w2). (if live then n + 1 else n, w2)) (probe_edges ops cid es w1)))"

definition set_health :: "string list \<Rightarrow> catalog_entry \<Rightarrow> catalog_entry" where
  "set_health advertised e =
     e\<lparr>ce_edges := map (\<lambda>r. r\<lparr>er_healthy := er_edge r \<in> set advertised\<rparr>) (ce_edges e)\<rparr>"

text \<open>The number of live edges is what the command reports, \<open>None\<close> where it reports no edges.\<close>

definition cmd_status ::
  "('w, 'm) cli_ops_scheme \<Rightarrow> string \<Rightarrow> 'w \<Rightarrow> (nat option \<times> 'w) option" where
  "cmd_status ops cid w =
     (let (f, w1) = co_find ops (service_for cid) w;
          advertised = unwrap_or [] f;
          (l, w2) = mo_load ops w1;
          known = (case l of
                     Inl e \<Rightarrow> advertised
                   | Inr c \<Rightarrow> (case cat_get cid c of
                                  None \<Rightarrow> advertised
                                | Some entry \<Rightarrow> union_ids advertised (edge_ids entry)))
      in if known = [] then Some (None, w2)
         else (case probe_edges ops cid known w2 of
                 None \<Rightarrow> None
               | Some (live, w3) \<Rightarrow>
                   (let (_, w4) = mo_update ops (cat_modify cid (set_health advertised)) w3
                    in Some (Some live, w4))))"

definition cmd_presign ::
  "(bytes \<Rightarrow> string) \<Rightarrow> (bytes \<Rightarrow> bytes) result \<Rightarrow> string \<Rightarrow> u64 \<Rightarrow> string option \<Rightarrow> u64 \<Rightarrow> string result" where
  "cmd_presign enc identity cid ttl base now =
     (if \<not> is_valid_cid cid
      then Inl ([CHR 0x27] @ cid @ [CHR 0x27] @ '' is not a valid 64-hex content id'')
      else (case identity of
              Inl e \<Rightarrow> Inl ''loading the local CE identity for presigning''
            | Inr sign \<Rightarrow>
                (let expires = sat_add now ttl;
                     url_path = presign_url enc sign cid expires
                 in Inr (case base of
                           Some b \<Rightarrow> trim_end_matches (CHR ''/'') b @ url_path
                         | None \<Rightarrow> url_path))))"

text \<open>\<open>--max-mb\<close> in bytes.\<close>

definition serve_max_bytes :: "u64 \<Rightarrow> u64" where
  "serve_max_bytes max_mb = sat_mul max_mb (1024 * 1024)"

section \<open>Listing\<close>

text \<open>Rust pads to a number of characters, which are the bytes that do not continue a UTF-8 sequence.\<close>

definition char_count :: "string \<Rightarrow> nat" where
  "char_count s = length (filter (\<lambda>c. (of_char c :: nat) div 64 \<noteq> 2) s)"

definition pad_right :: "nat \<Rightarrow> string \<Rightarrow> string" where
  "pad_right n s = s @ replicate (n - char_count s) (CHR '' '')"

definition pad_left :: "nat \<Rightarrow> string \<Rightarrow> string" where
  "pad_left n s = replicate (n - char_count s) (CHR '' '') @ s"

definition ls_header :: string where
  "ls_header = pad_right 66 ''CID'' @ ''  '' @ pad_left 10 ''BYTES'' @ ''  '' @ pad_left 7 ''ACCESS'' @ ''  ''
     @ pad_left 5 ''REPL'' @ ''  '' @ pad_left 8 ''HEALTHY'' @ ''  '' @ pad_right 16 ''LABEL'' @ ''  TAGS''"

definition ls_row :: "string \<times> catalog_entry \<Rightarrow> string" where
  "ls_row x =
     (let (cid, e) = x; con = ce_content e;
          access = (if is_public_access (ct_access con) then ''public'' else ''private'');
          tags = (if ct_tags con = [] then ''-'' else join '','' (ct_tags con))
      in pad_right 66 cid @ ''  '' @ pad_left 10 (show_u64 (ct_bytes_len con)) @ ''  '' @ pad_left 7 access @ ''  ''
         @ pad_left 5 (show_nat (unat (ct_replication con))) @ ''  '' @ pad_left 4 (show_nat (healthy_edges e))
         @ ''/'' @ pad_right 3 (show_nat (length (ce_edges e))) @ ''  ''
         @ pad_right 16 (case ct_label con of Some l \<Rightarrow> l | None \<Rightarrow> ''-'') @ ''  '' @ tags)"

definition cmd_ls :: "('w, 'm) cli_ops_scheme \<Rightarrow> string \<Rightarrow> 'w \<Rightarrow> string list result \<times> 'w" where
  "cmd_ls ops path w =
     (case mo_load ops w of
        (Inl e, w1) \<Rightarrow> (Inl e, w1)
      | (Inr c, w1) \<Rightarrow>
          (Inr (if cat_items c = [] then [''no content recorded ('' @ path @ '')'']
                else ls_header # map ls_row (cat_items c)), w1))"

section \<open>The operations of the client model\<close>

definition client_cli_ops ::
  "'w maintain_ops \<Rightarrow> 'w sdk \<Rightarrow> (string option \<Rightarrow> string) \<Rightarrow> (purge_req \<Rightarrow> bytes result)
     \<Rightarrow> (bytes \<Rightarrow> purge_resp result) \<Rightarrow> (string \<Rightarrow> bytes \<Rightarrow> 'w \<Rightarrow> unit result \<times> 'w) \<Rightarrow> string \<Rightarrow> 'w cli_ops" where
  "client_cli_ops mo ce dbg pq pr write caps =
     \<lparr>mo_load = mo_load mo, mo_probe = mo_probe mo, mo_pick = mo_pick mo,
      mo_replicate = mo_replicate mo, mo_update = mo_update mo,
      co_put = put ce, co_get = client_get ce, co_get_range = get_range ce dbg,
      co_find = find_service ce, co_purge = (\<lambda>edge cid. purge_at ce pq pr edge cid caps),
      co_write = write\<rparr>"

section \<open>What the commands rely on\<close>

definition stamped :: "catalog \<Rightarrow> catalog" where
  "stamped c = c\<lparr>cat_version := CATALOG_SCHEMA_VERSION\<rparr>"

lemma cat_get_stamped [simp]: "cat_get k (stamped c) = cat_get k c"
  by (simp add: stamped_def cat_get_def)

lemma cat_ok_stamped [simp]: "cat_ok (stamped c) = cat_ok c"
  by (simp add: cat_ok_def) (simp add: stamped_def)

text \<open>The edges a purge of a content id has to reach: those recorded and those advertised.\<close>

definition holders :: "(string \<Rightarrow> string list) \<Rightarrow> catalog \<Rightarrow> string \<Rightarrow> string list" where
  "holders adv c cid = union_ids (case cat_get cid c of None \<Rightarrow> [] | Some e \<Rightarrow> edge_ids e) (adv cid)"

lemma set_union_ids: "set (union_ids ids as) = set ids \<union> set as"
  unfolding union_ids_def by (induction as arbitrary: ids) auto

text \<open>
  The catalog file can be read and updated, discovery and purge requests leave it alone, and the
  world remembers the purge requests sent.
\<close>

locale cli_world =
  fixes ops :: "('w, 'm) cli_ops_scheme" and rep :: "'w \<Rightarrow> bool" and cat :: "'w \<Rightarrow> catalog"
    and sent :: "'w \<Rightarrow> (string \<times> string) list" and adv :: "string \<Rightarrow> string list"
  assumes load: "rep w \<Longrightarrow> mo_load ops w = (Inr (cat w), w)"
    and update: "rep w \<Longrightarrow> mo_update ops f w = (r, w') \<Longrightarrow>
      r = Inr () \<and> rep w' \<and> cat w' = stamped (f (cat w)) \<and> sent w' = sent w"
    and find_frame: "rep w \<Longrightarrow> co_find ops (service_for cid) w = (a, w') \<Longrightarrow>
      unwrap_or [] a = adv cid \<and> rep w' \<and> cat w' = cat w \<and> sent w' = sent w"
    and purge_frame: "rep w \<Longrightarrow> co_purge ops e cid w = (p, w') \<Longrightarrow>
      rep w' \<and> cat w' = cat w \<and> sent w' = sent w @ [(e, cid)]"
begin

lemma targets:
  assumes "rep w"
  shows "\<exists>w'. purge_targets ops None cid w = (Inr (holders adv (cat w) cid), w') \<and>
    rep w' \<and> cat w' = cat w \<and> sent w' = sent w"
proof -
  obtain a w' where a: "co_find ops (service_for cid) w = (a, w')" by fastforce
  with find_frame [OF assms a] load [OF assms] show ?thesis
    by (cases a) (auto simp: purge_targets_def holders_def unwrap_or_def union_ids_def)
qed

lemma edges:
  "rep w \<Longrightarrow> list_all (\<lambda>e. short_id e \<noteq> None) es \<Longrightarrow>
     \<exists>w'. purge_edges ops cid es w = Some w' \<and> rep w' \<and> cat w' = cat w \<and>
       sent w' = sent w @ map (\<lambda>e. (e, cid)) es"
proof (induction es arbitrary: w)
  case (Cons e es)
  obtain p w1 where p: "co_purge ops e cid w = (p, w1)" by fastforce
  from purge_frame [OF Cons.prems(1) p] Cons.IH [of w1] Cons.prems(2) p show ?case by auto
qed simp

lemma purge_all:
  "rep w \<Longrightarrow> cat_ok (cat w) \<Longrightarrow> distinct cids \<Longrightarrow>
     \<forall>cid \<in> set cids. list_all (\<lambda>e. short_id e \<noteq> None) (holders adv (cat w) cid) \<Longrightarrow>
   \<exists>w'. purge_cids ops None False cids w = Some (Inr (), w') \<and> rep w' \<and> cat_ok (cat w') \<and>
     (\<forall>k. cat_get k (cat w') = (if k \<in> set cids then None else cat_get k (cat w))) \<and>
     sent w' = sent w @ concat (map (\<lambda>cid. map (\<lambda>e. (e, cid)) (holders adv (cat w) cid)) cids)"
proof (induction cids arbitrary: w)
  case (Cons cid cids)
  obtain w1 where w1: "purge_targets ops None cid w = (Inr (holders adv (cat w) cid), w1)" "rep w1"
      "cat w1 = cat w" "sent w1 = sent w"
    using targets [OF Cons.prems(1)] by blast
  obtain w2 where w2: "purge_edges ops cid (holders adv (cat w) cid) w1 = Some w2" "rep w2"
      "cat w2 = cat w" "sent w2 = sent w @ map (\<lambda>e. (e, cid)) (holders adv (cat w) cid)"
    using edges [OF w1(2), of "holders adv (cat w) cid" cid] Cons.prems(4) w1 by auto
  obtain r w3 where w3: "mo_update ops (\<lambda>c. snd (cat_remove cid c)) w2 = (r, w3)" by fastforce
  from update [OF w2(2) w3] w2 have upd: "r = Inr ()" "rep w3" "sent w3 = sent w2"
      "cat w3 = stamped (snd (cat_remove cid (cat w)))" by auto
  have get3: "cat_get k (cat w3) = (if k = cid then None else cat_get k (cat w))" for k
    using Cons.prems(2) by (simp add: upd cat_get_remove)
  have hold3: "holders adv (cat w3) k = holders adv (cat w) k" if "k \<in> set cids" for k
    using that Cons.prems(3) by (auto simp: holders_def get3)
  have "cat_ok (cat w3)" using Cons.prems(2) by (simp add: upd cat_ok_remove)
  then obtain w' where w': "purge_cids ops None False cids w3 = Some (Inr (), w')" "rep w'" "cat_ok (cat w')"
      "\<forall>k. cat_get k (cat w') = (if k \<in> set cids then None else cat_get k (cat w3))"
      "sent w' = sent w3 @ concat (map (\<lambda>cid. map (\<lambda>e. (e, cid)) (holders adv (cat w3) cid)) cids)"
    using Cons.IH [of w3] Cons.prems(3,4) upd(2) hold3 by (auto simp: list_all_iff)
  have same: "map (\<lambda>cid. map (\<lambda>e. (e, cid)) (holders adv (cat w3) cid)) cids
      = map (\<lambda>cid. map (\<lambda>e. (e, cid)) (holders adv (cat w) cid)) cids"
    using hold3 by simp
  have "sent w' = sent w3 @ concat (map (\<lambda>cid. map (\<lambda>e. (e, cid)) (holders adv (cat w) cid)) cids)"
    using w'(5) unfolding same .
  with w'(1-4) w1 w2 w3 upd get3 show ?case by auto
qed simp

lemma purge_tag:
  assumes "rep w" "cat_ok (cat w)"
    and "\<forall>cid \<in> set (cids_with_tag t (cat w)). list_all (\<lambda>e. short_id e \<noteq> None) (holders adv (cat w) cid)"
    and "distinct (cids_with_tag t (cat w))"
  shows "\<exists>w'. cmd_purge ops None (Some t) None False w = Some (Inr (), w') \<and> rep w' \<and>
    (\<forall>k. cat_get k (cat w') = (if k \<in> set (cids_with_tag t (cat w)) then None else cat_get k (cat w))) \<and>
    sent w' = sent w @ concat (map (\<lambda>cid. map (\<lambda>e. (e, cid)) (holders adv (cat w) cid)) (cids_with_tag t (cat w)))"
  using purge_all [OF assms(1,2,4,3)] load [OF assms(1)] assms(1)
  by (auto simp: cmd_purge_def Let_def)

end

section \<open>The commands on a catalog file\<close>

text \<open>\<open>Catalog::update\<close>: load, change, save; the lock around it is modelled in \<open>Catalog_Lock\<close>.\<close>

definition update_file ::
  "(bytes \<Rightarrow> catalog result) \<Rightarrow> (catalog \<Rightarrow> bytes) \<Rightarrow> string \<Rightarrow> nat \<Rightarrow> (catalog \<Rightarrow> catalog) \<Rightarrow> dir
     \<Rightarrow> unit result \<times> dir" where
  "update_file from_json to_json path pid f d =
     (case load_catalog from_json path (read_file d path) of
        Inl e \<Rightarrow> (Inl e, d)
      | Inr c \<Rightarrow> (Inr (), fs_run d (save_ops to_json path pid (f c))))"

record cli_disk =
  cd_dir :: dir
  cd_sent :: "(string \<times> string) list"

definition json_codec :: "(bytes \<Rightarrow> catalog result) \<Rightarrow> (catalog \<Rightarrow> bytes) \<Rightarrow> bool" where
  "json_codec from_json to_json \<longleftrightarrow> (\<forall>c. from_json (to_json (stamped c)) = Inr (stamped c))"

text \<open>
  The file, and a network in which an edge may answer a purge in any way and discovery finds the
  edges \<open>adv\<close>; the other operations are those of \<open>net\<close>.
\<close>

definition disk_ops ::
  "(bytes \<Rightarrow> catalog result) \<Rightarrow> (catalog \<Rightarrow> bytes) \<Rightarrow> string \<Rightarrow> nat \<Rightarrow> (string \<Rightarrow> string list)
     \<Rightarrow> (string \<Rightarrow> string \<Rightarrow> purge_resp result) \<Rightarrow> cli_disk cli_ops \<Rightarrow> cli_disk cli_ops" where
  "disk_ops from_json to_json path pid adv answer net =
     net\<lparr>mo_load := (\<lambda>w. (load_catalog from_json path (read_file (cd_dir w) path), w)),
         mo_update := (\<lambda>f w. let (r, d) = update_file from_json to_json path pid f (cd_dir w)
                              in (r, w\<lparr>cd_dir := d\<rparr>)),
         co_find := (\<lambda>s w. (Inr (case strip_prefix ''cdn:'' s of None \<Rightarrow> [] | Some cid \<Rightarrow> adv cid), w)),
         co_purge := (\<lambda>e cid w. (answer e cid, w\<lparr>cd_sent := cd_sent w @ [(e, cid)]\<rparr>))\<rparr>"

definition disk_catalog :: "(bytes \<Rightarrow> catalog result) \<Rightarrow> string \<Rightarrow> cli_disk \<Rightarrow> catalog" where
  "disk_catalog from_json path w =
     unwrap_or default_catalog (load_catalog from_json path (read_file (cd_dir w) path))"

definition disk_ok :: "(bytes \<Rightarrow> catalog result) \<Rightarrow> (catalog \<Rightarrow> bytes) \<Rightarrow> string \<Rightarrow> cli_disk \<Rightarrow> bool" where
  "disk_ok from_json to_json path w \<longleftrightarrow> json_codec from_json to_json \<and>
     load_catalog from_json path (read_file (cd_dir w) path) = Inr (disk_catalog from_json path w)"

lemma update_file_ok:
  assumes "disk_ok from_json to_json path w" "update_file from_json to_json path pid f (cd_dir w) = (r, d)"
  shows "r = Inr () \<and> load_catalog from_json path (read_file d path)
    = Inr (stamped (f (disk_catalog from_json path w)))"
proof -
  let ?c = "f (disk_catalog from_json path w)"
  have "d = fs_run (cd_dir w) (save_ops to_json path pid ?c)" "r = Inr ()"
    using assms by (auto simp: update_file_def disk_ok_def)
  moreover have "from_json (to_json (stamped ?c)) = Inr (stamped ?c)"
    using assms(1) by (simp add: disk_ok_def json_codec_def)
  ultimately show ?thesis
    using save_prefix [of "cd_dir w" "length (save_ops to_json path pid ?c)" to_json path pid ?c]
    by (simp add: read_file_def load_catalog_def stamped_def)
qed

lemma disk_world:
  "cli_world (disk_ops from_json to_json path pid adv answer net) (disk_ok from_json to_json path)
     (disk_catalog from_json path) cd_sent adv"
proof
  fix w w' :: cli_disk and f :: "catalog \<Rightarrow> catalog" and r :: "unit result" and cid e :: string
    and a :: "string list result" and p :: "purge_resp result"
  let ?ops = "disk_ops from_json to_json path pid adv answer net"
  assume ok: "disk_ok from_json to_json path w"
  show "mo_load ?ops w = (Inr (disk_catalog from_json path w), w)"
    using ok by (simp add: disk_ops_def disk_ok_def)
  show "r = Inr () \<and> disk_ok from_json to_json path w' \<and>
      disk_catalog from_json path w' = stamped (f (disk_catalog from_json path w)) \<and> cd_sent w' = cd_sent w"
    if "mo_update ?ops f w = (r, w')"
  proof -
    obtain r' d where u: "update_file from_json to_json path pid f (cd_dir w) = (r', d)" by fastforce
    with that have d: "update_file from_json to_json path pid f (cd_dir w) = (r, d)" "w' = w\<lparr>cd_dir := d\<rparr>"
      by (auto simp: disk_ops_def)
    from update_file_ok [OF ok d(1)] d(2) ok show ?thesis
      by (simp add: disk_ok_def disk_catalog_def unwrap_or_def)
  qed
  show "unwrap_or [] a = adv cid \<and> disk_ok from_json to_json path w' \<and>
      disk_catalog from_json path w' = disk_catalog from_json path w \<and> cd_sent w' = cd_sent w"
    if "co_find ?ops (service_for cid) w = (a, w')"
    using that ok by (auto simp: disk_ops_def unwrap_or_def service_for_def strip_prefix_def)
  show "disk_ok from_json to_json path w' \<and>
      disk_catalog from_json path w' = disk_catalog from_json path w \<and> cd_sent w' = cd_sent w @ [(e, cid)]"
    if "co_purge ?ops e cid w = (p, w')"
    using that ok by (auto simp: disk_ops_def disk_ok_def disk_catalog_def)
qed

interpretation disk: cli_world "disk_ops from_json to_json path pid adv answer net"
  "disk_ok from_json to_json path" "disk_catalog from_json path" cd_sent adv
  for from_json to_json path pid adv answer net
  by (rule disk_world)

text \<open>
  C34: purging a tag reaches every copy and forgets the objects. On a readable, well-formed catalog
  \<open>purge --tag t\<close> returns without an error; afterwards the catalog file has no entry with the tag and
  every other entry is as it was, and a purge request was sent to exactly the edges that the catalog
  recorded or discovery advertised for the tagged objects, whatever the edges answered. The hypothesis
  on \<open>short_id\<close> excludes edge names that make the report panic.
\<close>
theorem purge_tag_evicts:
  assumes "disk_ok from_json to_json path w" "cat_ok (disk_catalog from_json path w)"
    and "\<forall>cid \<in> set (cids_with_tag t (disk_catalog from_json path w)).
      list_all (\<lambda>e. short_id e \<noteq> None) (holders adv (disk_catalog from_json path w) cid)"
  shows "\<exists>w'. cmd_purge (disk_ops from_json to_json path pid adv answer net) None (Some t) None False w
      = Some (Inr (), w') \<and> disk_ok from_json to_json path w' \<and>
    (\<forall>k. cat_get k (disk_catalog from_json path w') =
      (case cat_get k (disk_catalog from_json path w) of
         None \<Rightarrow> None
       | Some e \<Rightarrow> if t \<in> set (ct_tags (ce_content e)) then None else Some e)) \<and>
    set (cd_sent w') = set (cd_sent w) \<union>
      {(edge, k). \<exists>e. cat_get k (disk_catalog from_json path w) = Some e \<and> t \<in> set (ct_tags (ce_content e)) \<and>
         (edge \<in> set (edge_ids e) \<or> edge \<in> set (adv k))}"
proof -
  let ?c = "disk_catalog from_json path w"
  have ids: "set (cids_with_tag t ?c) = {cid. \<exists>e. cat_get cid ?c = Some e \<and> t \<in> set (ct_tags (ce_content e))}"
    and dis: "distinct (cids_with_tag t ?c)"
    using cids_with_tag_core [OF assms(2), of t] by (auto dest: strict_sorted_imp_sorted simp: strict_sorted_iff)
  from disk.purge_tag [OF assms(1,2,3) dis, where pid = pid and answer = answer and net = net]
  obtain w' where w': "cmd_purge (disk_ops from_json to_json path pid adv answer net) None (Some t) None False w
        = Some (Inr (), w')" "disk_ok from_json to_json path w'"
      "\<forall>k. cat_get k (disk_catalog from_json path w') = (if k \<in> set (cids_with_tag t ?c) then None else cat_get k ?c)"
      "cd_sent w' = cd_sent w @ concat (map (\<lambda>cid. map (\<lambda>e. (e, cid)) (holders adv ?c cid)) (cids_with_tag t ?c))"
    by blast
  have "set (cd_sent w') = set (cd_sent w) \<union> {(e, k). k \<in> set (cids_with_tag t ?c) \<and> e \<in> set (holders adv ?c k)}"
    unfolding w'(4) by auto
  also have "{(e, k). k \<in> set (cids_with_tag t ?c) \<and> e \<in> set (holders adv ?c k)} =
      {(edge, k). \<exists>e. cat_get k ?c = Some e \<and> t \<in> set (ct_tags (ce_content e)) \<and>
         (edge \<in> set (edge_ids e) \<or> edge \<in> set (adv k))}"
    unfolding ids by (auto simp: holders_def set_union_ids)
  finally show ?thesis
    using w'(1-3) unfolding ids by (intro exI [of _ w']) (auto split: option.split)
qed

text \<open>A catalog file with two objects tagged \<open>rel\<close>, one of them also advertised by \<open>edge2\<close>.\<close>

definition demo_net :: "cli_disk cli_ops" where
  "demo_net = \<lparr>mo_load = (\<lambda>w. (Inl ''unused'', w)), mo_probe = (\<lambda>e c w. (Inl ''unused'', w)),
     mo_pick = (\<lambda>n x w. (Inl ''unused'', w)), mo_replicate = (\<lambda>e c l t w. (Inl ''unused'', w)),
     mo_update = (\<lambda>f w. (Inl ''unused'', w)), co_put = (\<lambda>b w. (Inl ''unused'', w)),
     co_get = (\<lambda>c w. (Inl ''unused'', w)), co_get_range = (\<lambda>c r w. None),
     co_find = (\<lambda>s w. (Inl ''unused'', w)), co_purge = (\<lambda>e c w. (Inl ''unused'', w)),
     co_write = (\<lambda>p b w. (Inl ''unused'', w))\<rparr>"

definition demo_adv :: "string \<Rightarrow> string list" where
  "demo_adv cid = (if cid = ''b'' then [''edge2''] else [])"

definition purge_answer :: "string \<Rightarrow> string \<Rightarrow> purge_resp result" where
  "purge_answer edge cid = Inr \<lparr>pr_purged = True, pr_reason = None\<rparr>"

definition demo_disk :: cli_disk where
  "demo_disk = \<lparr>cd_dir = Map.empty(''catalog.json'' \<mapsto> enc_catalog sample_catalog), cd_sent = []\<rparr>"

lemma demo_disk_catalog: "disk_catalog dec_catalog ''catalog.json'' demo_disk = sample_catalog"
  by (simp add: disk_catalog_def demo_disk_def read_file_def load_catalog_def dec_enc_catalog unwrap_or_def)

lemma demo_disk_ok: "disk_ok dec_catalog enc_catalog ''catalog.json'' demo_disk"
  by (simp add: disk_ok_def json_codec_def dec_enc_catalog demo_disk_catalog)
     (simp add: demo_disk_def read_file_def load_catalog_def dec_enc_catalog)

lemma purge_tag_evicts_witness:
  "\<exists>w'. cmd_purge (disk_ops dec_catalog enc_catalog ''catalog.json'' 7 demo_adv purge_answer demo_net)
      None (Some ''rel'') None False demo_disk = Some (Inr (), w') \<and>
    disk_ok dec_catalog enc_catalog ''catalog.json'' w' \<and>
    (\<forall>k. cat_get k (disk_catalog dec_catalog ''catalog.json'' w') =
      (case cat_get k (disk_catalog dec_catalog ''catalog.json'' demo_disk) of
         None \<Rightarrow> None
       | Some e \<Rightarrow> if ''rel'' \<in> set (ct_tags (ce_content e)) then None else Some e)) \<and>
    set (cd_sent w') = set (cd_sent demo_disk) \<union>
      {(edge, k). \<exists>e. cat_get k (disk_catalog dec_catalog ''catalog.json'' demo_disk) = Some e \<and>
         ''rel'' \<in> set (ct_tags (ce_content e)) \<and> (edge \<in> set (edge_ids e) \<or> edge \<in> set (demo_adv k))}"
proof (rule purge_tag_evicts [OF demo_disk_ok])
  show "cat_ok (disk_catalog dec_catalog ''catalog.json'' demo_disk)"
    by (simp add: demo_disk_catalog sample_catalog_ok)
  have "short_id ''edge2'' \<noteq> None" by (simp add: short_id_def is_char_boundary_def)
  moreover have none: "cat_get k default_catalog = None" for k
    by (simp add: cat_get_def default_catalog_def bt_get_def)
  have "edge_ids e = []" if "cat_get k sample_catalog = Some e" for k e
    using that by (auto simp: sample_catalog_def cat_get_upsert cat_ok_upsert cat_ok_default edge_ids_def
        none split: if_splits)
  then have "set (holders demo_adv sample_catalog cid) \<subseteq> {''edge2''}" for cid
    by (auto simp: holders_def set_union_ids demo_adv_def split: option.split)
  ultimately show "\<forall>cid \<in> set (cids_with_tag ''rel'' (disk_catalog dec_catalog ''catalog.json'' demo_disk)).
      list_all (\<lambda>e. short_id e \<noteq> None) (holders demo_adv (disk_catalog dec_catalog ''catalog.json'' demo_disk) cid)"
    unfolding demo_disk_catalog list_all_iff by blast
qed

text \<open>
  \<open>status\<close> measures every edge and then records something else: the health written to the catalog is
  whether the edge was advertised, whatever the probes said.
\<close>

lemma cmd_status_found:
  assumes "co_find ops (service_for cid) w = (Inr a, w)" "mo_load ops w = (Inr c, w)"
    and "known = (case cat_get cid c of None \<Rightarrow> a | Some entry \<Rightarrow> union_ids a (edge_ids entry))"
  shows "cmd_status ops cid w =
    (if known = [] then Some (None, w)
     else map_option (\<lambda>(n, v). (Some n, snd (mo_update ops (cat_modify cid (set_health a)) v)))
            (probe_edges ops cid known w))"
  unfolding cmd_status_def assms prod.case Let_def unwrap_or_def fst_conv sum.case
  by (simp add: case_prod_beta split: option.split)

lemma status_ignores_probes:
  assumes "disk_ok from_json to_json path w" "\<And>e c v. snd (mo_probe net e c v) = v"
    and "cmd_status (disk_ops from_json to_json path pid adv answer net) cid w = Some (Some live, w')"
  shows "cat_get cid (disk_catalog from_json path w')
    = map_option (set_health (adv cid)) (cat_get cid (disk_catalog from_json path w))"
proof -
  let ?ops = "disk_ops from_json to_json path pid adv answer net"
  have probes: "probe_edges ?ops cid es w = Some (n, v) \<Longrightarrow> v = w" for es n v
  proof (induction es arbitrary: n)
    case (Cons e es)
    have "snd (mo_probe ?ops e cid w) = w" using assms(2) [of e cid w] by (simp add: disk_ops_def)
    with Cons show ?case by (auto simp: Let_def split: if_splits prod.splits)
  qed simp
  have find: "co_find ?ops (service_for cid) w = (Inr (adv cid), w)"
    and load: "mo_load ?ops w = (Inr (disk_catalog from_json path w), w)"
    using assms(1) by (simp_all add: disk_ops_def disk_ok_def service_for_def strip_prefix_def)
  obtain known where known: "map_option (\<lambda>(n, v). (Some n, snd (mo_update ?ops (cat_modify cid (set_health (adv cid))) v)))
      (probe_edges ?ops cid known w) = Some (Some live, w')"
    using assms(3) unfolding cmd_status_found [OF find load refl] by (auto split: if_splits)
  then have "w' = snd (mo_update ?ops (cat_modify cid (set_health (adv cid))) w)"
    by (auto dest: probes)
  then obtain r where "mo_update ?ops (cat_modify cid (set_health (adv cid))) w = (r, w')"
    by (cases "mo_update ?ops (cat_modify cid (set_health (adv cid))) w") simp
  from disk.update [OF assms(1) this] show ?thesis by (simp add: cat_get_modify)
qed

end
