(* ===== verification/Link_Delivery.thy ===== *)
theory Link_Delivery
  imports Server Cli
begin

text \<open>
  From the publisher's command line to the reader: the link that \<open>ce-cdn presign\<close> prints
  (\<open>src/main.rs\<close>, \<open>src/presign.rs\<close>), requested over HTTP from an edge that trusts its signer
  (\<open>src/server.rs\<close>), delivers the object until the link expires and is refused afterwards.
\<close>

lemma valid_cid_chars:
  assumes "is_valid_cid cid"
  shows "CHR ''?'' \<notin> set cid" "trim_end_matches (CHR ''/'') cid = cid"
proof -
  show "CHR ''?'' \<notin> set cid"
    using assms by (auto simp: is_valid_cid_def list_all_iff is_ascii_digit_def less_eq_char_def)
  have "CHR ''/'' \<notin> set (rev cid)"
    using acceptable_no_special(1) [OF valid_imp_acceptable [OF assms]] by simp
  then have "dropWhile (\<lambda>x. x = CHR ''/'') (rev cid) = rev cid" by (cases "rev cid") auto
  then show "trim_end_matches (CHR ''/'') cid = cid" by (simp add: trim_end_matches_def)
qed

text \<open>The link splits at its first question mark into the path and the query.\<close>

lemma link_parts:
  assumes "cmd_presign enc (Inr sign) cid ttl None t0 = Inr link"
    and "link = path @ CHR ''?'' # q" "CHR ''?'' \<notin> set path"
  shows "is_valid_cid cid \<and> path = ''/cdn/'' @ cid \<and> q = presign_query enc sign cid (sat_add t0 ttl)"
proof -
  have valid: "is_valid_cid cid" using assms(1) by (simp add: cmd_presign_def split: if_splits)
  then have link: "link = (''/cdn/'' @ cid) @ CHR ''?'' # presign_query enc sign cid (sat_add t0 ttl)"
    using assms(1) by (simp add: cmd_presign_def presign_url_def Let_def)
  have "CHR ''?'' \<notin> set (''/cdn/'' @ cid)" using valid_cid_chars(1) [OF valid] by simp
  then have "split_once (CHR ''?'') link = Some (''/cdn/'' @ cid, presign_query enc sign cid (sat_add t0 ttl))"
    unfolding link by (rule split_once_append)
  moreover have "split_once (CHR ''?'') link = Some (path, q)"
    unfolding assms(2) by (rule split_once_append [OF assms(3)])
  ultimately show ?thesis using valid by simp
qed

lemma http_handle_cid:
  assumes "is_valid_cid cid" "hq_method req = GET" "hq_path req = ''/cdn/'' @ cid"
  shows "http_handle vf dec iam origin ratio6 cfg req now sv w
    = serve_cid vf dec iam origin cfg req cid False now sv w"
  using assms valid_imp_acceptable [OF assms(1)] valid_cid_chars(2) [OF assms(1)]
  by (simp add: http_handle_def strip_prefix_def)

lemma get_frame_budget: "cache_get cid now c = (h, c') \<Longrightarrow> max_bytes c' = max_bytes c"
  using config_get [of cid now c] by (simp add: config_def)

text \<open>An origin that has the object, and no tombstone, make the edge obtain it.\<close>

lemma obtain_bytes_found:
  assumes "honest obj (sv_cache sv)" "hm_get (tombstones (sv_cache sv)) cid = None"
    and "\<forall>w. fst (origin cid w) = Inr (obj cid)"
    and "len64 (obj cid) \<le> (if sc_max_object_bytes cfg = 0 then max_bytes (sv_cache sv) else sc_max_object_bytes cfg)"
  shows "\<exists>hit c1 w1. obtain_bytes origin cfg cid now (sv_cache sv) w = (Got (obj cid) hit, c1, w1)"
proof -
  let ?c = "sv_cache sv"
  have neg: "hm_get (tombstones c) cid = None \<Longrightarrow> is_negative cid now c = (False, c)" for c
    by (simp add: is_negative_def)
  obtain h c2 where get: "cache_get cid now ?c = (h, c2)" by fastforce
  obtain h2 c3 where get2: "cache_get cid now c2 = (h2, c3)" by fastforce
  have hon: "honest obj c2" using cache.good_after_lookup [OF assms(1) get] .
  have t: "hm_get (tombstones c2) cid = None" "hm_get (tombstones c3) cid = None"
    using assms(2) tombstones_get [of cid now ?c] tombstones_get [of cid now c2] get get2 by simp_all
  obtain w1 where o: "origin cid w = (Inr (obj cid), w1)" using assms(3) by (cases "origin cid w") (metis fst_conv)
  have start: "(if contains_fresh cid now ?c then (False, ?c) else is_negative cid now ?c) = (False, ?c)"
    using neg [OF assms(2)] by simp
  show ?thesis
  proof (cases h)
    case (Some b)
    with cache.good_lookup [OF assms(1)] get have "b = obj cid" by blast
    with get Some start show ?thesis by (intro exI [of _ True]) (simp add: obtain_bytes_def Let_def)
  next
    case None
    show ?thesis
    proof (cases h2)
      case (Some b)
      with cache.good_lookup [OF hon] get2 have "b = obj cid" by blast
      with get None start get2 Some show ?thesis
        by (intro exI [of _ True]) (simp add: obtain_bytes_def cold_bytes_def Let_def)
    next
      case miss: None
      with get None start get2 neg [OF t(2)] o assms(4) show ?thesis
        by (intro exI [of _ False]) (auto simp: obtain_bytes_def cold_bytes_def fetch_and_store_def Let_def not_less
          get_frame_budget [OF get] get_frame_budget [OF get2])
    qed
  qed
qed

lemma link_access:
  assumes "hex_codec enc dec" "signs vf key sign" "key \<in> set (sc_presign_keys cfg)"
    and "hq_query req = Some (presign_query enc sign cid ex)"
  shows "if now \<le> ex \<and> unat ex \<le> unat now + 7 * 24 * 3600
    then fst (http_access vf dec iam cfg public g req cid now) \<noteq> Denied
    else cid \<in> pub_cids public \<or> proof_header req \<noteq> None \<or>
      http_access vf dec iam cfg public g req cid now = (Denied, g)"
proof -
  have keys: "sc_presign_keys cfg \<noteq> []" using assms(3) by auto
  have small: "unat ex < 2 ^ 64" using unsigned_less [of ex, where ?'a = nat] by simp
  have v: "verify_presign vf dec (presign_query enc sign cid ex) cid (sc_presign_keys cfg) now = Inr () \<longleftrightarrow>
      now \<le> ex \<and> unat ex \<le> unat now + 7 * 24 * 3600"
    using small by (auto simp: verify_minted_link [OF assms(1-3)] not_less)
  let ?gr = "resolve_grant vf dec iam cid public (sc_edge_id cfg) (sc_roots cfg) (sc_presign_keys cfg)
      (requester_id dec req) (proof_header req) (presign_query enc sign cid ex) (capability_hex req) now"
  show ?thesis
  proof (cases "now \<le> ex \<and> unat ex \<le> unat now + 7 * 24 * 3600")
    case True
    then have "?gr = GPublic \<or> ?gr = GPresigned" using keys v by (simp add: resolve_grant_def)
    with assms(4) True show ?thesis by (auto simp: http_access_def Let_def grant_access_def)
  next
    case False
    have "http_access vf dec iam cfg public g req cid now = (Denied, g)"
      if "cid \<notin> pub_cids public" "proof_header req = None"
    proof -
      have "?gr = GDenied" using that False v by (simp add: resolve_grant_def is_public_def verify_pop_def)
      with assms(4) show ?thesis by (simp add: http_access_def Let_def)
    qed
    then show ?thesis unfolding if_not_P [OF False] by blast
  qed
qed


text \<open>A link for one hour, followed half an hour later.\<close>

definition link_query :: string where
  "link_query = presign_query ref_encode (\<lambda>m. toy_sig) demo_cid 4100"

definition link_request :: http_request where
  "link_request = \<lparr>hq_method = GET, hq_path = ''/cdn/'' @ demo_cid, hq_query = Some link_query, hq_headers = []\<rparr>"

definition link_config :: server_config where
  "link_config = demo_server_config\<lparr>sc_presign_keys := [replicate 32 4]\<rparr>"


end
