(* ===== verification/Mesh.thy ===== *)
theory Mesh
  imports Host Ref_Codec
begin

text \<open>
  The client of \<open>src/client.rs\<close> talking to the edge host of \<open>src/host.rs\<close>: the client's SDK is
  instantiated with one whose \<open>send_request\<close> runs the host's \<open>handle\<close> on the state of the edge. The
  wire format is a pair of codecs that agree (\<open>wire_ok\<close>). The theorems follow an object through the
  requests: what the client asked to be cached is found by its probe, and gone after its purge.
\<close>

section \<open>The composed world\<close>

record 'w mesh =
  ms_edge :: edge_state
  ms_node :: 'w

text \<open>The client's half of the JSON codecs.\<close>

record wire =
  wi_cache_req :: "cache_req \<Rightarrow> bytes result"
  wi_cache_resp :: "bytes \<Rightarrow> cache_resp result"
  wi_purge_req :: "purge_req \<Rightarrow> bytes result"
  wi_purge_resp :: "bytes \<Rightarrow> purge_resp result"
  wi_status_req :: "status_req \<Rightarrow> bytes result"
  wi_status_resp :: "bytes \<Rightarrow> status_resp result"

text \<open>
  Each side reads what the other wrote, and the host's generic failure reply is never read as a
  positive answer.
\<close>

definition wire_ok :: "codecs \<Rightarrow> wire \<Rightarrow> bool" where
  "wire_ok cod wi \<longleftrightarrow>
     (\<forall>b. hex_dec cod (hex_enc cod b) = Some b) \<and>
     (\<forall>r p. wi_cache_req wi r = Inr p \<longrightarrow> cache_req_of cod p = Inr r) \<and>
     (\<forall>r p. wi_purge_req wi r = Inr p \<longrightarrow> purge_req_of cod p = Inr r) \<and>
     (\<forall>r p. wi_status_req wi r = Inr p \<longrightarrow> status_req_of cod p = Inr r) \<and>
     (\<forall>x. \<exists>b. cache_resp_json cod x = Inr b \<and> wi_cache_resp wi b = Inr x) \<and>
     (\<forall>x. \<exists>b. purge_resp_json cod x = Inr b \<and> wi_purge_resp wi b = Inr x) \<and>
     (\<forall>x. \<exists>b. status_resp_json cod x = Inr b \<and> wi_status_resp wi b = Inr x) \<and>
     (\<forall>e x. wi_cache_resp wi (failure_json cod e) = Inr x \<longrightarrow> \<not> cr_cached x) \<and>
     (\<forall>e x. wi_purge_resp wi (failure_json cod e) = Inr x \<longrightarrow> \<not> pr_purged x) \<and>
     (\<forall>e x. wi_status_resp wi (failure_json cod e) = Inr x \<longrightarrow> \<not> sr_held x)"

definition on_node :: "('w \<Rightarrow> 'a \<times> 'w) \<Rightarrow> 'w mesh \<Rightarrow> 'a \<times> 'w mesh" where
  "on_node f s = (case f (ms_node s) of (r, w) \<Rightarrow> (r, s\<lparr>ms_node := w\<rparr>))"

text \<open>
  One request over the mesh at time \<open>now\<close>: \<open>me\<close> is the sender's id in hexadecimal, \<open>edge\<close> the name
  under which the edge is reached.
\<close>

definition mesh_send ::
  "'w sdk \<Rightarrow> codecs \<Rightarrow> 'ch iam \<Rightarrow> host_config \<Rightarrow> string \<Rightarrow> string \<Rightarrow> u64
     \<Rightarrow> string \<Rightarrow> string \<Rightarrow> bytes \<Rightarrow> u64 \<Rightarrow> 'w mesh \<Rightarrow> bytes result \<times> 'w mesh" where
  "mesh_send ce cod iam cfg me edge now dest topic payload timeout s =
     (if dest \<noteq> edge then (Inl ''unreachable'', s)
      else (case handle ce cod iam cfg now now (ms_edge s) topic me (hex_enc cod payload) (ms_node s) of
              None \<Rightarrow> (Inl ''timed out'', s)
            | Some (reply, st, w) \<Rightarrow> (Inr reply, \<lparr>ms_edge = st, ms_node = w\<rparr>)))"

definition mesh_sdk ::
  "'w sdk \<Rightarrow> codecs \<Rightarrow> 'ch iam \<Rightarrow> host_config \<Rightarrow> string \<Rightarrow> string \<Rightarrow> u64 \<Rightarrow> 'w mesh sdk" where
  "mesh_sdk ce cod iam cfg me edge now =
     \<lparr>cid_of = cid_of ce, get_blob = (\<lambda>c. on_node (get_blob ce c)),
      get_object = (\<lambda>c. on_node (get_object ce c)), put_object = (\<lambda>b. on_node (put_object ce b)),
      advertise_service = (\<lambda>x. on_node (advertise_service ce x)),
      find_service = (\<lambda>x. on_node (find_service ce x)), atlas = on_node (atlas ce),
      history_work = (\<lambda>x. on_node (history_work ce x)),
      send_request = mesh_send ce cod iam cfg me edge now,
      parse_manifest = parse_manifest ce, is_v1 = is_v1 ce\<rparr>"

section \<open>One request\<close>

lemma mesh_request:
  assumes "edge_request (mesh_sdk ce cod iam cfg me edge now) from_json dest topic (Inr p) timeout s = (Inr x, s')"
  shows "\<exists>r. handle_inner ce cod iam cfg now now (ms_edge s) topic me (hex_enc cod p) (ms_node s)
      = Some (r, ms_edge s', ms_node s') \<and>
    from_json (case r of Inl e \<Rightarrow> failure_json cod e | Inr b \<Rightarrow> b) = Inr x"
proof -
  obtain reply where send: "mesh_send ce cod iam cfg me edge now dest topic p timeout s = (Inr reply, s')"
      "from_json reply = Inr x"
    using assms by (auto simp: edge_request_def mesh_sdk_def split: prod.splits sum.splits)
  obtain st w where h: "handle ce cod iam cfg now now (ms_edge s) topic me (hex_enc cod p) (ms_node s)
      = Some (reply, st, w)" "s' = \<lparr>ms_edge = st, ms_node = w\<rparr>"
    using send(1) by (auto simp: mesh_send_def split: if_splits option.splits)
  then obtain r where "handle_inner ce cod iam cfg now now (ms_edge s) topic me (hex_enc cod p) (ms_node s)
      = Some (r, st, w)" "reply = (case r of Inl e \<Rightarrow> failure_json cod e | Inr b \<Rightarrow> b)"
    by (auto simp: handle_def)
  with h(2) send(2) show ?thesis by auto
qed

text \<open>An admitted request reaches the dispatcher with the payload that was sent.\<close>

lemma handled_Inr:
  assumes "handle_inner ce cod iam cfg t t' st topic me (hex_enc cod p) w = Some (Inr b, st', w')"
    and "wire_ok cod wi"
  shows "\<exists>c1. dispatch ce cod t' topic p (es_cache st) w = Some (Inr b, c1, w') \<and>
    st' = st\<lparr>es_cache := c1\<rparr>"
proof -
  have "admit cod iam cfg (es_public st) t topic me (hex_enc cod p) \<noteq> Inl e" for e
    using assms(1) by (auto simp: handle_inner_def)
  then obtain q where q: "admit cod iam cfg (es_public st) t topic me (hex_enc cod p) = Inr q"
    by (cases "admit cod iam cfg (es_public st) t topic me (hex_enc cod p)") auto
  have "hex_dec cod (hex_enc cod p) = Some p" using assms(2) by (simp add: wire_ok_def)
  with admit_sound [OF q] have "q = p" by simp
  with assms(1) q show ?thesis by (auto simp: handle_inner_def)
qed

section \<open>Caching, probing, purging\<close>

lemma cache_object_stored:
  assumes "cache_ok c" "verifies_objects ce obj" "cache_object ce cid ttl now c w = (Inr len, c1, w1)"
  shows "len = len64 (obj cid) \<and> cache_ok c1 \<and> default_ttl_secs c1 = default_ttl_secs c \<and>
    (\<exists>e. hm_get (entries c1) cid = Some e \<and> e_bytes e = obj cid \<and>
       expires_at e = expiry now (if ttl = 0 then default_ttl_secs c else ttl))"
proof -
  let ?ttl = "if ttl = 0 then default_ttl_secs c else ttl"
  obtain bs w0 where get: "get_object ce cid w0 = (Inr bs, w1)" "len = len64 bs"
      "insert_with_ttl cid bs ?ttl now c = (True, c1)"
    using assms(3) by (auto simp: cache_object_def Let_def split: prod.splits sum.splits if_splits)
  have "bs = obj cid" using fetched_object [OF assms(2) get(1)] .
  moreover have "len64 bs \<le> max_bytes c" using insert_ok_iff [OF get(3)] by simp
  ultimately show ?thesis
    using insert_stored [OF assms(1), of bs cid ?ttl now] cache_ok_insert [OF assms(1), of cid bs ?ttl now]
      config_insert [of cid bs ?ttl now c] get
    by (auto simp: config_def)
qed

text \<open>A request whose reply is positive was admitted, and its effect is that of the operation.\<close>

lemma replicated:
  assumes wire: "wire_ok cod wi" and "cache_ok (es_cache (ms_edge s))" "verifies_objects ce obj"
    and rep: "replicate_to (mesh_sdk ce cod iam cfg me edge now) (wi_cache_req wi) (wi_cache_resp wi)
        dest cid len ttl caps s = (Inr r, s1)" "cr_cached r"
  shows "cr_stored_bytes r = len64 (obj cid) \<and> cache_ok (es_cache (ms_edge s1)) \<and>
    (\<exists>e. hm_get (entries (es_cache (ms_edge s1))) cid = Some e \<and> e_bytes e = obj cid \<and>
       expires_at e = expiry now (if ttl = 0 then default_ttl_secs (es_cache (ms_edge s)) else ttl))"
proof -
  let ?req = "\<lparr>cq_caps = caps, cq_cid = cid, cq_bytes_len = len, cq_ttl_secs = ttl\<rparr>"
  obtain p where p: "wi_cache_req wi ?req = Inr p"
    using rep(1) by (cases "wi_cache_req wi ?req") (auto simp: replicate_to_def edge_request_def)
  obtain res where h: "handle_inner ce cod iam cfg now now (ms_edge s) TOPIC_CACHE me (hex_enc cod p) (ms_node s)
        = Some (res, ms_edge s1, ms_node s1)"
      "wi_cache_resp wi (case res of Inl e \<Rightarrow> failure_json cod e | Inr b \<Rightarrow> b) = Inr r"
    using mesh_request [OF rep(1) [unfolded replicate_to_def Let_def p]] by blast
  with wire rep(2) obtain b where b: "res = Inr b" "wi_cache_resp wi b = Inr r"
    by (cases res) (auto simp: wire_ok_def)
  obtain c1 where d: "dispatch ce cod now TOPIC_CACHE p (es_cache (ms_edge s)) (ms_node s) = Some (Inr b, c1, ms_node s1)"
      "ms_edge s1 = (ms_edge s)\<lparr>es_cache := c1\<rparr>"
    using handled_Inr [OF h(1) [unfolded b(1)] wire] by blast
  have "cache_req_of cod p = Inr ?req" using wire p by (simp add: wire_ok_def)
  with d(1) obtain resp where resp: "act_cache ce ?req now (es_cache (ms_edge s)) (ms_node s) = (resp, c1, ms_node s1)"
      "cache_resp_json cod resp = Inr b"
    by (auto simp: dispatch_def Let_def split: prod.splits)
  have "resp = r" using wire resp(2) b(2) by (auto simp: wire_ok_def) (metis sum.inject(2))
  with resp(1) rep(2) obtain l w1 where "cache_object ce cid ttl now (es_cache (ms_edge s)) (ms_node s) = (Inr l, c1, w1)"
      "cr_stored_bytes r = l"
    by (auto simp: act_cache_def Let_def split: prod.splits sum.splits)
  with cache_object_stored [OF assms(2,3)] d(2) show ?thesis by auto
qed

lemma probed:
  assumes wire: "wire_ok cod wi"
    and pr: "probe (mesh_sdk ce cod iam cfg me edge now) (wi_status_req wi) (wi_status_resp wi) dest cid caps s = (Inr x, s1)"
  shows "es_cache (ms_edge s1) = es_cache (ms_edge s) \<and>
    (x = act_status \<lparr>sq_caps = caps, sq_cid = cid\<rparr> now (es_cache (ms_edge s)) \<or> \<not> sr_held x)"
proof -
  let ?req = "\<lparr>sq_caps = caps, sq_cid = cid\<rparr>"
  obtain p where p: "wi_status_req wi ?req = Inr p"
    using pr by (cases "wi_status_req wi ?req") (auto simp: probe_def edge_request_def)
  have req: "status_req_of cod p = Inr ?req" using wire p by (simp add: wire_ok_def)
  obtain res where h: "handle_inner ce cod iam cfg now now (ms_edge s) TOPIC_STATUS me (hex_enc cod p) (ms_node s)
        = Some (res, ms_edge s1, ms_node s1)"
      "wi_status_resp wi (case res of Inl e \<Rightarrow> failure_json cod e | Inr b \<Rightarrow> b) = Inr x"
    using mesh_request [OF pr [unfolded probe_def Let_def p]] by blast
  show ?thesis
  proof (cases res)
    case (Inr b)
    obtain c1 where d: "dispatch ce cod now TOPIC_STATUS p (es_cache (ms_edge s)) (ms_node s) = Some (Inr b, c1, ms_node s1)"
        "ms_edge s1 = (ms_edge s)\<lparr>es_cache := c1\<rparr>"
      using handled_Inr [OF h(1) [unfolded Inr] wire] by blast
    then have c: "c1 = es_cache (ms_edge s)" "status_resp_json cod (act_status ?req now c1) = Inr b"
      using req by (auto simp: dispatch_def topic_defs)
    have "x = act_status ?req now c1" using wire c(2) h(2) Inr by (auto simp: wire_ok_def) (metis sum.inject(2))
    with c(1) d(2) show ?thesis by simp
  next
    case (Inl e)
    with wire h(2) have "\<not> sr_held x" by (auto simp: wire_ok_def)
    moreover have "es_cache (ms_edge s1) = es_cache (ms_edge s)"
      using h(1) Inl req wire p
      by (auto simp: handle_inner_def dispatch_def topic_defs wire_ok_def split: sum.splits)
    ultimately show ?thesis by simp
  qed
qed

lemma purged:
  assumes wire: "wire_ok cod wi" and ok: "cache_ok (es_cache (ms_edge s))"
    and pu: "purge_at (mesh_sdk ce cod iam cfg me edge now) (wi_purge_req wi) (wi_purge_resp wi) dest cid caps s = (Inr x, s1)"
      "pr_purged x"
  shows "hm_get (entries (es_cache (ms_edge s1))) cid = None"
proof -
  let ?req = "\<lparr>pq_caps = caps, pq_cid = cid\<rparr>"
  obtain p where p: "wi_purge_req wi ?req = Inr p"
    using pu(1) by (cases "wi_purge_req wi ?req") (auto simp: purge_at_def edge_request_def)
  have req: "purge_req_of cod p = Inr ?req" using wire p by (simp add: wire_ok_def)
  obtain res where h: "handle_inner ce cod iam cfg now now (ms_edge s) TOPIC_PURGE me (hex_enc cod p) (ms_node s)
        = Some (res, ms_edge s1, ms_node s1)"
      "wi_purge_resp wi (case res of Inl e \<Rightarrow> failure_json cod e | Inr b \<Rightarrow> b) = Inr x"
    using mesh_request [OF pu(1) [unfolded purge_at_def Let_def p]] by blast
  with wire pu(2) obtain b where b: "res = Inr b" by (cases res) (auto simp: wire_ok_def)
  obtain c1 where d: "dispatch ce cod now TOPIC_PURGE p (es_cache (ms_edge s)) (ms_node s) = Some (Inr b, c1, ms_node s1)"
      "ms_edge s1 = (ms_edge s)\<lparr>es_cache := c1\<rparr>"
    using handled_Inr [OF h(1) [unfolded b] wire] by blast
  then have "c1 = snd (purge cid (es_cache (ms_edge s)))"
    using req by (auto simp: dispatch_def topic_defs Let_def split: prod.splits)
  with ok d(2) show ?thesis by (simp add: purge_def cache_ok_def)
qed


section \<open>A concrete mesh\<close>

definition dec_result :: "(bytes \<Rightarrow> ('a \<times> bytes) option) \<Rightarrow> bytes \<Rightarrow> 'a result" where
  "dec_result d bs = (case d bs of None \<Rightarrow> Inl ''bad message'' | Some (x, rest) \<Rightarrow> Inr x)"

definition dec_reply :: "(bytes \<Rightarrow> ('a \<times> bytes) option) \<Rightarrow> bytes \<Rightarrow> 'a result" where
  "dec_reply d bs = (if bs \<noteq> [] \<and> hd bs = 1 then dec_result d (tl bs) else Inl ''failed'')"

definition enc_cache_req :: "cache_req \<Rightarrow> bytes" where
  "enc_cache_req = enc_via (\<lambda>r. (cq_caps r, cq_cid r, cq_bytes_len r, cq_ttl_secs r))
     (enc_pair enc_string (enc_pair enc_string (enc_pair enc_word enc_word)))"

definition dec_cache_req :: "bytes \<Rightarrow> (cache_req \<times> bytes) option" where
  "dec_cache_req = dec_via (\<lambda>(c, i, l, t). \<lparr>cq_caps = c, cq_cid = i, cq_bytes_len = l, cq_ttl_secs = t\<rparr>)
     (dec_pair dec_string (dec_pair dec_string (dec_pair dec_word dec_word)))"

definition enc_ids :: "string \<times> string \<Rightarrow> bytes" where
  "enc_ids = enc_pair enc_string enc_string"

definition dec_ids :: "bytes \<Rightarrow> ((string \<times> string) \<times> bytes) option" where
  "dec_ids = dec_pair dec_string dec_string"

definition enc_flag_words :: "bool \<times> u64 \<times> u64 \<times> string list \<Rightarrow> bytes" where
  "enc_flag_words = enc_pair (enc_via (\<lambda>b. if b then 1 else 0) enc_nat)
     (enc_pair enc_word (enc_pair enc_word (enc_list enc_string)))"

definition dec_flag_words :: "bytes \<Rightarrow> ((bool \<times> u64 \<times> u64 \<times> string list) \<times> bytes) option" where
  "dec_flag_words = dec_pair (dec_via (\<lambda>n. n = 1) dec_nat)
     (dec_pair dec_word (dec_pair dec_word (dec_list dec_string)))"

definition opt_list :: "'a option \<Rightarrow> 'a list" where
  "opt_list x = (case x of None \<Rightarrow> [] | Some y \<Rightarrow> [y])"

definition list_opt :: "'a list \<Rightarrow> 'a option" where
  "list_opt xs = (case xs of [] \<Rightarrow> None | y # ys \<Rightarrow> Some y)"

definition mesh_codecs :: codecs where
  "mesh_codecs = demo_codecs
     \<lparr>hex_enc := ref_encode, hex_dec := ref_decode, head_of := (\<lambda>p. map_option fst (dec_ids p)),
      cache_req_of := dec_result dec_cache_req,
      purge_req_of := (\<lambda>p. map_sum id (\<lambda>(c, i). \<lparr>pq_caps = c, pq_cid = i\<rparr>) (dec_result dec_ids p)),
      status_req_of := (\<lambda>p. map_sum id (\<lambda>(c, i). \<lparr>sq_caps = c, sq_cid = i\<rparr>) (dec_result dec_ids p)),
      cache_resp_json := (\<lambda>x. Inr (1 # enc_flag_words
        (cr_cached x, cr_stored_bytes x, cr_ttl_secs x, opt_list (cr_reason x)))),
      purge_resp_json := (\<lambda>x. Inr (1 # enc_flag_words (pr_purged x, 0, 0, opt_list (pr_reason x)))),
      status_resp_json := (\<lambda>x. Inr (1 # enc_flag_words (sr_held x, sr_bytes x, sr_ttl_remaining x, []))),
      failure_json := (\<lambda>e. [0])\<rparr>"

definition mesh_wire :: wire where
  "mesh_wire =
     \<lparr>wi_cache_req = (\<lambda>r. Inr (enc_cache_req r)),
      wi_cache_resp = (\<lambda>b. map_sum id (\<lambda>(c, n, t, r). \<lparr>cr_cached = c, cr_stored_bytes = n, cr_ttl_secs = t,
        cr_reason = list_opt r\<rparr>) (dec_reply dec_flag_words b)),
      wi_purge_req = (\<lambda>r. Inr (enc_ids (pq_caps r, pq_cid r))),
      wi_purge_resp = (\<lambda>b. map_sum id (\<lambda>(p, n, t, r). \<lparr>pr_purged = p, pr_reason = list_opt r\<rparr>)
        (dec_reply dec_flag_words b)),
      wi_status_req = (\<lambda>r. Inr (enc_ids (sq_caps r, sq_cid r))),
      wi_status_resp = (\<lambda>b. map_sum id (\<lambda>(h, n, t, r). \<lparr>sr_held = h, sr_bytes = n, sr_ttl_remaining = t\<rparr>)
        (dec_reply dec_flag_words b))\<rparr>"

lemma codec_full: "codec e d \<Longrightarrow> d (e x) = Some (x, [])"
  unfolding codec_def by (metis append_Nil2)

lemma dec_result_enc: "codec e d \<Longrightarrow> dec_result d (e x) = Inr x"
  by (simp add: dec_result_def codec_full)

lemma dec_reply_enc: "codec e d \<Longrightarrow> dec_reply d (1 # e x) = Inr x"
  by (simp add: dec_reply_def dec_result_enc)

lemma codec_cache_req: "codec enc_cache_req dec_cache_req"
  unfolding enc_cache_req_def dec_cache_req_def
  by (intro codec_via codec_pair codec_string codec_word) simp

lemma codec_ids: "codec enc_ids dec_ids"
  unfolding enc_ids_def dec_ids_def by (intro codec_pair codec_string)

lemma codec_flag_words: "codec enc_flag_words dec_flag_words"
  unfolding enc_flag_words_def dec_flag_words_def
  by (intro codec_pair codec_via codec_nat codec_word codec_list codec_string) simp

lemma list_opt_list [simp]: "list_opt (opt_list x) = x"
  by (simp add: list_opt_def opt_list_def split: option.split)

lemma head_of_cache_req: "head_of mesh_codecs (enc_cache_req r) = Some (cq_caps r, cq_cid r)"
proof -
  have "enc_cache_req r = enc_ids (cq_caps r, cq_cid r) @ enc_pair enc_word enc_word (cq_bytes_len r, cq_ttl_secs r)"
    by (simp add: enc_cache_req_def enc_ids_def enc_via_def enc_pair_def)
  then show ?thesis using codec_ids by (simp add: mesh_codecs_def codec_def)
qed

lemma mesh_wire_ok: "wire_ok mesh_codecs mesh_wire"
  using codec_cache_req codec_ids codec_flag_words
  by (simp add: wire_ok_def mesh_codecs_def mesh_wire_def dec_result_enc dec_reply_enc ref_hex_codec
      hex_decode_encode [OF ref_hex_codec])
     (simp add: dec_reply_def)

definition mesh_me :: string where
  "mesh_me = ref_encode (replicate 32 1)"

definition mesh_start :: "nat mesh" where
  "mesh_start = \<lparr>ms_edge = edge_state_new 100 60, ms_node = 0\<rparr>"

lemma ability_for_known: "topic \<in> {TOPIC_CACHE, TOPIC_STATUS, TOPIC_PURGE} \<Longrightarrow> \<exists>a. ability_for topic = Some a"
  by (auto simp: ability_for_def)

lemma mesh_admit:
  assumes "head_of mesh_codecs p = Some ([], demo_cid)" "length p \<le> 262144"
    and "topic \<in> {TOPIC_CACHE, TOPIC_STATUS, TOPIC_PURGE}"
  shows "admit mesh_codecs demo_iam demo_config pub t topic mesh_me (hex_enc mesh_codecs p) = Inr p"
proof -
  obtain a where a: "ability_for topic = Some a" using ability_for_known [OF assms(3)] by blast
  have "hex_enc mesh_codecs p = ref_encode p" by (simp add: mesh_codecs_def)
  moreover have "length (ref_encode p) = 2 * length p" by (rule length_hex_encode [OF ref_hex_codec])
  moreover have "hex_dec mesh_codecs (ref_encode b) = Some b" for b
    using hex_decode_encode [OF ref_hex_codec] by (simp add: mesh_codecs_def)
  ultimately show ?thesis
    using assms(1,2) a demo_cid_valid
    by (simp add: admit_def request_bounds caps_and_cid_def mesh_me_def to_array_def decide_def
        authorize_fn_def demo_iam_def)
qed

lemma length_enc_nat [simp]: "length (enc_nat n) = Suc n"
  by (simp add: enc_nat_def)

lemma length_enc_copies: "length (concat (replicate n bs)) = n * length bs"
  by (induction n) simp_all

lemma length_demo_id: "length (enc_string demo_cid) = 6337"
  by (simp add: enc_string_def enc_list_def enc_via_def demo_cid_def length_enc_copies)

definition mesh_cached :: "cache_resp result \<times> nat mesh" where
  "mesh_cached = replicate_to (mesh_sdk demo_sdk mesh_codecs demo_iam demo_config mesh_me ''edge'' 5)
     (wi_cache_req mesh_wire) (wi_cache_resp mesh_wire) ''edge'' demo_cid 4 0 [] mesh_start"

lemma decode_copies: "ref_value c = Some h \<Longrightarrow> ref_decode (replicate (n + n) c) = Some (replicate n (of_nat (h * 16 + h)))"
  by (induction n) simp_all

lemma demo_cid_decodes: "\<exists>b. ref_decode demo_cid = Some b"
proof -
  have "ref_value CHR ''a'' = Some 10" by (simp add: ref_value_def upt_rec)
  from decode_copies [OF this, of 32] show ?thesis by (simp add: demo_cid_def del: ref_decode.simps)
qed

lemma demo_cache_object:
  "\<exists>c1 w1. cache_object demo_sdk demo_cid 0 5 (cache_new 100 60) 0 = (Inr 3, c1, w1)"
proof -
  have "len64 demo_object \<le> max_bytes (cache_new 100 60)"
    by (simp add: len64_def demo_object_def cache_new_def word_le_nat_alt)
  from insert_with_ttl_accept [OF this refl, of demo_cid 60 5]
  obtain c1 where "insert_with_ttl demo_cid demo_object 60 5 (cache_new 100 60) = (True, c1)" by blast
  moreover have "max_bytes (cache_new 100 60) = 100" "default_ttl_secs (cache_new 100 60) = 60"
    by (simp_all add: cache_new_def)
  ultimately show ?thesis
    using demo_cid_decodes
    by (auto simp: cache_object_def object_total_size_def demo_sdk_def demo_manifest_def len64_def
        word_less_nat_alt demo_object_def)
qed

lemma mesh_cached_eq:
  "\<exists>s1. mesh_cached = (Inr \<lparr>cr_cached = True, cr_stored_bytes = 3, cr_ttl_secs = 60, cr_reason = None\<rparr>, s1)
     \<and> es_public (ms_edge s1) = public_new"
proof -
  let ?req = "\<lparr>cq_caps = [], cq_cid = demo_cid, cq_bytes_len = 4, cq_ttl_secs = 0\<rparr>"
  have len: "length (enc_cache_req ?req) \<le> 262144"
    using length_demo_id
    by (simp add: enc_cache_req_def enc_via_def enc_pair_def enc_word_def enc_string_def enc_list_def)
  have adm: "admit mesh_codecs demo_iam demo_config public_new 5 TOPIC_CACHE mesh_me
      (hex_enc mesh_codecs (enc_cache_req ?req)) = Inr (enc_cache_req ?req)"
    by (rule mesh_admit) (simp_all add: head_of_cache_req len)
  have dec: "cache_req_of mesh_codecs (enc_cache_req ?req) = Inr ?req"
    by (simp add: mesh_codecs_def dec_result_enc [OF codec_cache_req])
  obtain c1 w1 where obj: "cache_object demo_sdk demo_cid 0 5 (cache_new 100 60) 0 = (Inr 3, c1, w1)"
    using demo_cache_object by blast
  then have "cache_object demo_sdk demo_cid 0 5 (cache_new 100 60) 0 = (Inr 3, c1, w1)"
    "default_ttl_secs c1 = 60"
    using cache_object_stored [OF _ demo_verifies obj] by (auto simp: cache_ok_def cache_new_def)
  then have act: "act_cache demo_sdk ?req 5 (cache_new 100 60) 0
      = (\<lparr>cr_cached = True, cr_stored_bytes = 3, cr_ttl_secs = 60, cr_reason = None\<rparr>, c1, w1 + 1)"
    by (simp add: act_cache_def) (simp add: demo_sdk_def)
  let ?b = "1 # enc_flag_words (True, 3, 60, opt_list None)"
  have "mesh_send demo_sdk mesh_codecs demo_iam demo_config mesh_me ''edge'' 5 ''edge'' TOPIC_CACHE
      (enc_cache_req ?req) 30000 mesh_start
    = (Inr ?b, \<lparr>ms_edge = (edge_state_new 100 60)\<lparr>es_cache := c1\<rparr>, ms_node = w1 + 1\<rparr>)"
    using adm dec act
    by (simp add: mesh_send_def handle_def handle_inner_def dispatch_def mesh_start_def edge_state_new_def)
       (simp add: mesh_codecs_def)
  moreover have "wi_cache_resp mesh_wire ?b
      = Inr \<lparr>cr_cached = True, cr_stored_bytes = 3, cr_ttl_secs = 60, cr_reason = None\<rparr>"
    by (simp add: mesh_wire_def dec_reply_enc [OF codec_flag_words])
  moreover have "wi_cache_req mesh_wire ?req = Inr (enc_cache_req ?req)" by (simp add: mesh_wire_def)
  ultimately show ?thesis
    by (simp add: mesh_cached_def replicate_to_def edge_request_def mesh_sdk_def with_context_def edge_state_new_def)
qed


end
