(* ===== verification/Publish.thy ===== *)
theory Publish
  imports Cli
begin

text \<open>
  What \<open>ce-cdn put\<close> leaves behind (\<open>cmd_put\<close> of \<open>src/main.rs\<close>): the catalog entry of the object, with
  exactly the edges that confirmed a copy, and the cache requests sent. The locale \<open>put_world\<close> extends the
  one of the other commands by what \<open>put\<close> relies on.
\<close>

text \<open>The edges a put asks for a copy, given what picking answers.\<close>

definition put_asked :: "(nat \<Rightarrow> string list \<Rightarrow> string list result) \<Rightarrow> bool \<Rightarrow> u8 \<Rightarrow> string list" where
  "put_asked picks no_replicate replication =
     (if \<not> no_replicate \<and> replication > 0 then unwrap_or [] (picks (unat replication) []) else [])"

section \<open>What put relies on\<close>

locale put_world = cli_world ops rep cat sent adv
  for ops :: "('w, 'm) cli_ops_scheme" and rep :: "'w \<Rightarrow> bool" and cat :: "'w \<Rightarrow> catalog"
    and sent :: "'w \<Rightarrow> (string \<times> string) list" and adv :: "string \<Rightarrow> string list" +
  fixes puts :: "bytes \<Rightarrow> put_result result" and picks :: "nat \<Rightarrow> string list \<Rightarrow> string list result"
    and copies :: "string \<Rightarrow> string \<Rightarrow> cache_resp result"
  assumes put_frame: "rep w \<Longrightarrow> co_put ops bs w = (p, w') \<Longrightarrow>
      p = puts bs \<and> rep w' \<and> cat w' = cat w \<and> sent w' = sent w"
    and pick_frame: "rep w \<Longrightarrow> mo_pick ops n ex w = (q, w') \<Longrightarrow>
      q = picks n ex \<and> rep w' \<and> cat w' = cat w \<and> sent w' = sent w"
    and copy_frame: "rep w \<Longrightarrow> mo_replicate ops e cid len ttl w = (s, w') \<Longrightarrow>
      s = copies e cid \<and> rep w' \<and> cat w' = cat w \<and> sent w' = sent w @ [(e, cid)]"
begin

definition confirmed :: "string \<Rightarrow> string list \<Rightarrow> string list" where
  "confirmed cid es = filter (\<lambda>e. case copies e cid of Inl x \<Rightarrow> False | Inr r \<Rightarrow> cr_cached r) es"

lemma edges_confirmed:
  "rep w \<Longrightarrow> list_all (\<lambda>e. short_id e \<noteq> None) es \<Longrightarrow>
     \<exists>w'. put_edges ops cid len ttl es edges w
         = Some (edges @ map (\<lambda>e. \<lparr>er_edge = e, er_healthy = True\<rparr>) (confirmed cid es), w') \<and>
       rep w' \<and> cat w' = cat w \<and> sent w' = sent w @ map (\<lambda>e. (e, cid)) es"
proof (induction es arbitrary: edges w)
  case (Cons e es)
  obtain s w1 where s: "mo_replicate ops e cid len ttl w = (s, w1)" by fastforce
  note f = copy_frame [OF Cons.prems(1) s]
  show ?case
  proof (cases s)
    case (Inl x)
    then have sx: "s = Inl x" .
    with f have "copies e cid = Inl x" by simp
    then have "confirmed cid (e # es) = confirmed cid es" by (simp add: confirmed_def)
    moreover have "mo_replicate ops e cid len ttl w = (Inl x, w1)" using s sx by simp
    ultimately show ?thesis using Cons.IH [of w1 edges] Cons.prems(2) f by auto
  next
    case (Inr r)
    with f have c: "copies e cid = Inr r" by simp
    let ?edges = "if cr_cached r then edges @ [\<lparr>er_edge = e, er_healthy = True\<rparr>] else edges"
    have "confirmed cid (e # es) = (if cr_cached r then e # confirmed cid es else confirmed cid es)"
      using c by (simp add: confirmed_def)
    moreover have "mo_replicate ops e cid len ttl w = (Inr r, w1)" using s Inr by simp
    ultimately show ?thesis using Cons.IH [of w1 ?edges] Cons.prems(2) f by auto
  qed
qed (simp add: confirmed_def)

lemma put_recorded:
  assumes "rep w" "puts bs = Inr pub"
    and "list_all (\<lambda>e. short_id e \<noteq> None) (put_asked picks no_replicate replication)"
  shows "\<exists>w'. cmd_put ops (Inr bs) replication ttl priv label tags no_replicate w = Some (Inr (), w') \<and> rep w' \<and>
    cat w' = stamped (upsert
      \<lparr>ce_content = \<lparr>ct_cid = pt_cid pub, ct_bytes_len = pt_bytes_len pub,
         ct_access = (if priv then CatPrivate else CatPublic), ct_replication = replication, ct_ttl_secs = ttl,
         ct_label = label, ct_tags = tags\<rparr>,
       ce_edges = map (\<lambda>e. \<lparr>er_edge = e, er_healthy = True\<rparr>) (confirmed (pt_cid pub) (put_asked picks no_replicate replication))\<rparr> (cat w)) \<and>
    sent w' = sent w @ map (\<lambda>e. (e, pt_cid pub)) (put_asked picks no_replicate replication)"
proof -
  let ?asked = "put_asked picks no_replicate replication"
  let ?edges = "map (\<lambda>e. \<lparr>er_edge = e, er_healthy = True\<rparr>) (confirmed (pt_cid pub) ?asked)"
  obtain p w1 where p: "co_put ops bs w = (p, w1)" by fastforce
  note p' = put_frame [OF assms(1) p]
  have "\<exists>w3. (if \<not> no_replicate \<and> replication > 0 then
        (let (pr, w2) = mo_pick ops (unat replication) [] w1
         in put_edges ops (pt_cid pub) (pt_bytes_len pub) ttl (unwrap_or [] pr) [] w2)
      else Some ([], w1)) = Some (?edges, w3) \<and>
      rep w3 \<and> cat w3 = cat w \<and> sent w3 = sent w @ map (\<lambda>e. (e, pt_cid pub)) ?asked"
  proof (cases "\<not> no_replicate \<and> replication > 0")
    case True
    obtain q w2 where q: "mo_pick ops (unat replication) [] w1 = (q, w2)" by fastforce
    have q': "q = picks (unat replication) []" "rep w2" "cat w2 = cat w" "sent w2 = sent w"
      using pick_frame [of w1, OF _ q] p' by auto
    have asked: "?asked = unwrap_or [] q" using True by (simp add: put_asked_def q'(1))
    from edges_confirmed [OF q'(2) assms(3), of "pt_cid pub" "pt_bytes_len pub" ttl "[]"] True q q' asked
    show ?thesis by simp
  next
    case False
    with p' show ?thesis by (auto simp: put_asked_def confirmed_def)
  qed
  then obtain w3 where w3: "(if \<not> no_replicate \<and> replication > 0 then
        (let (pr, w2) = mo_pick ops (unat replication) [] w1
         in put_edges ops (pt_cid pub) (pt_bytes_len pub) ttl (unwrap_or [] pr) [] w2)
      else Some ([], w1)) = Some (?edges, w3)" "rep w3" "cat w3 = cat w"
      "sent w3 = sent w @ map (\<lambda>e. (e, pt_cid pub)) ?asked" by blast
  let ?e = "\<lparr>ce_content = \<lparr>ct_cid = pt_cid pub, ct_bytes_len = pt_bytes_len pub,
         ct_access = (if priv then CatPrivate else CatPublic), ct_replication = replication, ct_ttl_secs = ttl,
         ct_label = label, ct_tags = tags\<rparr>, ce_edges = ?edges\<rparr>"
  obtain r w4 where u: "mo_update ops (upsert ?e) w3 = (r, w4)" by fastforce
  have "cmd_put ops (Inr bs) replication ttl priv label tags no_replicate w = Some (r, w4)"
    using p p' assms(2) w3(1) u by (simp add: cmd_put_def Let_def)
  with update [OF w3(2) u] w3 show ?thesis by auto
qed

end

section \<open>Publishing to a catalog file\<close>

text \<open>The disk of the other commands, with what the blob store and the edges answer.\<close>

definition publish_ops ::
  "(bytes \<Rightarrow> catalog result) \<Rightarrow> (catalog \<Rightarrow> bytes) \<Rightarrow> string \<Rightarrow> nat
     \<Rightarrow> (bytes \<Rightarrow> put_result result) \<Rightarrow> (nat \<Rightarrow> string list \<Rightarrow> string list result)
     \<Rightarrow> (string \<Rightarrow> string \<Rightarrow> cache_resp result) \<Rightarrow> cli_disk cli_ops \<Rightarrow> cli_disk cli_ops" where
  "publish_ops from_json to_json path pid puts picks copies net =
     disk_ops from_json to_json path pid (\<lambda>c. []) (\<lambda>e c. Inl ''unused'')
       (net\<lparr>co_put := (\<lambda>bs w. (puts bs, w)), mo_pick := (\<lambda>n ex w. (picks n ex, w)),
            mo_replicate := (\<lambda>e cid len ttl w. (copies e cid, w\<lparr>cd_sent := cd_sent w @ [(e, cid)]\<rparr>))\<rparr>)"

lemma disk_same:
  "disk_ok from_json to_json path (w\<lparr>cd_sent := x\<rparr>) = disk_ok from_json to_json path w"
  "disk_catalog from_json path (w\<lparr>cd_sent := x\<rparr>) = disk_catalog from_json path w"
  by (simp_all add: disk_ok_def disk_catalog_def)

interpretation publish: put_world "publish_ops from_json to_json path pid puts picks copies net"
  "disk_ok from_json to_json path" "disk_catalog from_json path" cd_sent "\<lambda>c. []" puts picks copies
  for from_json to_json path pid puts picks copies net
  unfolding publish_ops_def
  by (intro put_world.intro disk_world, unfold_locales) (auto simp: disk_ops_def disk_same)

text \<open>
  C33: publishing records exactly the copies that exist. When the blob store takes the object, \<open>put\<close>
  returns without an error; the catalog file then has an entry under the object's id with the options
  given, whose edges are those of the edges asked that confirmed a copy, in the order asked, each
  healthy; every other entry is as it was, and a cache request was sent to each edge asked. No edge is
  asked with \<open>--no-replicate\<close> or a replication of zero, and an error while picking means none is.
\<close>
theorem put_records_copies:
  assumes "disk_ok from_json to_json path w" "cat_ok (disk_catalog from_json path w)"
    and "puts bs = Inr pub" "list_all (\<lambda>e. short_id e \<noteq> None) (put_asked picks no_replicate replication)"
  shows "\<exists>w' entry. cmd_put (publish_ops from_json to_json path pid puts picks copies net)
      (Inr bs) replication ttl priv label tags no_replicate w = Some (Inr (), w') \<and>
    disk_ok from_json to_json path w' \<and> cat_ok (disk_catalog from_json path w') \<and>
    (\<forall>k. cat_get k (disk_catalog from_json path w') =
      (if k = pt_cid pub then Some entry else cat_get k (disk_catalog from_json path w))) \<and>
    ce_content entry = \<lparr>ct_cid = pt_cid pub, ct_bytes_len = pt_bytes_len pub,
       ct_access = (if priv then CatPrivate else CatPublic), ct_replication = replication, ct_ttl_secs = ttl,
       ct_label = label, ct_tags = tags\<rparr> \<and>
    edge_ids entry = filter (\<lambda>e. \<exists>r. copies e (pt_cid pub) = Inr r \<and> cr_cached r) (put_asked picks no_replicate replication) \<and>
    list_all er_healthy (ce_edges entry) \<and>
    cd_sent w' = cd_sent w @ map (\<lambda>e. (e, pt_cid pub)) (put_asked picks no_replicate replication)"
proof -
  have conf: "publish.confirmed copies cid es = filter (\<lambda>e. \<exists>r. copies e cid = Inr r \<and> cr_cached r) es" for cid es
  proof -
    have "(case copies e cid of Inl x \<Rightarrow> False | Inr r \<Rightarrow> cr_cached r) \<longleftrightarrow> (\<exists>r. copies e cid = Inr r \<and> cr_cached r)" for e
      by (cases "copies e cid") simp_all
    then show ?thesis by (simp add: publish.confirmed_def)
  qed
  let ?entry = "\<lparr>ce_content = \<lparr>ct_cid = pt_cid pub, ct_bytes_len = pt_bytes_len pub,
         ct_access = (if priv then CatPrivate else CatPublic), ct_replication = replication, ct_ttl_secs = ttl,
         ct_label = label, ct_tags = tags\<rparr>,
       ce_edges = map (\<lambda>e. \<lparr>er_edge = e, er_healthy = True\<rparr>)
         (filter (\<lambda>e. \<exists>r. copies e (pt_cid pub) = Inr r \<and> cr_cached r) (put_asked picks no_replicate replication))\<rparr>"
  obtain w' where w': "cmd_put (publish_ops from_json to_json path pid puts picks copies net)
      (Inr bs) replication ttl priv label tags no_replicate w = Some (Inr (), w')"
    "disk_ok from_json to_json path w'"
    "disk_catalog from_json path w' = stamped (upsert ?entry (disk_catalog from_json path w))"
    "cd_sent w' = cd_sent w @ map (\<lambda>e. (e, pt_cid pub)) (put_asked picks no_replicate replication)"
    using publish.put_recorded [where puts = puts and picks = picks and copies = copies and net = net and pid = pid
        and ttl = ttl and priv = priv and label = label and tags = tags, OF assms(1,3,4)]
    unfolding conf by blast
  show ?thesis
    using assms(2) w'(1,2,4)
    by (intro exI [of _ w'] exI [of _ ?entry]) (simp add: w'(3) cat_get_upsert cat_ok_upsert edge_ids_def list_all_iff o_def)
qed

text \<open>Two edges are picked; only the first confirms the copy.\<close>

definition put_puts :: "bytes \<Rightarrow> put_result result" where
  "put_puts bs = Inr \<lparr>pt_cid = ''c'', pt_bytes_len = len64 bs, pt_url = ''/cdn/c''\<rparr>"

definition put_picks :: "nat \<Rightarrow> string list \<Rightarrow> string list result" where
  "put_picks n ex = Inr (take n [''e1'', ''e2''])"

definition put_copies :: "string \<Rightarrow> string \<Rightarrow> cache_resp result" where
  "put_copies e cid = Inr \<lparr>cr_cached = (e = ''e1''), cr_stored_bytes = 3, cr_ttl_secs = 60, cr_reason = None\<rparr>"

lemma put_records_copies_witness:
  "\<exists>w' entry. cmd_put (publish_ops dec_catalog enc_catalog ''catalog.json'' 7 put_puts put_picks put_copies demo_net)
      (Inr [1, 2, 3]) 2 60 False None [''rel''] False demo_disk = Some (Inr (), w') \<and>
    disk_ok dec_catalog enc_catalog ''catalog.json'' w' \<and> cat_ok (disk_catalog dec_catalog ''catalog.json'' w') \<and>
    (\<forall>k. cat_get k (disk_catalog dec_catalog ''catalog.json'' w') =
      (if k = pt_cid \<lparr>pt_cid = ''c'', pt_bytes_len = 3, pt_url = ''/cdn/c''\<rparr> then Some entry
       else cat_get k (disk_catalog dec_catalog ''catalog.json'' demo_disk))) \<and>
    ce_content entry = \<lparr>ct_cid = pt_cid \<lparr>pt_cid = ''c'', pt_bytes_len = 3, pt_url = ''/cdn/c''\<rparr>,
       ct_bytes_len = pt_bytes_len \<lparr>pt_cid = ''c'', pt_bytes_len = 3, pt_url = ''/cdn/c''\<rparr>,
       ct_access = (if False then CatPrivate else CatPublic), ct_replication = 2, ct_ttl_secs = 60,
       ct_label = None, ct_tags = [''rel'']\<rparr> \<and>
    edge_ids entry = filter (\<lambda>e. \<exists>r. put_copies e (pt_cid \<lparr>pt_cid = ''c'', pt_bytes_len = 3, pt_url = ''/cdn/c''\<rparr>) = Inr r
      \<and> cr_cached r) (put_asked put_picks False 2) \<and>
    list_all er_healthy (ce_edges entry) \<and>
    cd_sent w' = cd_sent demo_disk @ map (\<lambda>e. (e, pt_cid \<lparr>pt_cid = ''c'', pt_bytes_len = 3, pt_url = ''/cdn/c''\<rparr>))
      (put_asked put_picks False 2)"
proof (rule put_records_copies [OF demo_disk_ok])
  show "cat_ok (disk_catalog dec_catalog ''catalog.json'' demo_disk)"
    by (simp add: demo_disk_catalog sample_catalog_ok)
  show "put_puts [1, 2, 3] = Inr \<lparr>pt_cid = ''c'', pt_bytes_len = 3, pt_url = ''/cdn/c''\<rparr>"
    by (simp add: put_puts_def len64_def)
  show "list_all (\<lambda>e. short_id e \<noteq> None) (put_asked put_picks False 2)"
    by (simp add: put_asked_def put_picks_def unwrap_or_def short_id_def is_char_boundary_def)
qed

end
