(* ===== verification/Watch.thy ===== *)
theory Watch
  imports Cli
begin

text \<open>
  Model of \<open>run_forever\<close> in \<open>src/maintain.rs\<close> and of \<open>cmd_maintain\<close> in \<open>src/main.rs\<close>: maintenance passes one
  after the other, an error in a pass not stopping the next. The loop has no end, so the model is its
  first \<open>n\<close> passes, for every \<open>n\<close>. The locale \<open>maintain_world\<close> states what a pass relies on.
\<close>

section \<open>The loop\<close>

text \<open>\<open>sleep\<close> is what happens to the world while the loop sleeps for a number of seconds.\<close>

fun run_passes ::
  "'w maintain_ops \<Rightarrow> (u64 \<Rightarrow> 'w \<Rightarrow> 'w) \<Rightarrow> u64 \<Rightarrow> nat \<Rightarrow> 'w \<Rightarrow> maintain_report result list \<times> 'w" where
  "run_passes ops sleep interval_secs 0 w = ([], w)"
| "run_passes ops sleep interval_secs (Suc n) w =
     (let interval = max interval_secs 1;
          (r, w1) = run_once ops w;
          (rs, w2) = run_passes ops sleep interval_secs n (sleep interval w1)
      in (r # rs, w2))"

text \<open>One pass, whose error is the command's, or the loop.\<close>

definition cmd_maintain ::
  "'w maintain_ops \<Rightarrow> (u64 \<Rightarrow> 'w \<Rightarrow> 'w) \<Rightarrow> u64 option \<Rightarrow> nat \<Rightarrow> 'w \<Rightarrow> maintain_report result list \<times> 'w" where
  "cmd_maintain ops sleep watch n w =
     (case watch of
        Some interval \<Rightarrow> run_passes ops sleep interval n w
      | None \<Rightarrow> (let (r, w1) = run_once ops w in ([r], w1)))"

section \<open>What a pass records\<close>

lemma reconcile_report: "mr_examined (snd (fst (reconcile ops cid entry report w))) = mr_examined report + 1"
  by (simp add: reconcile_def Let_def case_prod_beta)

lemma reconcile_healthy: "list_all er_healthy (fst (fst (reconcile ops cid entry report w)))"
proof -
  have "list_all er_healthy (fst (fst (recruit_loop ops con cid picks ex (map (\<lambda>e. \<lparr>er_edge = e, er_healthy = True\<rparr>) kept) n v)))"
    for con picks ex kept n v
    using recruit_loop_new [of ops con cid picks ex "map (\<lambda>e. \<lparr>er_edge = e, er_healthy = True\<rparr>) kept" n v]
    by (auto simp: list_all_iff)
  then show ?thesis by (simp add: reconcile_def Let_def case_prod_beta list_all_iff)
qed

lemma reconcile_all_report:
  "mr_examined (snd (fst (reconcile_all ops items report w))) = mr_examined report + length items"
  by (induction items arbitrary: report w)
     (auto simp: Let_def case_prod_beta reconcile_report)

lemma reconcile_all_healthy:
  "(k, edges) \<in> set (fst (fst (reconcile_all ops items report w))) \<Longrightarrow> list_all er_healthy edges"
  by (induction items arbitrary: report w)
     (auto simp: Let_def case_prod_beta, metis reconcile_healthy fst_conv)

lemma keys_commit: "map fst (cat_items (commit_results rs c)) = map fst (cat_items c)"
  by (induction rs arbitrary: c) (auto simp: commit_results_Cons keys_modify commit_results_def)

lemma items_stamped: "cat_items (stamped c) = cat_items c"
  by (simp add: stamped_def)

section \<open>What a pass relies on\<close>

text \<open>The catalog can be read and updated; probing, picking and copying leave it alone.\<close>

locale maintain_world =
  fixes ops :: "'w maintain_ops" and rep :: "'w \<Rightarrow> bool" and cat :: "'w \<Rightarrow> catalog"
  assumes load: "rep w \<Longrightarrow> mo_load ops w = (Inr (cat w), w)"
    and update: "rep w \<Longrightarrow> mo_update ops f w = (r, w') \<Longrightarrow> r = Inr () \<and> rep w' \<and> cat w' = stamped (f (cat w))"
    and probe_frame: "rep w \<Longrightarrow> mo_probe ops e cid w = (p, w') \<Longrightarrow> rep w' \<and> cat w' = cat w"
    and pick_frame: "rep w \<Longrightarrow> mo_pick ops n ex w = (q, w') \<Longrightarrow> rep w' \<and> cat w' = cat w"
    and copy_frame: "rep w \<Longrightarrow> mo_replicate ops e cid len ttl w = (s, w') \<Longrightarrow> rep w' \<and> cat w' = cat w"
begin

definition same :: "'w \<Rightarrow> 'w \<Rightarrow> bool" where
  "same w w' \<longleftrightarrow> (rep w \<longrightarrow> rep w' \<and> cat w' = cat w)"

lemma same_refl: "same w w"
  by (simp add: same_def)

lemma same_trans: "same w w1 \<Longrightarrow> same w1 w2 \<Longrightarrow> same w w2"
  by (auto simp: same_def)

lemma frames:
  "same w (snd (mo_probe ops e cid w))" "same w (snd (mo_pick ops n ex w))"
  "same w (snd (mo_replicate ops e cid len ttl w))"
  using probe_frame [of w e cid] pick_frame [of w n ex] copy_frame [of w e cid len ttl]
  unfolding same_def by (metis prod.collapse)+

lemma probe_all_same: "same w (snd (probe_all ops cid es w))"
proof (induction es arbitrary: w)
  case (Cons e es)
  show ?case
    using same_trans [OF frames(1) Cons.IH] by (simp add: Let_def case_prod_beta)
qed (simp add: same_refl)

lemma recruit_same: "same w (snd (recruit_loop ops con cid picks ex edges got w))"
proof (induction picks arbitrary: ex edges got w)
  case (Cons p picks)
  obtain r w1 where r: "mo_replicate ops p cid (ct_bytes_len con) (ct_ttl_secs con) w = (r, w1)"
    by fastforce
  have "same w w1" using frames(3) [of w p cid "ct_bytes_len con" "ct_ttl_secs con"] r by simp
  from r Cons.IH same_trans [OF this Cons.IH] show ?case by (cases r) simp_all
qed (simp add: same_refl)

lemma reconcile_same: "same w (snd (reconcile ops cid entry report w))"
proof -
  note a = probe_all_same [of w cid "edge_ids entry"]
  note b = same_trans [OF a frames(2)]
  from a same_trans [OF b recruit_same] show ?thesis
    by (simp add: reconcile_def Let_def case_prod_beta)
qed

lemma reconcile_all_same: "same w (snd (reconcile_all ops items report w))"
proof (induction items arbitrary: report w)
  case (Cons x items)
  show ?case
    using same_trans [OF reconcile_same Cons.IH] by (cases x) (simp add: Let_def case_prod_beta)
qed (simp add: same_refl)

lemma pass:
  assumes "rep w" "cat_ok (cat w)"
  obtains x w' where "run_once ops w = (Inr x, w')" "rep w'" "cat_ok (cat w')"
    "mr_examined x = length (cat_items (cat w))"
    "map fst (cat_items (cat w')) = map fst (cat_items (cat w))"
    "\<forall>k. map_option ce_content (cat_get k (cat w')) = map_option ce_content (cat_get k (cat w))"
    "\<forall>k e. cat_get k (cat w') = Some e \<longrightarrow> list_all er_healthy (ce_edges e)"
proof -
  let ?r0 = "\<lparr>mr_examined = 0, mr_recruited = 0, mr_shortfalls = 0\<rparr>"
  obtain results x w2 where all: "reconcile_all ops (cat_items (cat w)) ?r0 w = ((results, x), w2)"
    by (metis prod.collapse)
  have w2: "rep w2" "cat w2 = cat w"
    using reconcile_all_same [of w "cat_items (cat w)" ?r0] all assms(1) by (simp_all add: same_def)
  obtain r w3 where upd: "mo_update ops (commit_results results) w2 = (r, w3)" by fastforce
  have w3: "r = Inr ()" "rep w3" "cat w3 = stamped (commit_results results (cat w))"
    using update [OF w2(1) upd] w2(2) by auto
  have keys: "map fst results = map fst (cat_items (cat w))"
    using reconcile_all_cids [of ops "cat_items (cat w)" ?r0 w] all by simp
  have dis: "distinct (map fst results)" unfolding keys using assms(2) by (simp add: cat_ok_def bt_ok_distinct)
  have get: "cat_get k (cat w3) = (case map_of results k of None \<Rightarrow> cat_get k (cat w)
      | Some edges \<Rightarrow> map_option (\<lambda>e. e\<lparr>ce_edges := edges\<rparr>) (cat_get k (cat w)))" for k
    unfolding w3(3) using cat_get_commit [OF dis, of k "cat w"] by simp
  show thesis
  proof (rule that)
    show "run_once ops w = (Inr x, w3)"
      using load [OF assms(1)] all upd w3(1) by (simp add: run_once_def)
    show "rep w3" "cat_ok (cat w3)"
      using w3 cat_ok_commit [OF assms(2), of results] by simp_all
    show "mr_examined x = length (cat_items (cat w))"
      using reconcile_all_report [of ops "cat_items (cat w)" ?r0 w] all by simp
    show "map fst (cat_items (cat w3)) = map fst (cat_items (cat w))"
      by (simp add: w3(3) items_stamped keys_commit)
    show "\<forall>k. map_option ce_content (cat_get k (cat w3)) = map_option ce_content (cat_get k (cat w))"
      by (simp add: get option.map_comp o_def split: option.split)
    have "list_all er_healthy (ce_edges e)" if e: "cat_get k (cat w3) = Some e" for k e
    proof (cases "map_of results k")
      case None
      have "k \<notin> set (map fst results)" using None by (simp add: map_of_eq_None_iff)
      then have "cat_get k (cat w) = None"
        unfolding keys by (simp add: cat_get_def bt_get_def map_of_eq_None_iff)
      with e None get [of k] show ?thesis by simp
    next
      case (Some edges)
      then have "(k, edges) \<in> set results" by (rule map_of_SomeD)
      with reconcile_all_healthy [of k edges ops "cat_items (cat w)" ?r0 w] all
      have "list_all er_healthy edges" by simp
      with e Some get [of k] show ?thesis by auto
    qed
    then show "\<forall>k e. cat_get k (cat w3) = Some e \<longrightarrow> list_all er_healthy (ce_edges e)" by blast
  qed
qed

lemma passes:
  assumes sleep: "\<And>i v. rep v \<Longrightarrow> rep (sleep i v) \<and> cat (sleep i v) = cat v"
  shows "rep w \<Longrightarrow> cat_ok (cat w) \<Longrightarrow> run_passes ops sleep interval n w = (rs, w') \<Longrightarrow>
    rep w' \<and> cat_ok (cat w') \<and> length rs = n \<and>
    (\<forall>r \<in> set rs. \<exists>x. r = Inr x \<and> mr_examined x = length (cat_items (cat w))) \<and>
    map fst (cat_items (cat w')) = map fst (cat_items (cat w)) \<and>
    (\<forall>k. map_option ce_content (cat_get k (cat w')) = map_option ce_content (cat_get k (cat w))) \<and>
    (n > 0 \<longrightarrow> (\<forall>k e. cat_get k (cat w') = Some e \<longrightarrow> list_all er_healthy (ce_edges e)))"
proof (induction n arbitrary: w rs)
  case (Suc n)
  obtain x w1 where x: "run_once ops w = (Inr x, w1)" "rep w1" "cat_ok (cat w1)"
    "mr_examined x = length (cat_items (cat w))"
    "map fst (cat_items (cat w1)) = map fst (cat_items (cat w))"
    "\<forall>k. map_option ce_content (cat_get k (cat w1)) = map_option ce_content (cat_get k (cat w))"
    "\<forall>k e. cat_get k (cat w1) = Some e \<longrightarrow> list_all er_healthy (ce_edges e)"
    by (rule pass [OF Suc.prems(1,2)]) (rule that)
  let ?w2 = "sleep (max interval 1) w1"
  have w2: "rep ?w2" "cat ?w2 = cat w1" using sleep [OF x(2)] by auto
  obtain rs' where rest: "run_passes ops sleep interval n ?w2 = (rs', w')" "rs = Inr x # rs'"
    using Suc.prems(3) x(1) by (auto simp: Let_def split: prod.splits)
  have ok2: "cat_ok (cat ?w2)" using w2(2) x(3) by simp
  note ih = Suc.IH [OF w2(1) ok2 rest(1), unfolded w2(2)]
  have len: "length (cat_items (cat w1)) = length (cat_items (cat w))" using arg_cong [OF x(5), of length] by simp
  have last: "list_all er_healthy (ce_edges e)" if "cat_get k (cat w') = Some e" for k e
  proof (cases n)
    case 0
    with rest(1) have "w' = ?w2" by simp
    with that w2(2) x(7) show ?thesis by simp
  next
    case (Suc m)
    with ih have "\<forall>k e. cat_get k (cat w') = Some e \<longrightarrow> list_all er_healthy (ce_edges e)" by simp
    with that show ?thesis by blast
  qed
  show ?case using ih x(4,5,6) len last rest(2) by simp
qed simp

end

section \<open>Maintaining a catalog file\<close>

text \<open>
  The catalog file with any network: what probes, picks and copies answer may depend on the whole
  world, and every probe and copy is remembered, so that answers can change over time.
\<close>

definition maintain_disk ::
  "(bytes \<Rightarrow> catalog result) \<Rightarrow> (catalog \<Rightarrow> bytes) \<Rightarrow> string \<Rightarrow> nat
     \<Rightarrow> (string \<Rightarrow> string \<Rightarrow> cli_disk \<Rightarrow> status_resp result) \<Rightarrow> (nat \<Rightarrow> string list \<Rightarrow> cli_disk \<Rightarrow> string list result)
     \<Rightarrow> (string \<Rightarrow> string \<Rightarrow> cli_disk \<Rightarrow> cache_resp result) \<Rightarrow> cli_disk maintain_ops" where
  "maintain_disk from_json to_json path pid probes picks copies =
     \<lparr>mo_load = (\<lambda>w. (load_catalog from_json path (read_file (cd_dir w) path), w)),
      mo_probe = (\<lambda>e cid w. (probes e cid w, w\<lparr>cd_sent := cd_sent w @ [(e, cid)]\<rparr>)),
      mo_pick = (\<lambda>n ex w. (picks n ex w, w)),
      mo_replicate = (\<lambda>e cid len ttl w. (copies e cid w, w\<lparr>cd_sent := cd_sent w @ [(e, cid)]\<rparr>)),
      mo_update = (\<lambda>f w. let (r, d) = update_file from_json to_json path pid f (cd_dir w)
                          in (r, w\<lparr>cd_dir := d\<rparr>))\<rparr>"

lemma maintain_disk_world:
  "maintain_world (maintain_disk from_json to_json path pid probes picks copies)
     (disk_ok from_json to_json path) (disk_catalog from_json path)"
proof
  fix w w' :: cli_disk and f :: "catalog \<Rightarrow> catalog" and r :: "unit result" and cid e :: string
    and p :: "status_resp result" and q :: "string list result" and s :: "cache_resp result"
    and n :: nat and ex :: "string list" and len ttl :: u64
  let ?ops = "maintain_disk from_json to_json path pid probes picks copies"
  assume ok: "disk_ok from_json to_json path w"
  show "mo_load ?ops w = (Inr (disk_catalog from_json path w), w)"
    using ok by (simp add: maintain_disk_def disk_ok_def)
  show "r = Inr () \<and> disk_ok from_json to_json path w' \<and>
      disk_catalog from_json path w' = stamped (f (disk_catalog from_json path w))"
    if "mo_update ?ops f w = (r, w')"
  proof -
    obtain r' d where u: "update_file from_json to_json path pid f (cd_dir w) = (r', d)" by fastforce
    with that have d: "update_file from_json to_json path pid f (cd_dir w) = (r, d)" "w' = w\<lparr>cd_dir := d\<rparr>"
      by (auto simp: maintain_disk_def)
    from update_file_ok [OF ok d(1)] d(2) ok show ?thesis
      by (simp add: disk_ok_def disk_catalog_def unwrap_or_def)
  qed
  show "disk_ok from_json to_json path w' \<and> disk_catalog from_json path w' = disk_catalog from_json path w"
    if "mo_probe ?ops e cid w = (p, w')"
    using that ok by (auto simp: maintain_disk_def disk_ok_def disk_catalog_def)
  show "disk_ok from_json to_json path w' \<and> disk_catalog from_json path w' = disk_catalog from_json path w"
    if "mo_pick ?ops n ex w = (q, w')"
    using that ok by (auto simp: maintain_disk_def)
  show "disk_ok from_json to_json path w' \<and> disk_catalog from_json path w' = disk_catalog from_json path w"
    if "mo_replicate ?ops e cid len ttl w = (s, w')"
    using that ok by (auto simp: maintain_disk_def disk_ok_def disk_catalog_def)
qed

interpretation watch: maintain_world "maintain_disk from_json to_json path pid probes picks copies"
  "disk_ok from_json to_json path" "disk_catalog from_json path"
  for from_json to_json path pid probes picks copies
  by (rule maintain_disk_world)

text \<open>
  C31: the maintenance loop never loses a catalog entry. On a readable, well-formed catalog, however the
  network answers and changes, every one of the first \<open>n\<close> passes of \<open>run_forever\<close> succeeds and examines
  every entry; afterwards the catalog is well-formed, has the same entries with the same content
  records, and, after at least one pass, lists no edge as unhealthy. The hypothesis on \<open>sleep\<close> says that
  no other process writes the file meanwhile.
\<close>
theorem watch_keeps_catalog:
  assumes "disk_ok from_json to_json path w" and "cat_ok (disk_catalog from_json path w)"
    and "\<And>i v. cd_dir (sleep i v) = cd_dir v"
    and "run_passes (maintain_disk from_json to_json path pid probes picks copies) sleep interval n w = (rs, w')"
  shows "disk_ok from_json to_json path w' \<and> cat_ok (disk_catalog from_json path w') \<and> length rs = n \<and>
    (\<forall>r \<in> set rs. \<exists>x. r = Inr x \<and> mr_examined x = length (cat_items (disk_catalog from_json path w))) \<and>
    map fst (cat_items (disk_catalog from_json path w')) = map fst (cat_items (disk_catalog from_json path w)) \<and>
    (\<forall>k. map_option ce_content (cat_get k (disk_catalog from_json path w'))
       = map_option ce_content (cat_get k (disk_catalog from_json path w))) \<and>
    (n > 0 \<longrightarrow> (\<forall>k e. cat_get k (disk_catalog from_json path w') = Some e \<longrightarrow> list_all er_healthy (ce_edges e)))"
proof (rule watch.passes [OF _ assms(1,2,4)])
  show "disk_ok from_json to_json path (sleep i v) \<and>
      disk_catalog from_json path (sleep i v) = disk_catalog from_json path v"
    if "disk_ok from_json to_json path v" for i v
    using that assms(3) [of i v] by (simp add: disk_ok_def disk_catalog_def)
qed

text \<open>Three passes over the sample catalog; edges go away and come back as probes are sent.\<close>

definition flaky_probes :: "string \<Rightarrow> string \<Rightarrow> cli_disk \<Rightarrow> status_resp result" where
  "flaky_probes e cid w =
     Inr \<lparr>sr_held = even (length (cd_sent w)), sr_bytes = 1, sr_ttl_remaining = 0\<rparr>"

definition demo_picks :: "nat \<Rightarrow> string list \<Rightarrow> cli_disk \<Rightarrow> string list result" where
  "demo_picks n ex w = Inr (take n [''c'', ''d''])"

definition demo_copies :: "string \<Rightarrow> string \<Rightarrow> cli_disk \<Rightarrow> cache_resp result" where
  "demo_copies e cid w = Inr \<lparr>cr_cached = True, cr_stored_bytes = 1, cr_ttl_secs = 60, cr_reason = None\<rparr>"

lemma watch_keeps_catalog_witness:
  "let out = run_passes (maintain_disk dec_catalog enc_catalog ''catalog.json'' 7 flaky_probes demo_picks demo_copies)
               (\<lambda>i v. v) 60 3 demo_disk
   in disk_ok dec_catalog enc_catalog ''catalog.json'' (snd out) \<and>
    cat_ok (disk_catalog dec_catalog ''catalog.json'' (snd out)) \<and> length (fst out) = 3 \<and>
    (\<forall>r \<in> set (fst out). \<exists>x. r = Inr x \<and>
       mr_examined x = length (cat_items (disk_catalog dec_catalog ''catalog.json'' demo_disk))) \<and>
    map fst (cat_items (disk_catalog dec_catalog ''catalog.json'' (snd out)))
      = map fst (cat_items (disk_catalog dec_catalog ''catalog.json'' demo_disk)) \<and>
    (\<forall>k. map_option ce_content (cat_get k (disk_catalog dec_catalog ''catalog.json'' (snd out)))
       = map_option ce_content (cat_get k (disk_catalog dec_catalog ''catalog.json'' demo_disk))) \<and>
    ((3::nat) > 0 \<longrightarrow> (\<forall>k e. cat_get k (disk_catalog dec_catalog ''catalog.json'' (snd out)) = Some e \<longrightarrow>
       list_all er_healthy (ce_edges e)))"
  unfolding Let_def
proof (rule watch_keeps_catalog [OF demo_disk_ok])
  show "cat_ok (disk_catalog dec_catalog ''catalog.json'' demo_disk)"
    by (simp add: demo_disk_catalog sample_catalog_ok)
qed simp_all

end
