(* ===== verification/Commands.thy ===== *)
theory Commands
  imports Watch Http_Edge
begin

text \<open>
  Model of the whole of \<open>src/main.rs\<close>: the command line as data (\<open>Cli\<close> and \<open>Cmd\<close>), \<open>load_identity\<close>, and
  \<open>main\<close>, which finds the catalog and the capability chain and runs the command. What \<open>clap\<close> makes of
  the arguments is its own. The locales state what the commands rely on as a typing of the world: every
  command that starts in a well-formed world ends, without a panic, in one.
\<close>

section \<open>The command line\<close>

datatype command =
    Put string u8 u64 bool "string option" "string list" "string option" bool
  | Get string "string option" "string option"
  | Ls
  | Purge "string option" "string option" "string option" "string option" bool
  | Forget string
  | Maintain "string option" "u64 option"
  | Presign string u64 "string option"
  | Status string "string option"
  | Serve u64 u64 "string list" "string option" "string list"

record cli =
  cl_api :: string
  cl_catalog :: "string option"
  cl_cmd :: command

text \<open>
  What the process finds around it: environment variables, the platform's directories, text files, the
  files to publish, the clock, the keys, and the operations of the CE node at a base URL.
\<close>

record ('w, 'ch) machine =
  mc_env :: "string \<Rightarrow> string option"
  mc_config_dir :: "string option"
  mc_data_dir :: "string option"
  mc_text :: "string \<Rightarrow> string option"
  mc_read :: "string \<Rightarrow> 'w \<Rightarrow> bytes result"
  mc_now :: "'w \<Rightarrow> u64"
  mc_sleep :: "u64 \<Rightarrow> 'w \<Rightarrow> 'w"
  mc_identity :: "string \<Rightarrow> (bytes \<Rightarrow> bytes) result"
  mc_ops :: "string \<Rightarrow> string \<Rightarrow> string \<Rightarrow> 'w cli_ops"
  mc_sdk :: "string \<Rightarrow> 'w sdk"
  mc_node_id :: "string \<Rightarrow> string result"
  mc_verify :: verifier
  mc_codecs :: codecs
  mc_iam :: "'ch iam"
  mc_hit_ratio :: "cache_stats \<Rightarrow> string"

section \<open>Running a command\<close>

definition load_identity ::
  "(string \<Rightarrow> string option) \<Rightarrow> string option \<Rightarrow> (string \<Rightarrow> 'i result) \<Rightarrow> 'i result" where
  "load_identity env data_dir load =
     (case (case env ''CE_DATA_DIR'' of
              Some d \<Rightarrow> Some (path_join d ''identity'')
            | None \<Rightarrow> map_option (\<lambda>p. path_join p ''identity'') data_dir) of
        None \<Rightarrow> Inl ''could not locate the CE data dir''
      | Some dir \<Rightarrow> (case load dir of Inl e \<Rightarrow> Inl (''loading identity from '' @ dir) | Inr i \<Rightarrow> Inr i))"

text \<open>What a command that ends well leaves to be printed; \<open>Passes\<close> and \<open>Served\<close> are what was done so far.\<close>

datatype 'w ending =
    Finished | Listed "string list" | Link string | Live "nat option"
  | Passes "maintain_report result list" | Served "'w served"

definition catalog_path :: "('w, 'ch) machine \<Rightarrow> cli \<Rightarrow> string" where
  "catalog_path M cli =
     (case cl_catalog cli of Some p \<Rightarrow> p | None \<Rightarrow> default_path (mc_env M) (mc_config_dir M))"

fun served_world :: "'w served \<Rightarrow> 'w" where
  "served_world (Over_Mesh (rs, seen, st, w)) = w"
| "served_world (Over_Http (rs, sv, w)) = w"

definition finish :: "('a \<Rightarrow> 'w ending) \<Rightarrow> 'a result \<times> 'w \<Rightarrow> 'w ending result \<times> 'w" where
  "finish f r = (map_sum id f (fst r), snd r)"

text \<open>
  The commands that never end are followed for \<open>n\<close> maintenance passes, or for the rounds of the mesh loop
  or the requests of the HTTP loop given; \<open>None\<close> is a panic.
\<close>

definition run_main ::
  "('w, 'ch) machine \<Rightarrow> cli \<Rightarrow> nat \<Rightarrow> round_input list \<Rightarrow> (u64 \<times> http_request) list \<Rightarrow> 'w
     \<Rightarrow> ('w ending result \<times> 'w) option" where
  "run_main M cli n rounds reqs w =
     (let path = catalog_path M cli;
          ops = mc_ops M (cl_api cli) path;
          chain = (\<lambda>arg. caps_resolve arg (mc_env M) (mc_config_dir M) (mc_text M))
      in case cl_cmd cli of
           Put file replication ttl priv label tags caps_arg no_replicate \<Rightarrow>
             map_option (finish (\<lambda>u. Finished))
               (cmd_put (ops (chain caps_arg))
                  (case mc_read M file w of Inl e \<Rightarrow> Inl (''reading '' @ file) | Inr bs \<Rightarrow> Inr bs)
                  replication ttl priv label tags no_replicate w)
         | Get cid out range_header \<Rightarrow>
             map_option (finish (\<lambda>u. Finished)) (cmd_get (ops []) cid out range_header w)
         | Ls \<Rightarrow> Some (finish Listed (cmd_ls (ops []) path w))
         | Purge cid tag edge caps_arg keep \<Rightarrow>
             map_option (finish (\<lambda>u. Finished)) (cmd_purge (ops (chain caps_arg)) cid tag edge keep w)
         | Forget cid \<Rightarrow> Some (finish (\<lambda>u. Finished) (cmd_forget (ops []) cid w))
         | Status cid caps_arg \<Rightarrow>
             map_option (\<lambda>(live, w1). (Inr (Live live), w1)) (cmd_status (ops (chain caps_arg)) cid w)
         | Maintain caps_arg watch \<Rightarrow>
             (let (rs, w1) = cmd_maintain (maintain_ops.truncate (ops (chain caps_arg))) (mc_sleep M) watch n w
              in case (watch, rs) of
                   (None, [Inl e]) \<Rightarrow> Some (Inl e, w1)
                 | (_, rs) \<Rightarrow> Some (Inr (Passes rs), w1))
         | Presign cid ttl base \<Rightarrow>
             Some (map_sum id Link
                     (cmd_presign (hex_enc (mc_codecs M)) (load_identity (mc_env M) (mc_data_dir M) (mc_identity M))
                        cid ttl base (mc_now M w)), w)
         | Serve max_mb ttl public_cids http presign_keys \<Rightarrow>
             (case cmd_serve (mc_verify M) (mc_sdk M (cl_api cli)) (mc_codecs M) (mc_iam M) (mc_hit_ratio M)
                     (mc_node_id M (cl_api cli)) (load_roots (hex_dec (mc_codecs M)) (mc_env M) (mc_data_dir M) (mc_text M))
                     (serve_max_bytes max_mb) ttl public_cids (http \<noteq> None) presign_keys rounds reqs w of
                None \<Rightarrow> None
              | Some (Inl e) \<Rightarrow> Some (Inl e, w)
              | Some (Inr s) \<Rightarrow> Some (Inr (Served s), served_world s)))"

text \<open>What \<open>main\<close> does for each command.\<close>

lemma run_main_Put:
  "cl_cmd cli = Put f replication ttl priv label tags arg no_rep \<Longrightarrow> run_main M cli n rounds reqs w =
     map_option (finish (\<lambda>u. Finished))
       (cmd_put (mc_ops M (cl_api cli) (catalog_path M cli) (caps_resolve arg (mc_env M) (mc_config_dir M) (mc_text M)))
          (case mc_read M f w of Inl e \<Rightarrow> Inl (''reading '' @ f) | Inr bs \<Rightarrow> Inr bs)
          replication ttl priv label tags no_rep w)"
  by (simp only: run_main_def Let_def command.case)

lemma run_main_Get:
  "cl_cmd cli = Get cid out h \<Longrightarrow> run_main M cli n rounds reqs w =
     map_option (finish (\<lambda>u. Finished)) (cmd_get (mc_ops M (cl_api cli) (catalog_path M cli) []) cid out h w)"
  by (simp only: run_main_def Let_def command.case)

lemma run_main_Ls:
  "cl_cmd cli = Ls \<Longrightarrow> run_main M cli n rounds reqs w =
     Some (finish Listed (cmd_ls (mc_ops M (cl_api cli) (catalog_path M cli) []) (catalog_path M cli) w))"
  by (simp only: run_main_def Let_def command.case)

lemma run_main_Purge:
  "cl_cmd cli = Purge cid tag edge arg keep \<Longrightarrow> run_main M cli n rounds reqs w =
     map_option (finish (\<lambda>u. Finished))
       (cmd_purge (mc_ops M (cl_api cli) (catalog_path M cli) (caps_resolve arg (mc_env M) (mc_config_dir M) (mc_text M)))
          cid tag edge keep w)"
  by (simp only: run_main_def Let_def command.case)

lemma run_main_Forget:
  "cl_cmd cli = Forget cid \<Longrightarrow> run_main M cli n rounds reqs w =
     Some (finish (\<lambda>u. Finished) (cmd_forget (mc_ops M (cl_api cli) (catalog_path M cli) []) cid w))"
  by (simp only: run_main_def Let_def command.case)

lemma run_main_Status:
  "cl_cmd cli = Status cid arg \<Longrightarrow> run_main M cli n rounds reqs w =
     map_option (\<lambda>(live, w1). (Inr (Live live), w1))
       (cmd_status (mc_ops M (cl_api cli) (catalog_path M cli) (caps_resolve arg (mc_env M) (mc_config_dir M) (mc_text M))) cid w)"
  by (simp only: run_main_def Let_def command.case)

lemma run_main_Maintain:
  "cl_cmd cli = Maintain arg watch \<Longrightarrow> run_main M cli n rounds reqs w =
     (let (rs, w1) = cmd_maintain (maintain_ops.truncate (mc_ops M (cl_api cli) (catalog_path M cli)
            (caps_resolve arg (mc_env M) (mc_config_dir M) (mc_text M)))) (mc_sleep M) watch n w
      in case (watch, rs) of (None, [Inl e]) \<Rightarrow> Some (Inl e, w1) | (_, rs) \<Rightarrow> Some (Inr (Passes rs), w1))"
  by (simp only: run_main_def Let_def command.case)

lemma run_main_Presign:
  "cl_cmd cli = Presign cid ttl base \<Longrightarrow> run_main M cli n rounds reqs w =
     Some (map_sum id Link
             (cmd_presign (hex_enc (mc_codecs M)) (load_identity (mc_env M) (mc_data_dir M) (mc_identity M))
                cid ttl base (mc_now M w)), w)"
  by (simp only: run_main_def Let_def command.case)

section \<open>Well-formed catalogs\<close>

text \<open>An edge name the commands can print.\<close>

definition printable :: "string \<Rightarrow> bool" where
  "printable e \<longleftrightarrow> short_id e \<noteq> None"

definition sound :: "catalog \<Rightarrow> bool" where
  "sound c \<longleftrightarrow> cat_ok c \<and> (\<forall>k e. cat_get k c = Some e \<longrightarrow> list_all printable (edge_ids e))"

lemma soundD: "sound c \<Longrightarrow> cat_ok c" "sound c \<Longrightarrow> cat_get k c = Some e \<Longrightarrow> list_all printable (edge_ids e)"
  by (auto simp: sound_def)

lemma sound_items: "sound c \<Longrightarrow> (k, e) \<in> set (cat_items c) \<Longrightarrow> list_all printable (edge_ids e)"
  using cat_in_items [OF soundD(1), of c k e] soundD(2) by blast

lemma sound_default: "sound default_catalog"
  by (simp add: sound_def cat_ok_default) (simp add: default_catalog_def cat_get_def bt_get_def)

lemma sound_stamped [simp]: "sound (stamped c) = sound c"
  by (simp add: sound_def)

lemma sound_upsert: "sound c \<Longrightarrow> list_all printable (edge_ids e) \<Longrightarrow> sound (upsert e c)"
  by (auto simp: sound_def cat_ok_upsert cat_get_upsert split: if_splits)

lemma sound_remove: "sound c \<Longrightarrow> sound (snd (cat_remove cid c))"
  by (auto simp: sound_def cat_ok_remove cat_get_remove split: if_splits)

lemma sound_modify:
  assumes "sound c" "\<And>e. ct_cid (ce_content (f e)) = ct_cid (ce_content e)"
    and "\<And>e. list_all printable (edge_ids e) \<Longrightarrow> list_all printable (edge_ids (f e))"
  shows "sound (cat_modify cid f c)"
  using assms cat_ok_modify [OF soundD(1) [OF assms(1)] assms(2)]
  by (auto simp: sound_def cat_get_modify split: if_splits)

lemma sound_health: "sound c \<Longrightarrow> sound (cat_modify cid (set_health adv) c)"
  by (rule sound_modify) (auto simp: set_health_def edge_ids_def o_def)

lemma sound_commit:
  "sound c \<Longrightarrow> \<forall>(k, edges) \<in> set rs. list_all (\<lambda>r. printable (er_edge r)) edges \<Longrightarrow> sound (commit_results rs c)"
proof (induction rs arbitrary: c)
  case (Cons r rs)
  obtain cid edges where r: "r = (cid, edges)" by (cases r)
  have "sound (cat_modify cid (\<lambda>e. e\<lparr>ce_edges := edges\<rparr>) c)"
    using Cons.prems r by (intro sound_modify) (auto simp: edge_ids_def list_all_iff)
  with Cons r show ?case by (simp add: commit_results_Cons)
qed (simp add: commit_results_def)

section \<open>What the commands rely on\<close>

text \<open>
  \<open>good\<close> is the typing of the world. Reading the catalog gives a well-formed one or an error; the node and
  the edges keep the world well-formed and answer with names that can be printed; a range read does not
  panic; a file written elsewhere than at \<open>path\<close> leaves the catalog alone.
\<close>

locale read_world =
  fixes ops :: "('w, 'm) cli_ops_scheme" and good :: "'w \<Rightarrow> bool" and path :: string
  assumes load: "good w \<Longrightarrow> mo_load ops w = (l, w') \<Longrightarrow> good w' \<and> (\<forall>c. l = Inr c \<longrightarrow> sound c)"
    and get: "good w \<Longrightarrow> co_get ops cid w = (b, w') \<Longrightarrow> good w'"
    and range: "good w \<Longrightarrow> \<exists>x w'. co_get_range ops cid h w = Some (x, w') \<and> good w'"
    and writes: "good w \<Longrightarrow> f \<noteq> path \<Longrightarrow> co_write ops f bs w = (u, w') \<Longrightarrow> good w'"
begin

lemma get_keeps:
  assumes "good w" "(case out of None \<Rightarrow> cid @ ''.bin'' | Some p \<Rightarrow> p) \<noteq> path"
  shows "\<exists>r w'. cmd_get ops cid out range_header w = Some (r, w') \<and> good w'"
proof -
  let ?p = "case out of None \<Rightarrow> cid @ ''.bin'' | Some p \<Rightarrow> p"
  have wrote: "good (snd (with_context m (co_write ops ?p bs v)))" if "good v" for m bs v
    using writes [OF that assms(2)] by (cases "co_write ops ?p bs v") (auto simp: with_context_def split: sum.split)
  have some: "\<exists>r w'. Some x = Some (r, w') \<and> good w'" if "good (snd x)" for x :: "unit result \<times> 'w"
    using that by (cases x) simp
  show ?thesis
  proof (cases range_header)
    case None
    obtain b w1 where b: "co_get ops cid w = (b, w1)" by fastforce
    note g = get [OF assms(1) b]
    show ?thesis
    proof (cases b)
      case (Inl e)
      with None b g show ?thesis by (simp add: cmd_get_def Let_def)
    next
      case (Inr bs)
      with None b some [OF wrote [OF g]] show ?thesis by (simp add: cmd_get_def Let_def)
    qed
  next
    case (Some h)
    obtain x w1 where x: "co_get_range ops cid (Some h) w = Some (x, w1)" "good w1"
      using range [OF assms(1)] by blast
    show ?thesis
    proof (cases x)
      case (Inl e)
      with Some x show ?thesis by (simp add: cmd_get_def Let_def)
    next
      case (Inr y)
      with Some x some [OF wrote [OF x(2)]] show ?thesis
        by (cases y) (simp add: cmd_get_def Let_def)
    qed
  qed
qed

lemma ls_keeps: "good w \<Longrightarrow> good (snd (cmd_ls ops p w))"
  using load [of w] by (cases "mo_load ops w"; cases "fst (mo_load ops w)") (auto simp: cmd_ls_def)

end

locale command_world = read_world +
  assumes update: "good w \<Longrightarrow> (\<And>c. sound c \<Longrightarrow> sound (f c)) \<Longrightarrow> mo_update ops f w = (r, w') \<Longrightarrow> good w'"
    and probe: "good w \<Longrightarrow> mo_probe ops e cid w = (q, w') \<Longrightarrow> good w'"
    and copy: "good w \<Longrightarrow> mo_replicate ops e cid len ttl w = (s, w') \<Longrightarrow> good w'"
    and put: "good w \<Longrightarrow> co_put ops bs w = (p, w') \<Longrightarrow> good w'"
    and purge: "good w \<Longrightarrow> co_purge ops e cid w = (g, w') \<Longrightarrow> good w'"
    and pick: "good w \<Longrightarrow> mo_pick ops n ex w = (es, w') \<Longrightarrow> good w' \<and> list_all printable (unwrap_or [] es)"
    and find: "good w \<Longrightarrow> co_find ops sv w = (as, w') \<Longrightarrow> good w' \<and> list_all printable (unwrap_or [] as)"
begin

lemma put_edges_keeps:
  "good w \<Longrightarrow> list_all printable picks \<Longrightarrow> list_all (\<lambda>r. printable (er_edge r)) edges \<Longrightarrow>
     \<exists>edges' w'. put_edges ops cid len ttl picks edges w = Some (edges', w') \<and> good w' \<and>
       list_all (\<lambda>r. printable (er_edge r)) edges'"
proof (induction picks arbitrary: edges w)
  case (Cons e es)
  obtain s w1 where s: "mo_replicate ops e cid len ttl w = (s, w1)" by fastforce
  note g = copy [OF Cons.prems(1) s]
  show ?case
  proof (cases s)
    case (Inl x)
    with s Cons.IH [OF g _ Cons.prems(3)] Cons.prems(2) show ?thesis by simp
  next
    case (Inr r)
    let ?edges = "if cr_cached r then edges @ [\<lparr>er_edge = e, er_healthy = True\<rparr>] else edges"
    have "list_all (\<lambda>r. printable (er_edge r)) ?edges" using Cons.prems(2,3) by simp
    from Cons.IH [OF g _ this] s Inr Cons.prems(2) show ?thesis by (simp add: printable_def)
  qed
qed simp

lemma put_keeps:
  assumes "good w"
  shows "\<exists>r w'. cmd_put ops disk replication ttl priv label tags no_replicate w = Some (r, w') \<and> good w'"
proof (cases disk)
  case (Inr bs)
  obtain p w1 where p: "co_put ops bs w = (p, w1)" by fastforce
  note g1 = put [OF assms p]
  show ?thesis
  proof (cases p)
    case (Inl e)
    with Inr p g1 show ?thesis by (simp add: cmd_put_def)
  next
    case published: (Inr pub)
    let ?copies = "if \<not> no_replicate \<and> replication > 0 then
        (let (pr, w2) = mo_pick ops (unat replication) [] w1
         in put_edges ops (pt_cid pub) (pt_bytes_len pub) ttl (unwrap_or [] pr) [] w2)
      else Some ([], w1)"
    have "\<exists>edges w3. ?copies = Some (edges, w3) \<and> good w3 \<and> list_all (\<lambda>r. printable (er_edge r)) edges"
    proof (cases "\<not> no_replicate \<and> replication > 0")
      case True
      obtain q w2 where q: "mo_pick ops (unat replication) [] w1 = (q, w2)" by fastforce
      from put_edges_keeps [OF conjunct1 [OF pick [OF g1 q]] conjunct2 [OF pick [OF g1 q]], of "[]"] True q
      show ?thesis by simp
    qed (use g1 in auto)
    then obtain edges w3 where c: "?copies = Some (edges, w3)" "good w3" "list_all (\<lambda>r. printable (er_edge r)) edges"
      by blast
    let ?e = "\<lparr>ce_content = \<lparr>ct_cid = pt_cid pub, ct_bytes_len = pt_bytes_len pub,
         ct_access = (if priv then CatPrivate else CatPublic), ct_replication = replication, ct_ttl_secs = ttl,
         ct_label = label, ct_tags = tags\<rparr>, ce_edges = edges\<rparr>"
    have names: "list_all printable (edge_ids ?e)" using c(3) by (simp add: edge_ids_def list_all_iff)
    obtain r w4 where u: "mo_update ops (upsert ?e) w3 = (r, w4)" by fastforce
    have "cmd_put ops disk replication ttl priv label tags no_replicate w = Some (r, w4)"
      using Inr p published c(1) u by (simp add: cmd_put_def Let_def)
    with update [OF c(2) sound_upsert [OF _ names] u] show ?thesis by blast
  qed
qed (use assms in \<open>simp add: cmd_put_def\<close>)

lemma targets_keeps:
  assumes "good w" "\<forall>e. edge = Some e \<longrightarrow> printable e" "purge_targets ops edge cid w = (t, w')"
  shows "good w' \<and> list_all printable (unwrap_or [] t)"
proof (cases edge)
  case None
  obtain l w1 where l: "mo_load ops w = (l, w1)" by fastforce
  obtain a w2 where a: "co_find ops (service_for cid) w1 = (a, w2)" by fastforce
  have g: "good w1" "good w2" "list_all printable (unwrap_or [] a)" "\<And>c. l = Inr c \<Longrightarrow> sound c"
    using load [OF assms(1) l] find [OF _ a] by auto
  have "list_all printable (case cat_get cid c of None \<Rightarrow> [] | Some e \<Rightarrow> edge_ids e)" if "l = Inr c" for c
    using soundD(2) [OF g(4) [OF that], of cid] by (cases "cat_get cid c") auto
  with None l a g assms(3) show ?thesis
    by (cases l; cases a) (auto simp: purge_targets_def unwrap_or_def list_all_iff set_union_ids)
qed (use assms in \<open>auto simp: purge_targets_def unwrap_or_def\<close>)

lemma purge_edges_keeps: "good w \<Longrightarrow> list_all printable es \<Longrightarrow> \<exists>w'. purge_edges ops cid es w = Some w' \<and> good w'"
proof (induction es arbitrary: w)
  case (Cons e es)
  obtain g w1 where g: "co_purge ops e cid w = (g, w1)" by fastforce
  from Cons.IH [OF purge [OF Cons.prems(1) g]] Cons.prems(2) g show ?case by (auto simp: printable_def)
qed simp

lemma purge_cids_keeps:
  assumes "\<forall>e. edge = Some e \<longrightarrow> printable e"
  shows "good w \<Longrightarrow> \<exists>r w'. purge_cids ops edge keep cids w = Some (r, w') \<and> good w'"
proof (induction cids arbitrary: w)
  case (Cons cid cids)
  obtain t w1 where t: "purge_targets ops edge cid w = (t, w1)" by fastforce
  note g1 = targets_keeps [OF Cons.prems assms t]
  show ?case
  proof (cases t)
    case (Inl e)
    with t g1 show ?thesis by simp
  next
    case (Inr es)
    then obtain w2 where w2: "purge_edges ops cid es w1 = Some w2" "good w2"
      using purge_edges_keeps [of w1 es cid] g1 by (auto simp: unwrap_or_def)
    obtain r w3 where r: "(if keep then (Inr (), w2) else mo_update ops (\<lambda>c. snd (cat_remove cid c)) w2) = (r, w3)"
      by fastforce
    have "good w3"
      using r w2(2) update [OF w2(2) sound_remove] by (auto split: if_splits)
    with t Inr w2 r Cons.IH [of w3] show ?thesis by (cases r) simp_all
  qed
qed simp

lemma purge_keeps:
  assumes "good w" "\<forall>e. edge = Some e \<longrightarrow> printable e"
  shows "\<exists>r w'. cmd_purge ops cid tag edge keep w = Some (r, w') \<and> good w'"
proof (cases cid)
  case None
  show ?thesis
  proof (cases tag)
    case (Some t)
    obtain l w1 where l: "mo_load ops w = (l, w1)" by fastforce
    have "good w1" using load [OF assms(1) l] by blast
    with None Some l purge_cids_keeps [OF assms(2)] show ?thesis
      by (cases l) (auto simp: cmd_purge_def Let_def)
  qed (use None assms in \<open>simp add: cmd_purge_def\<close>)
qed (use purge_cids_keeps [OF assms(2,1)] in \<open>simp add: cmd_purge_def del: purge_cids.simps\<close>)

lemma forget_keeps: "good w \<Longrightarrow> good (snd (cmd_forget ops cid w))"
  using update [OF _ sound_remove] by (cases "cmd_forget ops cid w") (auto simp: cmd_forget_def)

lemma probe_edges_keeps:
  "good w \<Longrightarrow> list_all printable es \<Longrightarrow> \<exists>n w'. probe_edges ops cid es w = Some (n, w') \<and> good w'"
proof (induction es arbitrary: w)
  case (Cons e es)
  obtain q w1 where q: "mo_probe ops e cid w = (q, w1)" by fastforce
  obtain n w' where "probe_edges ops cid es w1 = Some (n, w')" "good w'"
    using Cons.IH [OF probe [OF Cons.prems(1) q]] Cons.prems(2) by auto
  with Cons.prems(2) q show ?case by (simp add: printable_def Let_def)
qed simp

lemma status_keeps:
  assumes "good w"
  shows "\<exists>live w'. cmd_status ops cid w = Some (live, w') \<and> good w'"
proof -
  obtain a w1 where a: "co_find ops (service_for cid) w = (a, w1)" by fastforce
  obtain l w2 where l: "mo_load ops w1 = (l, w2)" by fastforce
  have g: "good w2" "list_all printable (unwrap_or [] a)" "\<And>c. l = Inr c \<Longrightarrow> sound c"
    using find [OF assms a] load [OF _ l] by auto
  let ?known = "case l of Inl e \<Rightarrow> unwrap_or [] a
      | Inr c \<Rightarrow> (case cat_get cid c of None \<Rightarrow> unwrap_or [] a | Some entry \<Rightarrow> union_ids (unwrap_or [] a) (edge_ids entry))"
  have "list_all printable ?known"
    using g(2) soundD(2) [OF g(3), of _ cid] by (auto simp: list_all_iff set_union_ids split: sum.split option.split)
  then obtain n w3 where p: "probe_edges ops cid ?known w2 = Some (n, w3)" "good w3"
    using probe_edges_keeps [OF g(1)] by blast
  obtain r w4 where u: "mo_update ops (cat_modify cid (set_health (unwrap_or [] a))) w3 = (r, w4)" by fastforce
  have "good w4" by (rule update [OF p(2) sound_health u])
  moreover have "cmd_status ops cid w = (if ?known = [] then Some (None, w2) else Some (Some n, w4))"
    unfolding cmd_status_def Let_def a l prod.case p(1) option.case u ..
  ultimately show ?thesis using g(1) by (cases "?known = []") auto
qed

text \<open>A maintenance pass only reads the operations of \<open>maintain_ops\<close>.\<close>

lemma truncated [simp]:
  "mo_load (maintain_ops.truncate ops) = mo_load ops" "mo_probe (maintain_ops.truncate ops) = mo_probe ops"
  "mo_pick (maintain_ops.truncate ops) = mo_pick ops" "mo_replicate (maintain_ops.truncate ops) = mo_replicate ops"
  "mo_update (maintain_ops.truncate ops) = mo_update ops"
  by (simp_all add: maintain_ops.truncate_def)

lemma probe_all_keeps: "good w \<Longrightarrow> good (snd (probe_all (maintain_ops.truncate ops) cid es w))"
proof (induction es arbitrary: w)
  case (Cons e es)
  obtain q w1 where q: "mo_probe ops e cid w = (q, w1)" by fastforce
  from Cons.IH [OF probe [OF Cons.prems q]] q show ?case by (simp add: Let_def case_prod_beta)
qed simp

lemma recruit_keeps: "good w \<Longrightarrow> good (snd (recruit_loop (maintain_ops.truncate ops) con cid picks ex edges got w))"
proof (induction picks arbitrary: ex edges got w)
  case (Cons p picks)
  obtain s w1 where s: "mo_replicate ops p cid (ct_bytes_len con) (ct_ttl_secs con) w = (s, w1)" by fastforce
  from Cons.IH copy [OF Cons.prems s] Cons.prems s show ?case by (cases s) simp_all
qed simp

lemma reconcile_keeps:
  assumes "good w" "list_all printable (edge_ids entry)"
    and "reconcile (maintain_ops.truncate ops) cid entry report w = ((edges, report'), w')"
  shows "good w' \<and> list_all (\<lambda>r. printable (er_edge r)) edges"
proof -
  let ?ops = "maintain_ops.truncate ops" and ?con = "ce_content entry" and ?healthy = "\<lambda>e. \<lparr>er_edge = e, er_healthy = True\<rparr>"
  obtain probes w1 where pa: "probe_all ?ops cid (edge_ids entry) w = (probes, w1)" by fastforce
  let ?plan = "plan_entry cid (ct_replication ?con) probes"
  have g1: "good w1" using probe_all_keeps [OF assms(1), of cid "edge_ids entry"] pa by simp
  have "edge_ids entry = map fst probes" using fst_probe_all [of ?ops cid "edge_ids entry" w] pa by simp
  then have "set (ep_healthy ?plan) \<subseteq> set (edge_ids entry)" by (auto simp: plan_entry_def image_iff)
  then have kept: "list_all printable (ep_healthy ?plan)" using assms(2) by (auto simp: list_all_iff)
  show ?thesis
  proof (cases "ep_recruit ?plan > 0")
    case False
    with assms(3) pa g1 kept show ?thesis by (auto simp: reconcile_def Let_def list_all_iff)
  next
    case True
    let ?ex = "sort (remdups (edge_ids entry))"
    obtain pr w2 where pick': "mo_pick ops (ep_recruit ?plan) ?ex w1 = (pr, w2)" by fastforce
    note g2 = pick [OF g1 pick']
    obtain new where new: "fst (recruit_loop ?ops ?con cid (unwrap_or [] pr) ?ex (map ?healthy (ep_healthy ?plan)) 0 w2)
        = (map ?healthy (ep_healthy ?plan) @ map ?healthy new, 0 + length new)" "set new \<subseteq> set (unwrap_or [] pr)"
      using recruit_loop_new [of ?ops ?con cid "unwrap_or [] pr" ?ex "map ?healthy (ep_healthy ?plan)" 0 w2] by blast
    have "list_all printable new" using new(2) g2 by (auto simp: list_all_iff)
    with assms(3) pa pick' new(1) True kept recruit_keeps [OF conjunct1 [OF g2]] show ?thesis
      by (auto simp: reconcile_def Let_def case_prod_beta list_all_iff)
  qed
qed

lemma reconcile_all_keeps:
  "good w \<Longrightarrow> \<forall>(k, e) \<in> set items. list_all printable (edge_ids e) \<Longrightarrow>
     reconcile_all (maintain_ops.truncate ops) items report w = ((rs, report'), w') \<Longrightarrow>
     good w' \<and> (\<forall>(k, edges) \<in> set rs. list_all (\<lambda>r. printable (er_edge r)) edges)"
proof (induction items arbitrary: report report' w w' rs)
  case (Cons x items)
  obtain cid entry where x: "x = (cid, entry)" by (cases x)
  obtain edges report1 w1 where r: "reconcile (maintain_ops.truncate ops) cid entry report w = ((edges, report1), w1)"
    by (metis prod.collapse)
  obtain rest report2 w2 where a: "reconcile_all (maintain_ops.truncate ops) items report1 w1 = ((rest, report2), w2)"
    by (metis prod.collapse)
  have "good w1 \<and> list_all (\<lambda>r. printable (er_edge r)) edges"
    using reconcile_keeps [OF Cons.prems(1) _ r] Cons.prems(2) x by simp
  with Cons.IH [OF _ _ a] Cons.prems(2,3) x r a show ?case by (auto simp: Let_def)
qed simp

lemma run_once_keeps:
  assumes "good w"
  shows "good (snd (run_once (maintain_ops.truncate ops) w))"
proof -
  obtain l w1 where l: "mo_load ops w = (l, w1)" by fastforce
  note g1 = load [OF assms l]
  show ?thesis
  proof (cases l)
    case (Inr c)
    let ?r0 = "\<lparr>mr_examined = 0, mr_recruited = 0, mr_shortfalls = 0\<rparr>"
    obtain rs report w2 where a: "reconcile_all (maintain_ops.truncate ops) (cat_items c) ?r0 w1 = ((rs, report), w2)"
      by (metis prod.collapse)
    have "\<forall>(k, e) \<in> set (cat_items c). list_all printable (edge_ids e)" using g1 Inr sound_items by blast
    with reconcile_all_keeps [OF conjunct1 [OF g1] _ a]
    have g2: "good w2" "\<forall>(k, edges) \<in> set rs. list_all (\<lambda>r. printable (er_edge r)) edges" by auto
    obtain r w3 where u: "mo_update ops (commit_results rs) w2 = (r, w3)" by fastforce
    have "good w3" by (rule update [OF g2(1) sound_commit [OF _ g2(2)] u])
    with l Inr a u show ?thesis by (simp add: run_once_def split: sum.split)
  qed (use l g1 in \<open>simp add: run_once_def\<close>)
qed

lemma passes_keep:
  assumes sleep: "\<And>i v. good v \<Longrightarrow> good (sleep i v)"
  shows "good w \<Longrightarrow> good (snd (run_passes (maintain_ops.truncate ops) sleep interval n w))"
  by (induction n arbitrary: w) (simp_all add: Let_def case_prod_beta run_once_keeps sleep)

lemma maintain_keeps:
  assumes "good w" "\<And>i v. good v \<Longrightarrow> good (sleep i v)"
  shows "good (snd (cmd_maintain (maintain_ops.truncate ops) sleep watch n w))"
  using passes_keep [OF assms(2,1)] run_once_keeps [OF assms(1)]
  by (simp add: cmd_maintain_def Let_def case_prod_beta split: option.split)

end

section \<open>A machine with a catalog file\<close>

text \<open>
  What the node and the edges answer may depend on the whole world, in which every probe, copy and purge
  request is remembered; a range read returns. Files are written where they are named.
\<close>

record site_net =
  sn_probe :: "string \<Rightarrow> string \<Rightarrow> cli_disk \<Rightarrow> status_resp result"
  sn_pick :: "nat \<Rightarrow> string list \<Rightarrow> cli_disk \<Rightarrow> string list result"
  sn_copy :: "string \<Rightarrow> string \<Rightarrow> cli_disk \<Rightarrow> cache_resp result"
  sn_put :: "bytes \<Rightarrow> cli_disk \<Rightarrow> put_result result"
  sn_get :: "string \<Rightarrow> cli_disk \<Rightarrow> bytes result"
  sn_range :: "string \<Rightarrow> string option \<Rightarrow> cli_disk \<Rightarrow> (bytes \<times> byte_range \<times> u64) result"
  sn_find :: "string \<Rightarrow> cli_disk \<Rightarrow> string list result"
  sn_purge :: "string \<Rightarrow> string \<Rightarrow> cli_disk \<Rightarrow> purge_resp result"

definition tell :: "string \<Rightarrow> string \<Rightarrow> cli_disk \<Rightarrow> cli_disk" where
  "tell edge cid w = w\<lparr>cd_sent := cd_sent w @ [(edge, cid)]\<rparr>"

definition site_ops ::
  "(bytes \<Rightarrow> catalog result) \<Rightarrow> (catalog \<Rightarrow> bytes) \<Rightarrow> string \<Rightarrow> nat \<Rightarrow> site_net \<Rightarrow> cli_disk cli_ops" where
  "site_ops from_json to_json path pid net =
     \<lparr>mo_load = (\<lambda>w. (load_catalog from_json path (read_file (cd_dir w) path), w)),
      mo_probe = (\<lambda>e cid w. (sn_probe net e cid w, tell e cid w)),
      mo_pick = (\<lambda>n ex w. (sn_pick net n ex w, w)),
      mo_replicate = (\<lambda>e cid len ttl w. (sn_copy net e cid w, tell e cid w)),
      mo_update = (\<lambda>f w. let (r, d) = update_file from_json to_json path pid f (cd_dir w)
                          in (r, w\<lparr>cd_dir := d\<rparr>)),
      co_put = (\<lambda>bs w. (sn_put net bs w, w)), co_get = (\<lambda>cid w. (sn_get net cid w, w)),
      co_get_range = (\<lambda>cid h w. Some (sn_range net cid h w, w)),
      co_find = (\<lambda>s w. (sn_find net s w, w)),
      co_purge = (\<lambda>e cid w. (sn_purge net e cid w, tell e cid w)),
      co_write = (\<lambda>f bs w. (Inr (), w\<lparr>cd_dir := (cd_dir w)(f \<mapsto> bs)\<rparr>))\<rparr>"

definition net_named :: "site_net \<Rightarrow> bool" where
  "net_named net \<longleftrightarrow>
     (\<forall>n ex w. list_all printable (unwrap_or [] (sn_pick net n ex w))) \<and>
     (\<forall>s w. list_all printable (unwrap_or [] (sn_find net s w)))"

definition world_ok :: "(bytes \<Rightarrow> catalog result) \<Rightarrow> (catalog \<Rightarrow> bytes) \<Rightarrow> string \<Rightarrow> cli_disk \<Rightarrow> bool" where
  "world_ok from_json to_json path w \<longleftrightarrow>
     disk_ok from_json to_json path w \<and> sound (disk_catalog from_json path w)"

lemma world_same_file:
  assumes "cd_dir w' path = cd_dir w path"
  shows "world_ok from_json to_json path w' = world_ok from_json to_json path w"
    and "disk_catalog from_json path w' = disk_catalog from_json path w"
  using assms by (simp_all add: world_ok_def disk_ok_def disk_catalog_def read_file_def)

lemma tell_dir [simp]: "cd_dir (tell e cid w) = cd_dir w"
  by (simp add: tell_def)

lemma world_update:
  assumes "world_ok from_json to_json path w" "\<And>c. sound c \<Longrightarrow> sound (f c)"
    and "update_file from_json to_json path pid f (cd_dir w) = (r, d)"
  shows "world_ok from_json to_json path (w\<lparr>cd_dir := d\<rparr>)"
proof -
  have ok: "disk_ok from_json to_json path w" using assms(1) by (simp add: world_ok_def)
  note u = update_file_ok [OF ok assms(3)]
  have "sound (f (disk_catalog from_json path w))" using assms(1,2) by (simp add: world_ok_def)
  with u ok show ?thesis by (simp add: world_ok_def disk_ok_def disk_catalog_def unwrap_or_def)
qed

lemma site_reads:
  "read_world (site_ops from_json to_json path pid net)
     (\<lambda>w. world_ok from_json to_json path w \<and> disk_catalog from_json path w = before) path"
proof
  fix w w' :: cli_disk and f cid :: string and h :: "string option" and bs :: bytes and l :: "catalog result"
    and b :: "bytes result" and u :: "unit result"
  let ?ops = "site_ops from_json to_json path pid net"
  assume good: "world_ok from_json to_json path w \<and> disk_catalog from_json path w = before"
  show "(world_ok from_json to_json path w' \<and> disk_catalog from_json path w' = before) \<and> (\<forall>c. l = Inr c \<longrightarrow> sound c)"
    if "mo_load ?ops w = (l, w')"
    using that good by (auto simp: site_ops_def world_ok_def disk_ok_def)
  show "world_ok from_json to_json path w' \<and> disk_catalog from_json path w' = before" if "co_get ?ops cid w = (b, w')"
    using that good by (simp add: site_ops_def)
  show "\<exists>x w'. co_get_range ?ops cid h w = Some (x, w') \<and>
      world_ok from_json to_json path w' \<and> disk_catalog from_json path w' = before"
    using good by (simp add: site_ops_def)
  show "world_ok from_json to_json path w' \<and> disk_catalog from_json path w' = before"
    if "f \<noteq> path" "co_write ?ops f bs w = (u, w')"
    using that good world_same_file [of w' path w] by (auto simp: site_ops_def)
qed

lemma site_world:
  "command_world (site_ops from_json to_json path pid net) (\<lambda>w. net_named net \<and> world_ok from_json to_json path w) path"
proof
  fix w w' :: cli_disk and f e cid s :: string and h :: "string option" and bs :: bytes and l :: "catalog result"
    and b :: "bytes result" and u r :: "unit result" and g :: "catalog \<Rightarrow> catalog" and q :: "status_resp result"
    and cr :: "cache_resp result" and len ttl :: u64 and pr :: "put_result result" and pg :: "purge_resp result"
    and n :: nat and ex :: "string list" and es :: "string list result"
  let ?ops = "site_ops from_json to_json path pid net"
  let ?good = "\<lambda>w. net_named net \<and> world_ok from_json to_json path w"
  assume good: "?good w"
  have same: "?good v" if "cd_dir v path = cd_dir w path" for v
    using good world_same_file(1) [OF that] by simp
  show "?good w' \<and> (\<forall>c. l = Inr c \<longrightarrow> sound c)" if "mo_load ?ops w = (l, w')"
    using that good by (auto simp: site_ops_def world_ok_def disk_ok_def)
  show "?good w'" if "co_get ?ops cid w = (b, w')" using that good by (simp add: site_ops_def)
  show "\<exists>x w'. co_get_range ?ops cid h w = Some (x, w') \<and> ?good w'" using good by (simp add: site_ops_def)
  show "?good w'" if "f \<noteq> path" "co_write ?ops f bs w = (u, w')"
    by (rule same) (use that in \<open>auto simp: site_ops_def\<close>)
  show "?good w'" if "\<And>c. sound c \<Longrightarrow> sound (g c)" "mo_update ?ops g w = (r, w')"
    using that good world_update [OF _ that(1), of from_json to_json path w] by (auto simp: site_ops_def split: prod.splits)
  show "?good w'" if "mo_probe ?ops e cid w = (q, w')" by (rule same) (use that in \<open>auto simp: site_ops_def\<close>)
  show "?good w'" if "mo_replicate ?ops e cid len ttl w = (cr, w')" by (rule same) (use that in \<open>auto simp: site_ops_def\<close>)
  show "?good w'" if "co_put ?ops bs w = (pr, w')" using that good by (simp add: site_ops_def)
  show "?good w'" if "co_purge ?ops e cid w = (pg, w')" by (rule same) (use that in \<open>auto simp: site_ops_def\<close>)
  show "?good w' \<and> list_all printable (unwrap_or [] es)" if "mo_pick ?ops n ex w = (es, w')"
    using that good by (auto simp: site_ops_def net_named_def)
  show "?good w' \<and> list_all printable (unwrap_or [] es)" if "co_find ?ops s w = (es, w')"
    using that good by (auto simp: site_ops_def net_named_def)
qed

interpretation reading: read_world "site_ops from_json to_json path pid net"
  "\<lambda>w. world_ok from_json to_json path w \<and> disk_catalog from_json path w = before" path
  for from_json to_json path pid net before
  by (rule site_reads)

interpretation site: command_world "site_ops from_json to_json path pid net"
  "\<lambda>w. net_named net \<and> world_ok from_json to_json path w" path
  for from_json to_json path pid net
  by (rule site_world)

section \<open>The commands are safe\<close>

text \<open>
  What a command may be given: an edge name that can be printed, another file than the catalog to write to.
  \<open>serve\<close> is never told where the catalog is.
\<close>

fun args_ok :: "string \<Rightarrow> command \<Rightarrow> bool" where
  "args_ok path (Purge cid tag edge caps keep) \<longleftrightarrow> (\<forall>e. edge = Some e \<longrightarrow> printable e)"
| "args_ok path (Get cid out h) \<longleftrightarrow> (case out of None \<Rightarrow> cid @ ''.bin'' | Some p \<Rightarrow> p) \<noteq> path"
| "args_ok path (Serve m t p h k) \<longleftrightarrow> False"
| "args_ok path _ \<longleftrightarrow> True"

fun only_reads :: "command \<Rightarrow> bool" where
  "only_reads (Get cid out h) = True"
| "only_reads Ls = True"
| "only_reads (Presign cid ttl base) = True"
| "only_reads _ = False"

lemma maintain_ends:
  "\<exists>r. (case (watch, rs) of (None, [Inl e]) \<Rightarrow> Some (Inl e, v) | (_, rs) \<Rightarrow> Some (Inr (Passes rs), v)) = Some (r, v)"
  by (cases watch; cases rs rule: remdups_adj.cases) (auto split: sum.split)

lemma reading_commands_keep:
  assumes "mc_ops M = (\<lambda>api path chain. site_ops from_json to_json path pid (net api chain))"
    and "\<And>api chain. net_named (net api chain)" and "world_ok from_json to_json (catalog_path M cli) w"
    and "args_ok (catalog_path M cli) (cl_cmd cli)" and "only_reads (cl_cmd cli)"
  shows "\<exists>r w'. run_main M cli n rounds reqs w = Some (r, w') \<and>
    world_ok from_json to_json (catalog_path M cli) w' \<and>
    disk_catalog from_json (catalog_path M cli) w' = disk_catalog from_json (catalog_path M cli) w"
proof -
  let ?path = "catalog_path M cli"
  let ?ok = "world_ok from_json to_json ?path"
  let ?same = "\<lambda>v. ?ok v \<and> disk_catalog from_json ?path v = disk_catalog from_json ?path w"
  let ?chain = "\<lambda>arg. caps_resolve arg (mc_env M) (mc_config_dir M) (mc_text M)"
  let ?ops = "\<lambda>chain. site_ops from_json to_json ?path pid (net (cl_api cli) chain)"
  have ops: "mc_ops M (cl_api cli) ?path = ?ops" by (simp add: assms(1))
  show ?thesis
  proof (cases "cl_cmd cli")
    case (Get cid out h)
    obtain r w' where "cmd_get (?ops []) cid out h w = Some (r, w')" "?same w'"
      using reading.get_keeps [where w = w and path = ?path and out = out and cid = cid and pid = pid
          and net = "net (cl_api cli) []" and range_header = h and before = "disk_catalog from_json ?path w"
          and from_json = from_json and to_json = to_json]
        assms(3,4) Get by auto
    then show ?thesis by (simp add: run_main_Get [OF Get] ops finish_def)
  next
    case Ls
    have "?same (snd (cmd_ls (?ops []) ?path w))"
      using assms(3) by (intro reading.ls_keeps) simp
    then show ?thesis by (simp add: run_main_Ls [OF Ls] ops finish_def)
  next
    case (Presign cid ttl base)
    with assms(3) show ?thesis by (simp add: run_main_Presign [OF Presign])
  qed (use assms(5) in simp_all)
qed

lemma changing_commands_keep:
  assumes "mc_ops M = (\<lambda>api path chain. site_ops from_json to_json path pid (net api chain))"
    and "\<And>api chain. net_named (net api chain)" and "\<And>i v. cd_dir (mc_sleep M i v) = cd_dir v"
    and "world_ok from_json to_json (catalog_path M cli) w" and "args_ok (catalog_path M cli) (cl_cmd cli)"
    and "\<not> only_reads (cl_cmd cli)"
  shows "\<exists>r w'. run_main M cli n rounds reqs w = Some (r, w') \<and> world_ok from_json to_json (catalog_path M cli) w'"
proof -
  let ?path = "catalog_path M cli"
  let ?ok = "world_ok from_json to_json ?path"
  let ?chain = "\<lambda>arg. caps_resolve arg (mc_env M) (mc_config_dir M) (mc_text M)"
  let ?ops = "\<lambda>chain. site_ops from_json to_json ?path pid (net (cl_api cli) chain)"
  have ops: "mc_ops M (cl_api cli) ?path = ?ops" by (simp add: assms(1))
  have good: "net_named (net (cl_api cli) chain) \<and> ?ok w" for chain using assms(2,4) by simp
  have sleep: "net_named x \<and> ?ok (mc_sleep M i v)" if "net_named x \<and> ?ok v" for x i v
    using that world_same_file(1) [of "mc_sleep M i v" ?path v] assms(3) by simp
  have ok: "net_named x \<and> ?ok v \<Longrightarrow> ?ok v" for x v by simp
  show ?thesis
  proof (cases "cl_cmd cli")
    case (Put f replication ttl priv label tags arg no_rep)
    obtain r w' where "cmd_put (?ops (?chain arg)) (case mc_read M f w of Inl e \<Rightarrow> Inl (''reading '' @ f) | Inr bs \<Rightarrow> Inr bs)
        replication ttl priv label tags no_rep w = Some (r, w')" "?ok w'"
      using site.put_keeps [OF good] by blast
    then show ?thesis by (simp add: run_main_Put [OF Put] ops Put finish_def)
  next
    case (Purge cid tag edge arg keep)
    with assms(5) have "\<forall>e. edge = Some e \<longrightarrow> printable e" by simp
    then obtain r w' where "cmd_purge (?ops (?chain arg)) cid tag edge keep w = Some (r, w')" "?ok w'"
      using site.purge_keeps [OF good] by blast
    then show ?thesis by (simp add: run_main_Purge [OF Purge] ops Purge finish_def)
  next
    case (Forget cid)
    have "?ok (snd (cmd_forget (?ops []) cid w))" by (rule ok [OF site.forget_keeps [OF good]])
    then show ?thesis by (simp add: run_main_Forget [OF Forget] ops Forget finish_def)
  next
    case (Maintain arg watch)
    obtain rs w1 where m: "cmd_maintain (maintain_ops.truncate (?ops (?chain arg))) (mc_sleep M) watch n w = (rs, w1)"
      by fastforce
    have "?ok (snd (cmd_maintain (maintain_ops.truncate (?ops (?chain arg))) (mc_sleep M) watch n w))"
      by (rule ok [OF site.maintain_keeps [OF good sleep]])
    with m maintain_ends [where watch = watch and rs = rs and v = w1] show ?thesis
      by (auto simp: run_main_Maintain [OF Maintain] ops Maintain)
  next
    case (Status cid arg)
    obtain live w' where "cmd_status (?ops (?chain arg)) cid w = Some (live, w')" "?ok w'"
      using site.status_keeps [OF good] by blast
    then show ?thesis by (simp add: run_main_Status [OF Status] ops Status)
  qed (use assms(5,6) in simp_all)
qed


text \<open>The sample catalog on a machine whose edges accept every copy; the command publishes a file.\<close>

definition demo_site :: site_net where
  "demo_site = \<lparr>sn_probe = flaky_probes, sn_pick = demo_picks, sn_copy = demo_copies,
     sn_put = (\<lambda>bs w. Inr \<lparr>pt_cid = ''x'', pt_bytes_len = len64 bs, pt_url = ''/cdn/x''\<rparr>), sn_get = (\<lambda>cid w. Inl ''unknown''),
     sn_range = (\<lambda>cid h w. Inl ''unknown''), sn_find = (\<lambda>s w. Inr [''c'']),
     sn_purge = (\<lambda>e cid w. purge_answer e cid)\<rparr>"

definition idle_sdk :: "'w sdk" where
  "idle_sdk = \<lparr>cid_of = (\<lambda>b. []), get_blob = (\<lambda>c w. (Inl ''offline'', w)), get_object = (\<lambda>c w. (Inl ''offline'', w)),
     put_object = (\<lambda>b w. (Inl ''offline'', w)), advertise_service = (\<lambda>s w. (Inr (), w)),
     find_service = (\<lambda>s w. (Inr [], w)), atlas = (\<lambda>w. (Inr [], w)), history_work = (\<lambda>x w. (Inr 0, w)),
     send_request = (\<lambda>e t p tm w. (Inl ''offline'', w)), parse_manifest = (\<lambda>b. Inl ''no manifest''),
     is_v1 = (\<lambda>m. True)\<rparr>"

definition demo_machine :: "(cli_disk, unit) machine" where
  "demo_machine =
     \<lparr>mc_env = (\<lambda>v. None), mc_config_dir = Some ''conf'', mc_data_dir = None, mc_text = (\<lambda>f. None),
      mc_read = (\<lambda>f w. Inr [1, 2, 3]), mc_now = (\<lambda>w. 900), mc_sleep = (\<lambda>i w. w), mc_identity = (\<lambda>d. Inl ''none''),
      mc_ops = (\<lambda>api path chain. site_ops dec_catalog enc_catalog path 7 demo_site), mc_sdk = (\<lambda>api. idle_sdk),
      mc_node_id = (\<lambda>api. Inl ''offline''), mc_verify = one_proof_verify, mc_codecs = demo_codecs, mc_iam = demo_iam,
      mc_hit_ratio = (\<lambda>st. [])\<rparr>"

definition demo_cli :: cli where
  "demo_cli = \<lparr>cl_api = ''http'', cl_catalog = Some ''catalog.json'',
     cl_cmd = Put ''logo.png'' 2 60 False None [''rel''] None False\<rparr>"


end
