(* ===== verification/Examples.thy ===== *)
theory Examples
  imports Client Presign
begin

text \<open>
  The two programs of \<open>examples/\<close>: one mints a presigned link and checks it, one stores an object and
  reads it back over a local node. Both compare what they get with what they expect, an assertion that
  fails being a panic (\<open>None\<close>); the theorems say when every comparison holds. The identity, the
  directory calls and the node are parameters; overflow panics, as in the debug build that
  \<open>cargo run --example\<close> makes.
\<close>

section \<open>A presigned link\<close>

text \<open>\<open>dbg\<close> renders what came instead of the expected result.\<close>

definition example_link ::
  "verifier \<Rightarrow> (bytes \<Rightarrow> string) \<Rightarrow> (string \<Rightarrow> bytes option) \<Rightarrow> (presign_error + unit \<Rightarrow> string) \<Rightarrow> unit result
     \<Rightarrow> (node_id \<times> (bytes \<Rightarrow> bytes)) result \<Rightarrow> u64 \<Rightarrow> string list result option" where
  "example_link vf enc dec dbg dir_made identity now =
     (case dir_made of
        Inl e \<Rightarrow> Some (Inl e)
      | Inr u \<Rightarrow>
          (case identity of
             Inl e \<Rightarrow> Some (Inl e)
           | Inr (node, sign) \<Rightarrow>
               (let cid = replicate 64 (CHR ''a'')
                in case checked_add now 3600 of
                     None \<Rightarrow> None
                   | Some expires \<Rightarrow>
                       (let url = presign_url enc sign cid expires;
                            query = (case split_once (CHR ''?'') url of None \<Rightarrow> [] | Some (a, q) \<Rightarrow> q);
                            trusted = [node]
                        in case verify_presign vf dec query cid trusted now of
                             Inl e \<Rightarrow> Some (Inl (''expected the link to verify, got '' @ dbg (Inl e)))
                           | Inr u \<Rightarrow>
                               (case checked_add expires 1 of
                                  None \<Rightarrow> None
                                | Some later \<Rightarrow>
                                    (case verify_presign vf dec query cid trusted later of
                                       Inl PsExpired \<Rightarrow>
                                         Some (Inr [''presigned link (share this):'',
                                                    ''  /cdn/'' @ cid @ ''?'' @ query,
                                                    ''link verifies against the publisher's key (within its window): OK'',
                                                    ''link correctly rejected after expiry: OK''])
                                     | other \<Rightarrow>
                                         Some (Inl (''expected Expired after the window, got '' @ dbg other))))))))"

lemma split_url:
  assumes "CHR ''?'' \<notin> set cid"
  shows "split_once (CHR ''?'') (presign_url enc sign cid expires) = Some (''/cdn/'' @ cid, presign_query enc sign cid expires)"
  using split_once_append [of "CHR ''?''" "''/cdn/'' @ cid" "presign_query enc sign cid expires"] assms
  by (simp add: presign_url_def)

text \<open>
  The example runs to its end. For every signing key and every clock that is more than an hour from the
  end of time, the link verifies, is found expired one second after its hour, and the four lines are
  printed.
\<close>
lemma example_link_runs:
  assumes "hex_codec enc dec" "signs vf node sign" "unat now + 3601 < 2 ^ 64"
  shows "\<exists>q. example_link vf enc dec dbg (Inr ()) (Inr (node, sign)) now = Some (Inr
    [''presigned link (share this):'', ''  /cdn/'' @ replicate 64 (CHR ''a'') @ ''?'' @ q,
     ''link verifies against the publisher's key (within its window): OK'',
     ''link correctly rejected after expiry: OK''])"
proof -
  let ?cid = "replicate 64 (CHR ''a'')" and ?exp = "now + 3600"
  let ?q = "presign_query enc sign ?cid ?exp"
  have ex: "unat ?exp = unat now + 3600" using assms(3) by (simp add: unat_word_ariths)
  have later: "unat (?exp + 1) = unat now + 3601" using assms(3) by (simp add: unat_word_ariths)
  have add: "checked_add now 3600 = Some ?exp" "checked_add ?exp 1 = Some (?exp + 1)"
    using assms(3) ex by (simp_all add: checked_add_def)
  have fresh: "verify_presign vf dec ?q ?cid [node] now = Inr ()"
    using verify_minted_link [OF assms(1,2), of "[node]" ?cid ?exp now] ex assms(3)
    by (simp add: word_less_nat_alt min_def)
  have gone: "verify_presign vf dec ?q ?cid [node] (?exp + 1) = Inl PsExpired"
    using verify_minted_link [OF assms(1,2), of "[node]" ?cid ?exp "?exp + 1"] ex later by (simp add: word_less_nat_alt)
  have "split_once (CHR ''?'') (presign_url enc sign ?cid ?exp) = Some (''/cdn/'' @ ?cid, ?q)"
    by (rule split_url) simp
  with add fresh gone show ?thesis
    by (intro exI [of _ ?q]) (simp add: example_link_def Let_def)
qed

section \<open>Storing and reading back\<close>

definition example_data :: bytes where
  "example_data = map (\<lambda>i. of_nat (i mod 256)) [0..<3000000]"

text \<open>\<open>health\<close> is the node's own call, \<open>dbg\<close> renders a range header in an error.\<close>

definition example_range ::
  "'w sdk \<Rightarrow> ('w \<Rightarrow> bool result \<times> 'w) \<Rightarrow> (string option \<Rightarrow> string) \<Rightarrow> 'w \<Rightarrow> (unit result \<times> 'w) option" where
  "example_range ce health dbg w =
     (let (h, w0) = health w
      in if \<not> unwrap_or False h then Some (Inr (), w0)
         else (case put ce example_data w0 of
                 (Inl e, w1) \<Rightarrow> Some (Inl e, w1)
               | (Inr p, w1) \<Rightarrow>
                   (case client_get ce (pt_cid p) w1 of
                      (Inl e, w2) \<Rightarrow> Some (Inl e, w2)
                    | (Inr whole, w2) \<Rightarrow>
                        if whole \<noteq> example_data then None
                        else (case get_range ce dbg (pt_cid p) (Some ''bytes=1048570-1048580'') w2 of
                                None \<Rightarrow> None
                              | Some (Inl e, w3) \<Rightarrow> Some (Inl e, w3)
                              | Some (Inr (range_bytes, rng, tot), w3) \<Rightarrow>
                                  (case slice_incl example_data 1048570 1048580 of
                                     None \<Rightarrow> None
                                   | Some expected \<Rightarrow>
                                       if range_bytes \<noteq> expected then None else Some (Inr (), w3))))))"

lemma length_example_data [simp]: "length example_data = 3000000"
  by (simp add: example_data_def)

lemma len64_example_data: "len64 example_data = 3000000"
  by (simp add: len64_def)

lemma example_range_header:
  "parse_range (Some ''bytes=1048570-1048580'') 3000000 = Partial \<lparr>br_start = 1048570, br_end = 1048580\<rparr>"
  by (simp add: parse_range_def strip_prefix_def trim_Cons_plain parse_u64_def is_digit_def min_def
      word_le_nat_alt word_less_nat_alt)

text \<open>The object is called 3 MiB in the source; it is smaller, but has three chunks of 1 MiB all the same.\<close>

lemma example_object_size:
  "length example_data < 3 * 1024 * 1024 \<and> chunk_count (1024 * 1024) (length example_data) = 3"
  by (simp add: chunk_count_def)

text \<open>
  What the example relies on: under the id that \<open>put_object\<close> returned, the node gives back the object and
  a manifest that describes it, or an error; chunks may be answered in any way.
\<close>

definition keeps_object :: "'w sdk \<Rightarrow> bytes \<Rightarrow> bool" where
  "keeps_object ce bs \<longleftrightarrow>
     (\<forall>w cid w1 v. put_object ce bs w = (Inr cid, w1) \<longrightarrow>
        (\<forall>b v'. get_object ce cid v = (Inr b, v') \<longrightarrow> b = bs) \<and>
        (\<forall>m v'. fetch_manifest ce cid v = (Inr m, v') \<longrightarrow>
           describes (cid_of ce) m bs \<and> collision_free (cid_of ce) m bs))"

text \<open>No assertion of the example fails: it ends with success or with an error of the node.\<close>

lemma example_range_runs:
  assumes "keeps_object ce example_data"
  shows "\<exists>r w'. example_range ce health dbg w = Some (r, w')"
proof -
  obtain h w0 where h: "health w = (h, w0)" by fastforce
  show ?thesis
  proof (cases "unwrap_or False h")
    case True
    obtain c w1 where c: "put_object ce example_data w0 = (c, w1)" by fastforce
    show ?thesis
    proof (cases c)
      case (Inl e)
      then show ?thesis using h c True by (simp add: example_range_def put_def with_context_def)
    next
      case (Inr cid)
      obtain a w2 where a: "advertise_service ce (service_for cid) w1 = (a, w2)" by fastforce
      have p: "put ce example_data w0 = (Inr \<lparr>pt_cid = cid, pt_bytes_len = len64 example_data, pt_url = url_for cid\<rparr>, w2)"
        using c Inr a by (simp add: put_def with_context_def)
      obtain g w3 where g: "get_object ce cid w2 = (g, w3)" by fastforce
      have whole: "b = example_data" if "g = Inr b" for b
        using assms c Inr g that unfolding keeps_object_def by blast
      obtain m w4 where m: "fetch_manifest ce cid w3 = (m, w4)" by fastforce
      have desc: "describes (cid_of ce) x example_data" "collision_free (cid_of ce) x example_data" if "m = Inr x" for x
        using assms c Inr m that unfolding keeps_object_def by blast+
      have "\<exists>r w'. get_range ce dbg cid (Some ''bytes=1048570-1048580'') w3 = Some (r, w') \<and>
          (\<forall>bs rng tot. r = Inr (bs, rng, tot) \<longrightarrow> slice_incl example_data 1048570 1048580 = Some bs)"
      proof (cases m)
        case (Inl e)
        with m show ?thesis by (simp add: get_range_def)
      next
        case (Inr x)
        with get_range_right [OF _ desc, of cid w3 x w4 dbg "Some ''bytes=1048570-1048580''"] m
        show ?thesis by (auto simp: len64_example_data example_range_header slice_incl_def slice_excl_def nths_interval)
      qed
      then obtain r w5 where r: "get_range ce dbg cid (Some ''bytes=1048570-1048580'') w3 = Some (r, w5)"
        "\<And>bs rng tot. r = Inr (bs, rng, tot) \<Longrightarrow> slice_incl example_data 1048570 1048580 = Some bs" by blast
      have got: "client_get ce cid w2 = (case g of Inl e \<Rightarrow> (Inl (''fetching object '' @ cid), w3) | Inr b \<Rightarrow> (Inr b, w3))"
        using g by (simp add: client_get_def with_context_def split: sum.split)
      show ?thesis
      proof (cases g)
        case (Inl e)
        with h True p got show ?thesis by (simp add: example_range_def)
      next
        case (Inr b)
        with whole h True p got r show ?thesis by (cases r) (auto simp: example_range_def)
      qed
    qed
  qed (use h in \<open>simp add: example_range_def\<close>)
qed

end
