(* ===== verification/Evaluation.thy ===== *)
theory Evaluation
  imports Rust_Strings "HOL-Library.Code_Target_Numeral"
begin

text \<open>
  Code equations that make the definitions cheap to evaluate in the kernel, used by the theories of unit
  tests only: words are reduced without computing a power when they are in range already, and the bounds of
  the number parser and the bytes of a string are written out.
\<close>

lemma take_bit_in_range [code]:
  "take_bit n (k :: int) =
     (if 0 \<le> k \<and> (if n = 64 then k < 18446744073709551616 else n = 8 \<and> k < 256) then k else k mod 2 ^ n)"
  by (auto simp: take_bit_eq_mod)

definition byte_of :: "char \<Rightarrow> u8" where
  "byte_of c = of_nat (of_char c)"

lemma str_bytes_code [code]: "str_bytes s = map byte_of s"
  unfolding str_bytes_def byte_of_def of_nat_of_char ..

lemma parse_digits_code [code]:
  "parse_digits acc [] = Some acc"
  "parse_digits acc (c # cs) =
     (if is_digit c
      then (let v = acc * 10 + (of_char c - 48)
            in if v < 18446744073709551616 then parse_digits v cs else None)
      else None)"
  by simp_all

lemma sat_add_code [code]: "sat_add a b = (if a + b < a then - 1 else a + b)"
proof (cases "unat a + unat b < 2 ^ LENGTH('a)")
  case True
  then have "unat (a + b) = unat a + unat b" by (simp add: unat_word_ariths)
  then show ?thesis using True by (simp add: sat_add_def word_less_nat_alt)
next
  case False
  have "unat (a + b) < unat a"
  proof -
    have lt: "unat a < 2 ^ LENGTH('a)" "unat b < 2 ^ LENGTH('a)" by (rule unsigned_less)+
    then have "unat a + unat b - 2 ^ LENGTH('a) < 2 ^ LENGTH('a)" by linarith
    then have m: "(unat a + unat b) mod 2 ^ LENGTH('a) = unat a + unat b - 2 ^ LENGTH('a)"
      using False by (simp add: le_mod_geq)
    show ?thesis unfolding unat_word_ariths m using lt False by linarith
  qed
  then show ?thesis using False by (simp add: sat_add_def word_less_nat_alt)
qed

end
