(* ===== verification/Http_Wire.thy ===== *)
theory Http_Wire
  imports Http_Edge Evaluation
begin

text \<open>
  The one-shot HTTP/1.1 client of \<open>src/server.rs\<close> (\<open>http_request\<close>, \<open>http_get\<close>, \<open>http_head\<close>) and its parser
  of replies, with the UTF-8 check and the splitting functions of the standard library it uses. The socket is
  a parameter, and so is Unicode lower-casing, of which only the ASCII part matters here. The parser is
  shown to invert the message format of RFC 9112, in which \<open>hyper\<close> writes a response, for every response the
  front-end gives.
\<close>

section \<open>Bytes, lines and words\<close>

definition bytes_str :: "bytes \<Rightarrow> string" where
  "bytes_str bs = map (\<lambda>b. char_of (unat b)) bs"

definition cont_byte :: "u8 \<Rightarrow> bool" where
  "cont_byte b \<longleftrightarrow> 0x80 \<le> b \<and> b \<le> 0xBF"

text \<open>The well-formed UTF-8 sequences.\<close>

fun utf8_ok :: "bytes \<Rightarrow> bool" where
  "utf8_ok [] = True"
| "utf8_ok (b # bs) =
     (if b < 0x80 then utf8_ok bs
      else if 0xC2 \<le> b \<and> b \<le> 0xDF then
        (case bs of c1 # r \<Rightarrow> cont_byte c1 \<and> utf8_ok r | _ \<Rightarrow> False)
      else if 0xE0 \<le> b \<and> b \<le> 0xEF then
        (case bs of
           c1 # c2 # r \<Rightarrow> cont_byte c1 \<and> cont_byte c2 \<and> (b = 0xE0 \<longrightarrow> 0xA0 \<le> c1) \<and> (b = 0xED \<longrightarrow> c1 \<le> 0x9F) \<and>
             utf8_ok r
         | _ \<Rightarrow> False)
      else if 0xF0 \<le> b \<and> b \<le> 0xF4 then
        (case bs of
           c1 # c2 # c3 # r \<Rightarrow> cont_byte c1 \<and> cont_byte c2 \<and> cont_byte c3 \<and> (b = 0xF0 \<longrightarrow> 0x90 \<le> c1) \<and>
             (b = 0xF4 \<longrightarrow> c1 \<le> 0x8F) \<and> utf8_ok r
         | _ \<Rightarrow> False)
      else False)"

definition from_utf8 :: "bytes \<Rightarrow> string option" where
  "from_utf8 bs = (if utf8_ok bs then Some (bytes_str bs) else None)"

text \<open>\<open>windows(n).position(|w| w == p)\<close>.\<close>

fun position_of :: "'a list \<Rightarrow> 'a list \<Rightarrow> nat option" where
  "position_of p [] = None"
| "position_of p (x # xs) =
     (if take (length p) (x # xs) = p then Some 0 else map_option Suc (position_of p xs))"

definition CRLF :: string where
  "CRLF = [CHR 0x0D, CHR 0x0A]"

text \<open>\<open>split\<close> at every line end.\<close>

fun split_crlf :: "string \<Rightarrow> string list" where
  "split_crlf [] = [[]]"
| "split_crlf [c] = [[c]]"
| "split_crlf (a # b # cs) =
     (if a = CHR 0x0D \<and> b = CHR 0x0A then [] # split_crlf cs
      else (case split_crlf (b # cs) of [] \<Rightarrow> [[a]] | l # ls \<Rightarrow> (a # l) # ls))"

text \<open>\<open>split_whitespace\<close>, with the word that is being read.\<close>

function split_ws :: "string \<Rightarrow> string \<Rightarrow> string list" where
  "split_ws cur s =
     (case find (\<lambda>p. p \<noteq> [] \<and> take (length p) s = p) ws_encodings of
        Some p \<Rightarrow> (if cur = [] then [] else [cur]) @ split_ws [] (drop (length p) s)
      | None \<Rightarrow>
          (case s of
             [] \<Rightarrow> if cur = [] then [] else [cur]
           | c # cs \<Rightarrow> split_ws (cur @ [c]) cs))"
  by pat_completeness auto
termination
proof (relation "measure (\<lambda>(cur, s). length s)")
  fix cur s p
  assume "find (\<lambda>p. p \<noteq> [] \<and> take (length p) s = p) ws_encodings = Some p"
  then have "p \<noteq> [] \<and> take (length p) s = p" by (auto simp: find_Some_iff)
  then have "length (drop (length p) s) < length s" by (cases s; cases p) auto
  then show "(([], drop (length p) s), cur, s) \<in> measure (\<lambda>(cur, s). length s)" by simp
qed auto

declare split_ws.simps [simp del]

definition parse_u16 :: "string \<Rightarrow> u16 option" where
  "parse_u16 s =
     (case parse_u64 s of
        None \<Rightarrow> None
      | Some w \<Rightarrow> if unat w < 2 ^ 16 then Some (of_nat (unat w)) else None)"

section \<open>The client\<close>

definition header_text :: "string \<times> string \<Rightarrow> string" where
  "header_text h = fst h @ '': '' @ snd h @ CRLF"

definition request_text :: "string \<Rightarrow> string \<Rightarrow> string \<Rightarrow> (string \<times> string) list \<Rightarrow> string" where
  "request_text verb addr path hs =
     verb @ '' '' @ path @ '' HTTP/1.1'' @ CRLF @ ''Host: '' @ addr @ CRLF @ ''Connection: close'' @ CRLF
     @ concat (map header_text hs) @ CRLF"

record http_reply =
  rp_status :: u16
  rp_headers :: "(string \<times> string) list"
  rp_body :: bytes

definition reply_header :: "http_reply \<Rightarrow> string \<Rightarrow> string option" where
  "reply_header r name = map_option snd (find (\<lambda>(k, v). eq_ignore_ascii_case k name) (rp_headers r))"

definition header_line :: "(string \<Rightarrow> string) \<Rightarrow> string \<Rightarrow> (string \<times> string) option" where
  "header_line to_lowercase l = map_option (\<lambda>(k, v). (to_lowercase (trim k), trim v)) (split_once CHR '':'' l)"

definition parse_reply :: "(string \<Rightarrow> string) \<Rightarrow> bytes \<Rightarrow> http_reply result" where
  "parse_reply to_lowercase buf =
     (case position_of (str_bytes (CRLF @ CRLF)) buf of
        None \<Rightarrow> Inl ''malformed response: no header/body separator''
      | Some split \<Rightarrow>
          (case from_utf8 (take split buf) of
             None \<Rightarrow> Inl ''non-utf8 headers''
           | Some head \<Rightarrow>
               (case split_crlf head of
                  [] \<Rightarrow> Inl ''missing status line''
                | status_line # rest \<Rightarrow>
                    (case (case split_ws [] status_line of x # y # zs \<Rightarrow> parse_u16 y | _ \<Rightarrow> None) of
                       None \<Rightarrow> Inl ''malformed status line''
                     | Some st \<Rightarrow>
                         Inr \<lparr>rp_status = st,
                              rp_headers = List.map_filter (header_line to_lowercase) (filter (\<lambda>l. l \<noteq> []) rest),
                              rp_body = drop (split + 4) buf\<rparr>))))"

text \<open>The connection to \<open>addr\<close>: what comes back until the end of the stream, or an error.\<close>

definition http_request_once ::
  "(string \<Rightarrow> string) \<Rightarrow> (string \<Rightarrow> bytes \<Rightarrow> 'w \<Rightarrow> bytes result \<times> 'w) \<Rightarrow> string \<Rightarrow> string \<Rightarrow> string
     \<Rightarrow> (string \<times> string) list \<Rightarrow> 'w \<Rightarrow> http_reply result \<times> 'w" where
  "http_request_once to_lowercase net verb addr path hs w =
     (case net addr (str_bytes (request_text verb addr path hs)) w of
        (Inl e, w1) \<Rightarrow> (Inl e, w1)
      | (Inr buf, w1) \<Rightarrow> (parse_reply to_lowercase buf, w1))"

definition http_get ::
  "(string \<Rightarrow> string) \<Rightarrow> (string \<Rightarrow> bytes \<Rightarrow> 'w \<Rightarrow> bytes result \<times> 'w) \<Rightarrow> string \<Rightarrow> string
     \<Rightarrow> (string \<times> string) list \<Rightarrow> 'w \<Rightarrow> http_reply result \<times> 'w" where
  "http_get to_lowercase net = http_request_once to_lowercase net ''GET''"

definition http_head ::
  "(string \<Rightarrow> string) \<Rightarrow> (string \<Rightarrow> bytes \<Rightarrow> 'w \<Rightarrow> bytes result \<times> 'w) \<Rightarrow> string \<Rightarrow> string
     \<Rightarrow> (string \<times> string) list \<Rightarrow> 'w \<Rightarrow> http_reply result \<times> 'w" where
  "http_head to_lowercase net = http_request_once to_lowercase net ''HEAD''"

section \<open>The format of a response\<close>

text \<open>RFC 9112, as \<open>hyper\<close> writes it; the reason phrase of a status is \<open>hyper\<close>'s.\<close>

definition status_line :: "(u16 \<Rightarrow> string) \<Rightarrow> u16 \<Rightarrow> string" where
  "status_line reason st = ''HTTP/1.1 '' @ show_nat (unat st) @ '' '' @ reason st"

definition wire_head :: "(u16 \<Rightarrow> string) \<Rightarrow> http_response \<Rightarrow> string" where
  "wire_head reason r = status_line reason (hr_status r) @ concat (map (\<lambda>(k, v). CRLF @ k @ '': '' @ v) (hr_headers r))"

definition wire_format :: "(u16 \<Rightarrow> string) \<Rightarrow> http_response \<Rightarrow> bytes" where
  "wire_format reason r = str_bytes (wire_head reason r) @ str_bytes (CRLF @ CRLF) @ hr_body r"

text \<open>Visible ASCII and inner spaces.\<close>

definition printable :: "char \<Rightarrow> bool" where
  "printable c \<longleftrightarrow> (32 :: nat) \<le> of_char c \<and> (of_char c :: nat) < 127"

definition wire_value :: "string \<Rightarrow> bool" where
  "wire_value v \<longleftrightarrow> list_all printable v \<and> (v = [] \<or> plain (hd v) \<and> plain (last v))"

definition wire_name :: "string \<Rightarrow> bool" where
  "wire_name k \<longleftrightarrow> k \<noteq> [] \<and> list_all (\<lambda>c. plain c \<and> c \<noteq> CHR '':'') k"

definition wire_ready :: "http_response \<Rightarrow> bool" where
  "wire_ready r \<longleftrightarrow> list_all (\<lambda>(k, v). wire_name k \<and> wire_value v) (hr_headers r)"

definition ascii_lowercase :: "(string \<Rightarrow> string) \<Rightarrow> bool" where
  "ascii_lowercase to_lowercase \<longleftrightarrow> (\<forall>s. list_all printable s \<longrightarrow> to_lowercase s = map to_ascii_lower s)"

lemma position_of_skip:
  "x \<notin> set s \<Longrightarrow> position_of (x # p) (s @ t) = map_option (\<lambda>n. n + length s) (position_of (x # p) t)"
proof (induction s)
  case (Cons a s)
  then have "take (length (x # p)) ((a # s) @ t) \<noteq> x # p" by auto
  with Cons show ?case by (simp add: option.map_comp comp_def del: take_Suc_Cons)
qed (simp add: option.map_ident)

declare position_of.simps(2) [simp del]

lemma position_of_line:
  assumes "l \<noteq> []" "c \<notin> set l" "c \<noteq> d"
  shows "position_of [c, d, c, d] (c # d # l @ t) = map_option (\<lambda>n. n + length l + 2) (position_of [c, d, c, d] t)"
proof -
  obtain a l' where l: "l = a # l'" and "a \<noteq> c" using assms(1,2) by (cases l) auto
  then have "position_of [c, d, c, d] (c # d # l @ t) = map_option Suc (position_of [c, d, c, d] ((d # l) @ t))"
    by (subst position_of.simps) simp
  also have "\<dots> = map_option Suc (map_option (\<lambda>n. n + length (d # l)) (position_of [c, d, c, d] t))"
    using assms by (subst position_of_skip) auto
  finally show ?thesis by (simp add: option.map_comp comp_def)
qed

lemma position_of_here: "position_of [c, d, c, d] (c # d # c # d # t) = Some 0"
  by (simp add: position_of.simps)

lemma position_of_head:
  assumes "c \<notin> set s" "\<forall>l \<in> set ls. l \<noteq> [] \<and> c \<notin> set l" "c \<noteq> d"
  shows "position_of [c, d, c, d] (s @ concat (map (\<lambda>l. c # d # l) ls) @ [c, d, c, d] @ t)
    = Some (length (s @ concat (map (\<lambda>l. c # d # l) ls)))"
proof -
  have "position_of [c, d, c, d] (concat (map (\<lambda>l. c # d # l) ls) @ [c, d, c, d] @ t)
    = Some (length (concat (map (\<lambda>l. c # d # l) ls)))"
    using assms(2)
  proof (induction ls)
    case (Cons l ls)
    then show ?case using position_of_line [of l c d] assms(3) by simp
  qed (simp add: position_of_here)
  then show ?thesis using position_of_skip [OF assms(1), of "[d, c, d]"] by simp
qed

lemma split_crlf_line: "CHR 0x0D \<notin> set s \<Longrightarrow> split_crlf (s @ CRLF @ t) = s # split_crlf t"
proof (induction s rule: split_crlf.induct)
  case (3 a b cs)
  then show ?case by auto
qed (auto simp: CRLF_def)

lemma split_crlf_last: "CHR 0x0D \<notin> set s \<Longrightarrow> split_crlf s = [s]"
  by (induction s rule: split_crlf.induct) auto

lemma split_crlf_head:
  "CHR 0x0D \<notin> set s \<Longrightarrow> \<forall>l \<in> set ls. CHR 0x0D \<notin> set l \<Longrightarrow>
     split_crlf (s @ concat (map ((@) CRLF) ls)) = s # ls"
proof (induction ls arbitrary: s)
  case (Cons l ls)
  then show ?case using split_crlf_line [of s "l @ concat (map ((@) CRLF) ls)"] by simp
qed (simp add: split_crlf_last)

lemma unat_of_char: "unat (of_char c :: u8) = of_char c"
proof -
  have "unat (of_nat (of_char c) :: u8) = of_char c" by (simp only: unat_of_nat) simp
  then show ?thesis by (simp only: of_nat_of_char)
qed

lemma byte_inject: "(of_char c :: u8) = of_char d \<Longrightarrow> c = d"
  by (metis of_char_eq_iff unat_of_char)

lemma bytes_str_bytes [simp]: "bytes_str (str_bytes s) = s"
  by (simp add: bytes_str_def str_bytes_def unat_of_char comp_def)

lemma utf8_ascii: "list_all (\<lambda>b. b < 0x80) bs \<Longrightarrow> utf8_ok bs"
  by (induction bs) simp_all

lemma plain_printable: "plain c \<Longrightarrow> printable c"
  by (simp add: plain_def printable_def)

lemma printable_ascii: "printable c \<Longrightarrow> (of_char c :: u8) < 0x80"
  by (simp add: printable_def word_less_nat_alt unat_of_char)

lemma split_ws_plain:
  assumes "\<forall>c \<in> set s. plain c"
  shows "split_ws cur (s @ t) = split_ws (cur @ s) t"
  using assms
proof (induction s arbitrary: cur)
  case (Cons c s)
  have "find (\<lambda>p. p \<noteq> [] \<and> take (length p) (c # s @ t) = p) ws_encodings = None"
    using Cons.prems ws_not_plain
    by (auto simp: find_None_iff) (metis hd_take length_greater_0_conv list.sel(1))
  with Cons show ?case by (simp add: split_ws.simps [of cur "c # s @ t"])
qed simp

lemma split_ws_space: "split_ws cur (CHR '' '' # t) = (if cur = [] then [] else [cur]) @ split_ws [] t"
  by (subst split_ws.simps) (simp add: ws_encodings_def)

lemma split_ws_status: "\<exists>ws. split_ws [] (status_line reason st) = ''HTTP/1.1'' # show_nat (unat st) # ws"
proof -
  have plain: "\<forall>c \<in> set ''HTTP/1.1''. plain c" "\<forall>c \<in> set (show_nat (unat st)). plain c"
    using show_nat_digits digit_not_special by (simp, blast)
  have "split_ws [] (status_line reason st)
    = split_ws ''HTTP/1.1'' (CHR '' '' # show_nat (unat st) @ CHR '' '' # reason st)"
    using split_ws_plain [OF plain(1), of "[]" "CHR '' '' # show_nat (unat st) @ CHR '' '' # reason st"]
    by (simp add: status_line_def)
  then show ?thesis
    using split_ws_plain [OF plain(2), of "[]" "CHR '' '' # reason st"] by (simp add: split_ws_space)
qed

lemma parse_u16_show: "parse_u16 (show_nat (unat st)) = Some st"
proof -
  have st: "unat st < 2 ^ 16" using unsigned_less [of st] by simp
  then have u: "unat (of_nat (unat st) :: u64) = unat st" by (simp only: unat_of_nat) simp
  then have "show_nat (unat st) = show_u64 (of_nat (unat st))" by (simp add: show_u64_def)
  then show ?thesis using u st by (simp add: parse_u16_def)
qed

lemma header_line_text:
  assumes "wire_name k" "wire_value v" "ascii_lowercase lc"
  shows "header_line lc (k @ '': '' @ v) = Some (map to_ascii_lower k, v)"
proof -
  have name: "\<forall>c \<in> set k. plain c \<and> c \<noteq> CHR '':''"
    using assms(1) unfolding wire_name_def list_all_iff by (rule conjunct2)
  have k: "CHR '':'' \<notin> set k" "\<forall>c \<in> set k. plain c" "list_all printable k"
    using name by (blast, blast, simp only: list_all_iff) (use name plain_printable in blast)
  have "trim v = v" using assms(2) by (simp only: wire_value_def trim_plain)
  then have "trim (CHR '' '' # v) = v" by (simp only: trim_space)
  moreover have "lc (trim k) = map to_ascii_lower k"
    using k assms(3) by (simp only: trim_all_plain ascii_lowercase_def)
  moreover have "split_once CHR '':'' (k @ CHR '':'' # CHR '' '' # v) = Some (k, CHR '' '' # v)"
    using k(1) by (rule split_once_append)
  ultimately show ?thesis by (simp add: header_line_def)
qed

lemma wire_head_parts:
  "wire_head reason r = status_line reason (hr_status r) @ concat (map ((@) CRLF) (map (\<lambda>(k, v). k @ '': '' @ v) (hr_headers r)))"
  by (auto simp: wire_head_def intro!: arg_cong [where f = concat])

lemma printable_no_cr: "list_all printable s \<Longrightarrow> CHR 0x0D \<notin> set s"
  by (auto simp: list_all_iff printable_def)

lemma status_line_printable: "list_all printable (reason st) \<Longrightarrow> list_all printable (status_line reason st)"
proof -
  have "list_all printable (show_nat (unat st))"
    using show_nat_digits digit_not_special plain_printable by (auto simp: list_all_iff)
  then show "list_all printable (reason st) \<Longrightarrow> list_all printable (status_line reason st)"
    by (simp add: status_line_def printable_def)
qed

lemma header_printable:
  "wire_name k \<Longrightarrow> wire_value v \<Longrightarrow> list_all printable (k @ '': '' @ v) \<and> k @ '': '' @ v \<noteq> []"
proof -
  assume k: "wire_name k" and v: "wire_value v"
  have "list_all printable k"
    using k plain_printable by (auto simp: wire_name_def list_all_iff)
  moreover have "list_all printable '': ''" by (simp add: printable_def)
  moreover have "list_all printable v" using v by (simp add: wire_value_def)
  ultimately show ?thesis by (simp add: list_all_append)
qed

lemma map_header_lines:
  "list_all (\<lambda>(k, v). wire_name k \<and> wire_value v) hs \<Longrightarrow> ascii_lowercase lc \<Longrightarrow>
     List.map_filter (header_line lc) (filter (\<lambda>l. l \<noteq> []) (map (\<lambda>(k, v). k @ '': '' @ v) hs))
     = map (\<lambda>(k, v). (map to_ascii_lower k, v)) hs"
proof (induction hs)
  case (Cons h hs)
  obtain k v where h: "h = (k, v)" by (cases h)
  with Cons.prems have "header_line lc (k @ '': '' @ v) = Some (map to_ascii_lower k, v)"
    by (intro header_line_text) simp_all
  with Cons h show ?case by (simp add: map_filter_simps)
qed (simp add: map_filter_simps)

lemma lines_utf8:
  assumes "list_all printable s" "\<forall>l \<in> set ls. list_all printable l"
  shows "from_utf8 (str_bytes (s @ concat (map ((@) CRLF) ls))) = Some (s @ concat (map ((@) CRLF) ls))"
proof -
  have "(of_char c :: u8) < 0x80" if "c \<in> set (s @ concat (map ((@) CRLF) ls))" for c
    using that assms printable_ascii by (auto simp: list_all_iff CRLF_def split: if_splits)
  then have "list_all (\<lambda>b. b < 0x80) (str_bytes (s @ concat (map ((@) CRLF) ls)))"
    unfolding list_all_iff str_bytes_def set_map by blast
  then show ?thesis by (simp add: from_utf8_def utf8_ascii)
qed

lemma no_cr_byte: "list_all printable s \<Longrightarrow> of_char (CHR 0x0D) \<notin> set (str_bytes s)"
  using printable_no_cr by (auto simp only: str_bytes_def set_map dest!: byte_inject)

lemma lines_position:
  assumes "list_all printable s" "\<forall>l \<in> set ls. list_all printable l \<and> l \<noteq> []"
  shows "position_of (str_bytes (CRLF @ CRLF)) (str_bytes (s @ concat (map ((@) CRLF) ls)) @ str_bytes (CRLF @ CRLF) @ t)
    = Some (length (s @ concat (map ((@) CRLF) ls)))"
proof -
  let ?c = "of_char (CHR 0x0D) :: u8" and ?d = "of_char (CHR 0x0A) :: u8"
  have lines: "str_bytes (s @ concat (map ((@) CRLF) ls)) = str_bytes s @ concat (map (\<lambda>l. ?c # ?d # l) (map str_bytes ls))"
    by (simp add: str_bytes_def CRLF_def map_concat comp_def)
  have "\<forall>l \<in> set (map str_bytes ls). l \<noteq> [] \<and> ?c \<notin> set l"
    using assms(2) no_cr_byte by (auto simp only: list.set_map str_bytes_def map_is_Nil_conv)
  moreover have "?c \<noteq> ?d" by simp
  ultimately have "position_of [?c, ?d, ?c, ?d] ((str_bytes s @ concat (map (\<lambda>l. ?c # ?d # l) (map str_bytes ls))) @ [?c, ?d, ?c, ?d] @ t)
    = Some (length (str_bytes s @ concat (map (\<lambda>l. ?c # ?d # l) (map str_bytes ls))))"
    using position_of_head [OF no_cr_byte [OF assms(1)]] by (simp only: append_assoc)
  moreover have "str_bytes (CRLF @ CRLF) = [?c, ?d, ?c, ?d]" by (simp add: CRLF_def str_bytes_def)
  ultimately show ?thesis
    by (simp only: lines [symmetric] length_str_bytes)
qed

theorem parse_wire:
  assumes "wire_ready r" and "list_all printable (reason (hr_status r))" and "ascii_lowercase lc"
  shows "parse_reply lc (wire_format reason r) = Inr
    \<lparr>rp_status = hr_status r, rp_headers = map (\<lambda>(k, v). (map to_ascii_lower k, v)) (hr_headers r), rp_body = hr_body r\<rparr>"
proof -
  let ?sl = "status_line reason (hr_status r)" and ?ls = "map (\<lambda>(k, v). k @ '': '' @ v) (hr_headers r)"
  have sl: "list_all printable ?sl" using assms(2) by (rule status_line_printable)
  have ls: "\<forall>l \<in> set ?ls. list_all printable l \<and> l \<noteq> []"
    using assms(1) header_printable by (fastforce simp: wire_ready_def list_all_iff)
  then have ls': "\<forall>l \<in> set ?ls. list_all printable l" by blast
  have "split_crlf (wire_head reason r) = ?sl # ?ls"
    unfolding wire_head_parts
    by (rule split_crlf_head) (use sl ls printable_no_cr in blast)+
  moreover obtain ws where "split_ws [] ?sl = ''HTTP/1.1'' # show_nat (unat (hr_status r)) # ws"
    using split_ws_status by blast
  moreover have "length (str_bytes (CRLF @ CRLF)) = 4" by (simp add: CRLF_def)
  ultimately show ?thesis
    using map_header_lines [OF assms(1) [unfolded wire_ready_def] assms(3)]
      lines_position [OF sl ls, of "hr_body r", folded wire_head_parts]
      lines_utf8 [OF sl ls', folded wire_head_parts]
    by (simp add: parse_reply_def wire_format_def parse_u16_show)
qed

section \<open>What the front-end sends\<close>

definition edge_names :: "string list" where
  "edge_names =
     [''Accept-Ranges'', ''ETag'', ''X-Cache'', ''Cache-Control'', ''Age'', ''Content-Length'', ''Content-Range'',
      ''Content-Type'']"

definition edge_header_ok :: "string \<times> string \<Rightarrow> bool" where
  "edge_header_ok h \<longleftrightarrow> fst h \<in> set edge_names \<and> wire_value (snd h)"

text \<open>A response whose headers survive the way to a client, names in lower case already.\<close>

definition header_sent :: "string \<times> string \<Rightarrow> bool" where
  "header_sent h \<longleftrightarrow> wire_name (fst h) \<and> map to_ascii_lower (fst h) = fst h \<and> wire_value (snd h)"

lemma edge_names_lower:
  "k \<in> set edge_names \<Longrightarrow> wire_name (map to_ascii_lower k) \<and> map to_ascii_lower (map to_ascii_lower k) = map to_ascii_lower k"
proof -
  have "list_all (\<lambda>k. wire_name (map to_ascii_lower k) \<and> map to_ascii_lower (map to_ascii_lower k) = map to_ascii_lower k)
    edge_names" by code_simp
  then show "k \<in> set edge_names \<Longrightarrow> wire_name (map to_ascii_lower k) \<and>
      map to_ascii_lower (map to_ascii_lower k) = map to_ascii_lower k"
    unfolding list_all_iff by blast
qed

lemma printable_show_u64: "list_all printable (show_u64 w)"
  using show_u64_digits digit_not_special plain_printable by (auto simp: list_all_iff)

lemma wire_value_show: "wire_value (show_u64 w)"
  by (simp add: wire_value_def printable_show_u64)

lemma wire_value_age: "wire_value (''public, max-age='' @ show_u64 w @ '', immutable'')"
  by (simp add: wire_value_def printable_show_u64 printable_def)

lemma wire_value_content_range: "wire_value (content_range_header r tot)" "wire_value (''bytes */'' @ show_u64 w)"
  by (simp_all add: wire_value_def content_range_header_def printable_show_u64 printable_def last_append)

lemma wire_value_etag: "is_acceptable_cid_charset cid \<Longrightarrow> wire_value (etag cid)"
proof -
  assume "is_acceptable_cid_charset cid"
  then have "printable c" if "c \<in> set cid" for c
    using that
    by (auto simp: is_acceptable_cid_charset_def list_all_iff is_ascii_alphanumeric_def is_ascii_digit_def printable_def
        less_eq_char_def)
  then show ?thesis by (simp add: wire_value_def etag_def list_all_iff printable_def)
qed

lemma cache_headers_ok:
  "is_acceptable_cid_charset cid \<Longrightarrow> list_all edge_header_ok (cache_headers cid c now hit)"
  using wire_value_etag [of cid]
  by (simp add: cache_headers_def Let_def edge_header_ok_def edge_names_def wire_value_show
      wire_value_age [simplified] split: option.split) (simp add: wire_value_def printable_def)

lemma edge_serve_ok:
  "Edge.serve cid bs rh acc c now hit = Some r \<Longrightarrow> is_acceptable_cid_charset cid \<Longrightarrow>
     list_all edge_header_ok (headers r)"
  using cache_headers_ok [of cid c now hit]
  by (auto simp: Edge.serve_def Let_def edge_header_ok_def edge_names_def wire_value_show
      wire_value_content_range [simplified] wire_value_def [of "''text/plain''"] printable_def
      split: if_splits range_outcome.splits option.splits)

lemma to_http_sent: "list_all edge_header_ok (headers r) \<Longrightarrow> list_all header_sent (hr_headers (to_http r))"
  using edge_names_lower by (auto simp: to_http_def list_all_iff edge_header_ok_def header_sent_def)

lemma plain_text_sent:
  "list_all header_sent (hr_headers (text_resp st msg))" "list_all header_sent (hr_headers (json_resp st msg))"
  "header_sent (''content-type'', ''text/plain; version=0.0.4'')"
  by (simp_all add: text_resp_def json_resp_def header_sent_def wire_name_def wire_value_def plain_def printable_def
      to_ascii_lower_def)

lemma serve_cid_sent:
  assumes "serve_cid vf dec iam origin cfg req cid h now sv w = Some (resp, sv1, w1)"
    and "is_acceptable_cid_charset cid"
  shows "list_all header_sent (hr_headers resp)"
proof -
  have nf: "list_all edge_header_ok (headers (not_found cid))"
    using wire_value_etag [OF assms(2)]
    by (simp add: not_found_def edge_header_ok_def edge_names_def wire_value_def printable_def)
  have nm: "list_all edge_header_ok (headers (not_modified cid c now))" for c
    using cache_headers_ok [OF assms(2)] by (simp add: not_modified_def)
  have sv: "list_all header_sent (hr_headers (to_http r))"
    if "Edge.serve cid bs rh acc c now hit = Some r" for bs rh acc c hit r
    by (rule to_http_sent [OF edge_serve_ok [OF that assms(2)]])
  show ?thesis
    using assms(1) to_http_sent [OF nf] to_http_sent [OF nm] plain_text_sent(1)
    by (auto simp: serve_cid_def Let_def map_option_case dest: sv
        split: prod.splits if_splits obtained.splits option.splits)
qed

lemma http_handle_sent:
  assumes "http_handle vf dec iam origin hit_ratio_text cfg req now sv w = Some (resp, sv1, w1)"
  shows "list_all header_sent (hr_headers resp)"
  using assms plain_text_sent serve_cid_sent
  by (auto simp: http_handle_def Let_def split: if_splits option.splits)

text \<open>The reply that travels back, with further headers of the HTTP library behind those of the handler.\<close>

lemma reply_read:
  assumes "http_handle vf dec iam origin hit_ratio_text cfg req now sv w = Some (resp, sv1, w1)"
    and "list_all (\<lambda>(k, x). wire_name k \<and> wire_value x) extra" and "list_all printable (reason (hr_status resp))"
    and "ascii_lowercase lc"
  shows "parse_reply lc (wire_format reason (resp\<lparr>hr_headers := hr_headers resp @ extra\<rparr>)) = Inr
    \<lparr>rp_status = hr_status resp, rp_headers = hr_headers resp @ map (\<lambda>(k, x). (map to_ascii_lower k, x)) extra,
     rp_body = hr_body resp\<rparr>"
proof -
  let ?r = "resp\<lparr>hr_headers := hr_headers resp @ extra\<rparr>"
  have sent: "list_all header_sent (hr_headers resp)" using assms(1) by (rule http_handle_sent)
  then have "wire_ready ?r"
    using assms(2) by (simp add: wire_ready_def list_all_append) (auto simp: list_all_iff header_sent_def)
  from parse_wire [OF this, of reason lc] assms(3,4)
  have "parse_reply lc (wire_format reason ?r) = Inr \<lparr>rp_status = hr_status resp,
      rp_headers = map (\<lambda>(k, x). (map to_ascii_lower k, x)) (hr_headers resp @ extra), rp_body = hr_body resp\<rparr>"
    by simp
  moreover have "map (\<lambda>(k, x). (map to_ascii_lower k, x)) (hr_headers resp) = hr_headers resp"
    using sent by (intro map_idI) (auto simp: list_all_iff header_sent_def)
  ultimately show ?thesis by simp
qed

text \<open>
  C35: what the front-end answers is what a client reads. Whatever the request, the reply that travels back
  in the message format of HTTP, with further headers of the HTTP library behind those of the handler, is read
  by the client with the handler's status, its headers unchanged and in order, and its body byte for byte,
  for bodies of any content.
\<close>
theorem client_reads_answer:
  assumes "http_handle vf dec iam origin hit_ratio_text cfg req now sv w = Some (resp, sv1, w1)"
    and "net addr (str_bytes (request_text verb addr path hs)) v
      = (Inr (wire_format reason (resp\<lparr>hr_headers := hr_headers resp @ extra\<rparr>)), v1)"
    and "list_all (\<lambda>(k, x). wire_name k \<and> wire_value x) extra" and "list_all printable (reason (hr_status resp))"
    and "ascii_lowercase lc"
  shows "http_request_once lc net verb addr path hs v = (Inr
    \<lparr>rp_status = hr_status resp, rp_headers = hr_headers resp @ map (\<lambda>(k, x). (map to_ascii_lower k, x)) extra,
     rp_body = hr_body resp\<rparr>, v1)"
proof -
  have "parse_reply lc (wire_format reason (resp\<lparr>hr_headers := hr_headers resp @ extra\<rparr>)) = Inr
    \<lparr>rp_status = hr_status resp, rp_headers = hr_headers resp @ map (\<lambda>(k, x). (map to_ascii_lower k, x)) extra,
     rp_body = hr_body resp\<rparr>"
    by (rule reply_read) (rule assms)+
  then show ?thesis by (simp add: http_request_once_def assms(2))
qed

lemma client_reads_answer_witness:
  "http_request_once (map to_ascii_lower)
     (\<lambda>addr bs n. (Inr (wire_format (\<lambda>st. ''OK'') ((fst (the demo_answer))\<lparr>hr_headers :=
        hr_headers (fst (the demo_answer)) @ [(''Server'', ''edge 1'')]\<rparr>)), Suc n)) ''GET'' ''127.0.0.1:80'' ''/cdn/cidA'' [] 3
   = (Inr \<lparr>rp_status = hr_status (fst (the demo_answer)),
           rp_headers = hr_headers (fst (the demo_answer)) @ [(''server'', ''edge 1'')],
           rp_body = hr_body (fst (the demo_answer))\<rparr>, Suc 3)"
proof -
  have target: "http_target demo_request = Some ''cidA''"
    by (simp add: http_target_def demo_request_def strip_prefix_def trim_end_matches_def is_acceptable_cid_charset_def
        MAX_CID_LEN_def is_ascii_alphanumeric_def is_ascii_digit_def less_eq_char_def)
  have h: "http_handle one_proof_verify ref_decode demo_iam demo_origin (\<lambda>s. ''0'') demo_server_config demo_request 900
      demo_server 0 = Some (fst (the demo_answer), fst (snd (the demo_answer)), snd (snd (the demo_answer)))"
    unfolding http_handle_target [OF target] using demo_answer_Some by (simp add: demo_request_def)
  have lower: "map (\<lambda>(k, x). (map to_ascii_lower k, x)) [(''Server'', ''edge 1'')] = [(''server'', ''edge 1'')]"
    by code_simp
  have ok: "list_all (\<lambda>(k, x). wire_name k \<and> wire_value x) [(''Server'', ''edge 1'')]"
    "list_all printable ''OK''"
    by (simp_all add: wire_name_def wire_value_def plain_def printable_def)
  have lc: "ascii_lowercase (map to_ascii_lower)" by (simp add: ascii_lowercase_def)
  show ?thesis
    by (rule trans, rule client_reads_answer [where reason = "\<lambda>st. ''OK''", OF h _ ok(1) ok(2) lc])
      (rule refl, simp only: lower)
qed

end
