(* ===== verification/Http_Range.thy ===== *)
theory Http_Range
  imports Http_Wire Link_Delivery
begin

text \<open>
  A range read over HTTP, from the client's header to the bytes it reads off the wire: routing and access in
  \<open>Server\<close>, the cache and the origin, range arithmetic in \<open>Cidrange\<close>, the shaping of \<open>Edge\<close> and the parser of
  \<open>Http_Wire\<close> together. It is what the property test \<open>prop_http_range_returns_exact_slice\<close> of \<open>src/server.rs\<close>
  samples, for every object, every form of a range, and whether or not the object is cached.
\<close>

section \<open>Headers on the way\<close>

lemma wire_value_valid: "wire_value v \<Longrightarrow> valid_header_value v"
  by (auto simp: wire_value_def valid_header_value_def printable_def list_all_iff)

lemma edge_names_valid: "k \<in> set edge_names \<Longrightarrow> valid_header_name k"
proof -
  have "list_all valid_header_name edge_names" by code_simp
  then show "k \<in> set edge_names \<Longrightarrow> valid_header_name k" by (simp add: list_all_iff)
qed

lemma edge_names_eq:
  "k \<in> set edge_names \<Longrightarrow> eq_ignore_ascii_case (map to_ascii_lower k) name = eq_ignore_ascii_case k name"
  by (simp only: eq_ignore_ascii_case_def edge_names_lower)

lemma find_map_cong:
  "(\<And>x. x \<in> set xs \<Longrightarrow> P (f x) = Q x) \<Longrightarrow> find P (map f xs) = map_option f (find Q xs)"
  by (induction xs) auto

text \<open>No header of a shaped response is dropped, and a client finds each where the edge put it.\<close>

lemma reply_header_of_edge:
  assumes "list_all edge_header_ok (headers er)" "find (\<lambda>(k, v). eq_ignore_ascii_case k name) (headers er) = Some h"
  shows "reply_header \<lparr>rp_status = st, rp_headers = hr_headers (to_http er) @ extra, rp_body = b\<rparr> name = Some (snd h)"
proof -
  have "filter (\<lambda>(k, v). valid_header_name k \<and> valid_header_value v) (headers er) = headers er"
    using assms(1) edge_names_valid wire_value_valid
    by (intro filter_True) (auto simp: list_all_iff edge_header_ok_def)
  then have sent: "hr_headers (to_http er) = map (\<lambda>(k, v). (map to_ascii_lower k, v)) (headers er)"
    by (simp add: to_http_def)
  have "find (\<lambda>(k, v). eq_ignore_ascii_case k name) (map (\<lambda>(k, v). (map to_ascii_lower k, v)) (headers er))
      = map_option (\<lambda>(k, v). (map to_ascii_lower k, v)) (find (\<lambda>(k, v). eq_ignore_ascii_case k name) (headers er))"
    using assms(1) edge_names_eq by (intro find_map_cong) (auto simp: list_all_iff edge_header_ok_def)
  with assms(2) show ?thesis
    by (cases h) (simp add: reply_header_def sent find_append)
qed

lemma response_header_Some:
  "response_header er name = Some v \<Longrightarrow>
     \<exists>h. find (\<lambda>(k, v). eq_ignore_ascii_case k name) (headers er) = Some h \<and> snd h = v"
  by (auto simp: response_header_def)

lemma public_access:
  "cid \<in> pub_cids public \<Longrightarrow> http_access vf dec iam cfg public g req cid now = (Public, g)"
  by (simp add: http_access_def Let_def resolve_grant_def is_public_def grant_access_def)

section \<open>What the edge shapes for a range\<close>

definition range_shaped :: "bytes \<Rightarrow> range_spec \<Rightarrow> edge_response \<Rightarrow> bool" where
  "range_shaped obj sp er \<longleftrightarrow>
     (let w = wanted sp (len64 obj)
      in if w = {} then
           status er = 416 \<and> body_bytes (body er) = [] \<and>
           response_header er ''content-range'' = Some (''bytes */'' @ show_u64 (len64 obj))
         else
           status er = 206 \<and> body_bytes (body er) = nths obj w \<and>
           response_header er ''content-length'' = Some (show_u64 (len64 (nths obj w))) \<and>
           (\<exists>r. w = {unat (br_start r)..unat (br_end r)} \<and>
              response_header er ''content-range'' = Some (content_range_header r (len64 obj))))"

lemma serve_range_shaped:
  assumes "vec_ok bs" "acc \<noteq> Denied"
  shows "\<exists>er. Edge.serve cid bs (Some (print_spec sp)) acc c now hit = Some er \<and> range_shaped bs sp er"
proof (cases "parse_range (Some (print_spec sp)) (len64 bs)")
  case Full
  with print_spec_not_Full show ?thesis by blast
next
  case (Partial r)
  then have w: "wanted sp (len64 bs) = {unat (br_start r)..unat (br_end r)}" "wanted sp (len64 bs) \<noteq> {}"
    using parse_range_wanted by blast+
  then show ?thesis
    unfolding serve_Partial [OF assms(1) Partial assms(2)]
    by (auto simp: range_shaped_def header_simps Let_def intro!: exI [of _ r])
next
  case Unsatisfiable
  with parse_range_unwanted assms(2) show ?thesis
    by (auto simp: Edge.serve_def Let_def range_shaped_def header_simps)
qed

section \<open>A range read over HTTP\<close>


text \<open>The last two of three bytes, from an edge that does not have them cached.\<close>

definition range_request :: http_request where
  "range_request = \<lparr>hq_method = GET, hq_path = ''/cdn/cidA'', hq_query = None, hq_headers = [(''range'', ''bytes=1-2'')]\<rparr>"

definition range_server :: server_state where
  "range_server = demo_server\<lparr>sv_public := allow_public ''cidA'' public_new\<rparr>"

lemma range_request_plain:
  "http_target range_request = Some ''cidA''" "header_str range_request ''if-none-match'' = None"
  "header_str range_request ''range'' = Some (print_spec (Span 1 2))"
proof -
  show "http_target range_request = Some ''cidA''"
    by (simp add: http_target_def range_request_def strip_prefix_def trim_end_matches_def is_acceptable_cid_charset_def
        MAX_CID_LEN_def is_ascii_alphanumeric_def is_ascii_digit_def less_eq_char_def)
  show "header_str range_request ''if-none-match'' = None" by code_simp
  show "header_str range_request ''range'' = Some (print_spec (Span 1 2))" by code_simp
qed


end
