(* ===== verification/Tests_Cache.thy ===== *)
theory Tests_Cache
  imports Cache_Trace Evaluation
begin

text \<open>
  The unit tests of \<open>src/cache.rs\<close>, each the conjunction of its assertions over the model, with the lemma
  that it holds. The assertion on the floating-point ratio is on the exact quotient it approximates.
\<close>

definition test_miss_then_insert_then_hit :: bool where
  "test_miss_then_insert_then_hit \<longleftrightarrow>
     (let c = cache_new 1024 60;
          (a, c) = cache_get ''a'' 0 c;
          (i, c) = cache_insert ''a'' [1, 2, 3] 0 c;
          (b, c) = cache_get ''a'' 0 c;
          s = stats c
      in a = None \<and> i \<and> b = Some [1, 2, 3] \<and> st_hits s = 1 \<and> st_misses s = 1 \<and> st_entries s = 1 \<and> st_bytes s = 3)"

lemma miss_then_insert_then_hit: test_miss_then_insert_then_hit
  by code_simp

definition test_hit_ratio_accounting :: bool where
  "test_hit_ratio_accounting \<longleftrightarrow>
     (let c = cache_new 1024 0;
          c = snd (cache_insert ''a'' (replicate 4 0) 0 c);
          c = snd (cache_get ''a'' 0 c);
          c = snd (cache_get ''a'' 0 c);
          c = snd (cache_get ''b'' 0 c);
          s = stats c
      in st_hits s = 2 \<and> st_misses s = 1 \<and> hit_ratio s = 2 / 3)"

lemma hit_ratio_accounting: test_hit_ratio_accounting
  by code_simp

definition test_empty_stats_hit_ratio_is_zero :: bool where
  "test_empty_stats_hit_ratio_is_zero \<longleftrightarrow> hit_ratio (stats (cache_new 16 0)) = 0"

lemma empty_stats_hit_ratio_is_zero: test_empty_stats_hit_ratio_is_zero
  by code_simp

definition test_ttl_expiry_is_a_miss_and_drops_entry :: bool where
  "test_ttl_expiry_is_a_miss_and_drops_entry \<longleftrightarrow>
     (let c = snd (cache_insert ''a'' (replicate 8 0) 100 (cache_new 1024 10));
          (x, c) = cache_get ''a'' 109 c;
          (y, c) = cache_get ''a'' 111 c;
          s = stats c;
          (z, c) = cache_get ''a'' 112 c
      in x = Some (replicate 8 0) \<and> y = None \<and> st_expirations s = 1 \<and> st_entries s = 0 \<and> st_bytes s = 0 \<and>
         z = None \<and> st_misses (stats c) = 2)"

lemma ttl_expiry_is_a_miss_and_drops_entry: test_ttl_expiry_is_a_miss_and_drops_entry
  by code_simp

definition test_zero_ttl_never_expires :: bool where
  "test_zero_ttl_never_expires \<longleftrightarrow>
     (let c = snd (cache_insert ''a'' (replicate 8 0) 100 (cache_new 1024 0));
          (x, c) = cache_get ''a'' (u64_MAX - 1) c
      in x \<noteq> None \<and> ttl_remaining ''a'' 0 c = Some u64_MAX)"

lemma zero_ttl_never_expires: test_zero_ttl_never_expires
  by code_simp

definition test_lru_eviction_when_over_budget :: bool where
  "test_lru_eviction_when_over_budget \<longleftrightarrow>
     (let c = cache_new 10 0;
          c = snd (cache_insert ''a'' (replicate 4 0) 0 c);
          c = snd (cache_insert ''b'' (replicate 4 0) 0 c);
          (x, c) = cache_get ''a'' 0 c;
          c = snd (cache_insert ''d'' (replicate 4 0) 0 c)
      in x \<noteq> None \<and> contains_fresh ''a'' 0 c \<and> \<not> contains_fresh ''b'' 0 c \<and> contains_fresh ''d'' 0 c \<and>
         st_evictions (stats c) = 1 \<and> st_bytes (stats c) \<le> 10)"

lemma lru_eviction_when_over_budget: test_lru_eviction_when_over_budget
  by code_simp

definition test_object_larger_than_budget_is_rejected :: bool where
  "test_object_larger_than_budget_is_rejected \<longleftrightarrow>
     (let c = cache_new 8 0;
          (x, c) = cache_insert ''big'' (replicate 16 0) 0 c;
          s = stats c;
          (y, c) = cache_insert ''ok'' (replicate 8 0) 0 c
      in \<not> x \<and> st_entries s = 0 \<and> y \<and> st_bytes (stats c) = 8)"

lemma object_larger_than_budget_is_rejected: test_object_larger_than_budget_is_rejected
  by code_simp

definition test_reinsert_replaces_and_frees_old_bytes :: bool where
  "test_reinsert_replaces_and_frees_old_bytes \<longleftrightarrow>
     (let c = snd (cache_insert ''a'' (replicate 40 0) 0 (cache_new 100 0));
          c = snd (cache_insert ''a'' (replicate 10 0) 0 c)
      in st_bytes (stats c) = 10 \<and> st_entries (stats c) = 1)"

lemma reinsert_replaces_and_frees_old_bytes: test_reinsert_replaces_and_frees_old_bytes
  by code_simp

definition test_purge_removes_regardless_of_freshness :: bool where
  "test_purge_removes_regardless_of_freshness \<longleftrightarrow>
     (let c = snd (cache_insert ''a'' (replicate 4 0) 0 (cache_new 100 0));
          (x, c) = purge ''a'' c;
          (y, c) = purge ''a'' c
      in x \<and> \<not> y \<and> st_entries (stats c) = 0 \<and> st_bytes (stats c) = 0)"

lemma purge_removes_regardless_of_freshness: test_purge_removes_regardless_of_freshness
  by code_simp

definition test_sweep_drops_only_stale_entries :: bool where
  "test_sweep_drops_only_stale_entries \<longleftrightarrow>
     (let c = snd (insert_with_ttl ''fresh'' (replicate 4 0) 100 0 (cache_new 100 0));
          c = snd (insert_with_ttl ''stale'' (replicate 4 0) 5 0 c);
          c = snd (insert_with_ttl ''forever'' (replicate 4 0) 0 0 c);
          (swept, c) = sweep_expired 50 c
      in swept = 1 \<and> contains_fresh ''fresh'' 50 c \<and> contains_fresh ''forever'' 50 c \<and>
         \<not> contains_fresh ''stale'' 50 c \<and> st_expirations (stats c) = 1)"

lemma sweep_drops_only_stale_entries: test_sweep_drops_only_stale_entries
  by code_simp

definition test_contains_fresh_does_not_touch_counters :: bool where
  "test_contains_fresh_does_not_touch_counters \<longleftrightarrow>
     (let c = snd (cache_insert ''a'' (replicate 4 0) 0 (cache_new 100 10))
      in contains_fresh ''a'' 5 c \<and> \<not> contains_fresh ''a'' 20 c \<and> st_hits (stats c) = 0 \<and> st_misses (stats c) = 0)"

lemma contains_fresh_does_not_touch_counters: test_contains_fresh_does_not_touch_counters
  by code_simp

definition test_byte_len_reports_real_stored_size :: bool where
  "test_byte_len_reports_real_stored_size \<longleftrightarrow>
     (let c0 = cache_new 100 0;
          c = snd (cache_insert ''a'' (replicate 7 0) 0 c0);
          s = stats c;
          c1 = snd (cache_insert ''a'' (replicate 3 0) 0 c);
          c2 = snd (cache_insert ''b'' (replicate 9 0) 0 (cache_new 100 5))
      in byte_len ''a'' c0 = None \<and> byte_len ''a'' c = Some 7 \<and> st_hits s = 0 \<and> st_misses s = 0 \<and>
         byte_len ''a'' c1 = Some 3 \<and> \<not> contains_fresh ''b'' 100 c2 \<and> byte_len ''b'' c2 = Some 9)"

lemma byte_len_reports_real_stored_size: test_byte_len_reports_real_stored_size
  by code_simp

definition test_negative_cache_remembers_absent_then_expires :: bool where
  "test_negative_cache_remembers_absent_then_expires \<longleftrightarrow>
     (let c = with_negative_ttl 5 (cache_new 100 0);
          (w, c) = is_negative ''gone'' 0 c;
          c = note_absent ''gone'' 0 c;
          (x, c) = is_negative ''gone'' 3 c;
          (y, c) = is_negative ''gone'' 5 c;
          (z, c) = is_negative ''gone'' 6 c
      in \<not> w \<and> x \<and> y \<and> \<not> z \<and> st_negative_hits (stats c) = 2 \<and> st_tombstones (stats c) = 0)"

lemma negative_cache_remembers_absent_then_expires: test_negative_cache_remembers_absent_then_expires
  by code_simp

definition test_negative_ttl_zero_disables_negative_cache :: bool where
  "test_negative_ttl_zero_disables_negative_cache \<longleftrightarrow>
     (let c = note_absent ''x'' 0 (with_negative_ttl 0 (cache_new 100 0));
          (x, c) = is_negative ''x'' 0 c
      in \<not> x \<and> st_tombstones (stats c) = 0)"

lemma negative_ttl_zero_disables_negative_cache: test_negative_ttl_zero_disables_negative_cache
  by code_simp

definition test_inserting_clears_negative_tombstone :: bool where
  "test_inserting_clears_negative_tombstone \<longleftrightarrow>
     (let c = note_absent ''late'' 0 (with_negative_ttl 30 (cache_new 100 0));
          (x, c) = is_negative ''late'' 1 c;
          (i, c) = cache_insert ''late'' [1, 2, 3] 2 c;
          (y, c) = is_negative ''late'' 3 c;
          (b, c) = cache_get ''late'' 3 c
      in x \<and> i \<and> \<not> y \<and> b = Some [1, 2, 3])"

lemma inserting_clears_negative_tombstone: test_inserting_clears_negative_tombstone
  by code_simp

definition test_per_object_stats_track_hits_and_misses :: bool where
  "test_per_object_stats_track_hits_and_misses \<longleftrightarrow>
     (let c = snd (cache_insert ''a'' (replicate 5 0) 0 (cache_new 100 0));
          c = snd (cache_get ''a'' 0 c);
          c = snd (cache_get ''a'' 0 c);
          os = object_stats c
      in length os = 1 \<and> fst (os ! 0) = ''a'' \<and> os_hits (snd (os ! 0)) = 2 \<and> os_bytes (snd (os ! 0)) = 5)"

lemma per_object_stats_track_hits_and_misses: test_per_object_stats_track_hits_and_misses
  by code_simp

definition test_age_and_ttl_remaining :: bool where
  "test_age_and_ttl_remaining \<longleftrightarrow>
     (let c = snd (cache_insert ''a'' (replicate 4 0) 100 (cache_new 100 30))
      in age ''a'' 115 c = Some 15 \<and> ttl_remaining ''a'' 115 c = Some 15 \<and>
         age ''missing'' 0 c = None \<and> ttl_remaining ''missing'' 0 c = None)"

lemma age_and_ttl_remaining: test_age_and_ttl_remaining
  by code_simp

section \<open>The tombstone cap\<close>

text \<open>The loop of the test notes 4596 ids as absent and looks at the count after each.\<close>

definition noted_absent :: "nat \<Rightarrow> edge_cache" where
  "noted_absent n =
     fold (\<lambda>i c. note_absent (''missing-'' @ show_nat i) 0 c) [0..<n] (with_negative_ttl 1000 (cache_new 100 0))"

definition test_negative_cache_is_bounded :: bool where
  "test_negative_cache_is_bounded \<longleftrightarrow>
     (let cap = unat DEFAULT_MAX_TOMBSTONES
      in (\<forall>n \<le> cap + 500. unat (st_tombstones (stats (noted_absent n))) \<le> cap) \<and>
         unat (st_tombstones (stats (noted_absent (cap + 500)))) = cap)"

lemma noted_absent_state:
  "n \<le> 4596 \<Longrightarrow> hm_ok (tombstones (noted_absent n)) \<and> fst ` set (tombstones (noted_absent n)) \<subseteq> (\<lambda>i. ''missing-'' @ show_nat i) ` {..<n} \<and>
     length (tombstones (noted_absent n)) = min n 4096 \<and> negative_ttl_secs (noted_absent n) = 1000 \<and>
     max_tombstones (noted_absent n) = 4096"
proof (induction n)
  case 0
  then show ?case by (simp add: noted_absent_def with_negative_ttl_def cache_new_def DEFAULT_MAX_TOMBSTONES_def)
next
  case (Suc n)
  let ?c = "noted_absent n" and ?k = "''missing-'' @ show_nat n"
  let ?ts = "tombstones ?c"
  let ?victim = "fst (arg_min_list (\<lambda>(k, t). t_expires_at t) ?ts)"
  let ?ts1 = "if 4096 \<le> length ?ts then hm_remove ?victim ?ts else ?ts"
  have step: "noted_absent (Suc n) = note_absent ?k 0 ?c" by (simp add: noted_absent_def)
  have ok: "hm_ok ?ts" and len: "length ?ts = min n 4096"
    and keys: "fst ` set ?ts \<subseteq> (\<lambda>i. ''missing-'' @ show_nat i) ` {..<n}" using Suc by auto
  have new: "?k \<notin> fst ` set ?ts"
  proof
    assume "?k \<in> fst ` set ?ts"
    with keys obtain i where i: "i < n" "show_nat n = show_nat i" by auto
    then have "n = i" using Suc.prems by (intro show_nat_inject) simp_all
    with i show False by simp
  qed
  then have absent: "hm_get ?ts ?k = None" by (simp add: hm_get_def map_of_eq_None_iff)
  have some: "?ts \<noteq> []" if "4096 \<le> length ?ts" using that by auto
  have ts: "tombstones (noted_absent (Suc n)) = hm_insert ?k \<lparr>t_expires_at = sat_add 0 1000\<rparr> ?ts1"
    using Suc absent some by (auto simp: step note_absent_def Let_def)
  have victim: "hm_get ?ts ?victim \<noteq> None" if "4096 \<le> length ?ts" using arg_min_list_get [OF some [OF that]] .
  have ok1: "hm_ok ?ts1" using ok by (simp add: hm.ok_del)
  have len1: "length ?ts1 = (if n \<ge> 4096 then 4095 else n)"
    using hm.size_del [OF ok, of ?victim] victim len by auto
  have absent1: "hm_get ?ts1 ?k = None" using absent ok by (simp add: hm.get_del)
  have "length (tombstones (noted_absent (Suc n))) = min (Suc n) 4096"
    unfolding ts using hm.size_put [OF ok1, of ?k] absent1 len1 by auto
  moreover have "fst ` set (tombstones (noted_absent (Suc n))) \<subseteq> (\<lambda>i. ''missing-'' @ show_nat i) ` {..<Suc n}"
    unfolding ts using hm.keys_put [OF ok1, of ?k] hm.keys_del [OF ok, of ?victim] keys by (auto split: if_splits)
  moreover have "hm_ok (tombstones (noted_absent (Suc n)))" unfolding ts using ok1 by (simp add: hm.ok_put)
  moreover have "negative_ttl_secs (noted_absent (Suc n)) = 1000" "max_tombstones (noted_absent (Suc n)) = 4096"
    using Suc by (simp_all add: step note_absent_def Let_def)
  ultimately show ?case by blast
qed

lemma negative_cache_is_bounded: test_negative_cache_is_bounded
proof -
  have "unat (st_tombstones (stats (noted_absent n))) = min n 4096" if "n \<le> 4596" for n
    using noted_absent_state [OF that] by (simp add: stats_def len64_def unat_of_nat take_bit_nat_def)
  then show ?thesis by (simp add: test_negative_cache_is_bounded_def DEFAULT_MAX_TOMBSTONES_def)
qed

end
