(* ===== verification/Tests_Range.thy ===== *)
theory Tests_Range
  imports Cidrange Edge_Limits Replication Evaluation
begin

text \<open>
  The unit tests of \<open>src/cidrange.rs\<close>, \<open>src/limits.rs\<close> and \<open>src/replication.rs\<close>, each the conjunction of its
  assertions over the model, with the lemma that it holds. The two property tests are proved for every
  input they draw from.
\<close>

section \<open>Range headers\<close>

definition test_no_header_is_full :: bool where
  "test_no_header_is_full \<longleftrightarrow> parse_range None 100 = Full"

lemma no_header_is_full: test_no_header_is_full
  by code_simp

definition test_explicit_span :: bool where
  "test_explicit_span \<longleftrightarrow> parse_range (Some ''bytes=10-20'') 100 = Partial \<lparr>br_start = 10, br_end = 20\<rparr>"

lemma explicit_span: test_explicit_span
  by code_simp

definition test_open_ended_to_eof :: bool where
  "test_open_ended_to_eof \<longleftrightarrow> parse_range (Some ''bytes=90-'') 100 = Partial \<lparr>br_start = 90, br_end = 99\<rparr>"

lemma open_ended_to_eof: test_open_ended_to_eof
  by code_simp

definition test_suffix_range :: bool where
  "test_suffix_range \<longleftrightarrow> parse_range (Some ''bytes=-10'') 100 = Partial \<lparr>br_start = 90, br_end = 99\<rparr>"

lemma suffix_range: test_suffix_range
  by code_simp

definition test_suffix_larger_than_object :: bool where
  "test_suffix_larger_than_object \<longleftrightarrow>
     parse_range (Some ''bytes=-500'') 100 = Partial \<lparr>br_start = 0, br_end = 99\<rparr>"

lemma suffix_larger_than_object: test_suffix_larger_than_object
  by code_simp

definition test_end_past_eof_is_clamped :: bool where
  "test_end_past_eof_is_clamped \<longleftrightarrow>
     parse_range (Some ''bytes=50-9999'') 100 = Partial \<lparr>br_start = 50, br_end = 99\<rparr>"

lemma end_past_eof_is_clamped: test_end_past_eof_is_clamped
  by code_simp

definition test_whitespace_is_tolerated :: bool where
  "test_whitespace_is_tolerated \<longleftrightarrow>
     parse_range (Some ''  bytes= 10 - 20 '') 100 = Partial \<lparr>br_start = 10, br_end = 20\<rparr>"

lemma whitespace_is_tolerated: test_whitespace_is_tolerated
  by code_simp

definition test_start_at_or_past_eof_is_unsatisfiable :: bool where
  "test_start_at_or_past_eof_is_unsatisfiable \<longleftrightarrow>
     parse_range (Some ''bytes=100-200'') 100 = Unsatisfiable \<and> parse_range (Some ''bytes=100-'') 100 = Unsatisfiable"

lemma start_at_or_past_eof_is_unsatisfiable: test_start_at_or_past_eof_is_unsatisfiable
  by code_simp

definition test_start_after_end_is_unsatisfiable :: bool where
  "test_start_after_end_is_unsatisfiable \<longleftrightarrow> parse_range (Some ''bytes=30-10'') 100 = Unsatisfiable"

lemma start_after_end_is_unsatisfiable: test_start_after_end_is_unsatisfiable
  by code_simp

definition test_zero_suffix_is_unsatisfiable :: bool where
  "test_zero_suffix_is_unsatisfiable \<longleftrightarrow> parse_range (Some ''bytes=-0'') 100 = Unsatisfiable"

lemma zero_suffix_is_unsatisfiable: test_zero_suffix_is_unsatisfiable
  by code_simp

definition test_empty_object_cannot_satisfy_a_range :: bool where
  "test_empty_object_cannot_satisfy_a_range \<longleftrightarrow> parse_range (Some ''bytes=0-0'') 0 = Unsatisfiable"

lemma empty_object_cannot_satisfy_a_range: test_empty_object_cannot_satisfy_a_range
  by code_simp

definition is_full :: "u64 \<Rightarrow> string \<Rightarrow> bool" where
  "is_full tot h \<longleftrightarrow> parse_range (Some h) tot = Full"

definition test_malformed_headers_fall_back_to_full :: bool where
  "test_malformed_headers_fall_back_to_full \<longleftrightarrow>
     list_all (is_full 100)
       [''bytes='', ''bytes=abc-def'', ''items=0-1'', ''bytes=-'', ''garbage'', ''bytes=1-2,5-6'']"

lemma malformed_headers_fall_back_to_full: test_malformed_headers_fall_back_to_full
  by code_simp

definition test_content_range_header_formats :: bool where
  "test_content_range_header_formats \<longleftrightarrow>
     (let r = \<lparr>br_start = 10, br_end = 20\<rparr>
      in content_range_header r 100 = ''bytes 10-20/100'' \<and> range_len r = 11 \<and> \<not> range_is_empty r)"

lemma content_range_header_formats: test_content_range_header_formats
  by code_simp

section \<open>Chunks\<close>

definition test_manifest :: "u64 \<Rightarrow> u64 \<Rightarrow> manifest" where
  "test_manifest cs tot =
     (let n = (if cs = 0 then 0 else (unat tot + unat cs - 1) div unat cs)
      in \<lparr>kind = ''ce-object-v1'', chunk_size = cs, total_size = tot,
          chunks = map (\<lambda>i. ''chunk'' @ show_nat i) [0..<n]\<rparr>)"

definition test_single_chunk_range :: bool where
  "test_single_chunk_range \<longleftrightarrow>
     (case chunks_for_range (test_manifest 1024 4096) \<lparr>br_start = 10, br_end = 20\<rparr> of
        None \<Rightarrow> False
      | Some span \<Rightarrow> first_chunk span = 0 \<and> last_chunk span = 0 \<and> head_skip span = 10 \<and> out_len span = 11)"

lemma single_chunk_range: test_single_chunk_range
  by code_simp

definition test_range_spanning_chunk_boundary :: bool where
  "test_range_spanning_chunk_boundary \<longleftrightarrow>
     (case chunks_for_range (test_manifest 1000 5000) \<lparr>br_start = 1500, br_end = 2500\<rparr> of
        None \<Rightarrow> False
      | Some span \<Rightarrow> first_chunk span = 1 \<and> last_chunk span = 2 \<and> head_skip span = 500 \<and> out_len span = 1001)"

lemma range_spanning_chunk_boundary: test_range_spanning_chunk_boundary
  by code_simp

definition test_zero_chunk_size_is_none :: bool where
  "test_zero_chunk_size_is_none \<longleftrightarrow> chunks_for_range (test_manifest 0 0) \<lparr>br_start = 0, br_end = 0\<rparr> = None"

lemma zero_chunk_size_is_none: test_zero_chunk_size_is_none
  by code_simp

definition test_slice_extracts_exact_bytes :: bool where
  "test_slice_extracts_exact_bytes \<longleftrightarrow>
     slice_span (map of_nat [0..<100]) \<lparr>first_chunk = 0, last_chunk = 0, head_skip = 10, out_len = 5\<rparr>
       = Inr [10, 11, 12, 13, 14]"

lemma slice_extracts_exact_bytes: test_slice_extracts_exact_bytes
  by code_simp

text \<open>\<open>contains\<close> on strings.\<close>

fun starts_with :: "string \<Rightarrow> string \<Rightarrow> bool" where
  "starts_with [] s = True"
| "starts_with (p # ps) [] = False"
| "starts_with (p # ps) (c # cs) = (if p = c then starts_with ps cs else False)"

fun contains_str :: "string \<Rightarrow> string \<Rightarrow> bool" where
  "contains_str [] p = (p = [])"
| "contains_str (c # cs) p = (if starts_with p (c # cs) then True else contains_str cs p)"

definition test_slice_rejects_truncated_input :: bool where
  "test_slice_rejects_truncated_input \<longleftrightarrow>
     (case slice_span (replicate 8 0) \<lparr>first_chunk = 0, last_chunk = 0, head_skip = 4, out_len = 10\<rparr> of
        Inr out \<Rightarrow> False
      | Inl err \<Rightarrow> contains_str err ''too short'')"

lemma slice_rejects_truncated_input: test_slice_rejects_truncated_input
  by code_simp

section \<open>The property tests\<close>

definition test_partial_range_is_always_in_bounds :: "u64 \<Rightarrow> u64 \<Rightarrow> u64 \<Rightarrow> bool" where
  "test_partial_range_is_always_in_bounds tot a b \<longleftrightarrow>
     (case parse_range (Some (''bytes='' @ show_u64 (min a b) @ ''-'' @ show_u64 (max a b))) tot of
        Partial r \<Rightarrow> br_start r \<le> br_end r \<and> br_end r < tot \<and> range_len r = br_end r - br_start r + 1
      | _ \<Rightarrow> True)"

lemma partial_range_is_always_in_bounds: "test_partial_range_is_always_in_bounds tot a b"
  using parse_range_Partial
  by (auto simp: test_partial_range_is_always_in_bounds_def range_ok_def range_len_def split: range_outcome.split)

definition test_chunk_span_covers_and_slices_back :: "u64 \<Rightarrow> u64 \<Rightarrow> u64 \<Rightarrow> u64 \<Rightarrow> bool" where
  "test_chunk_span_covers_and_slices_back cs tot ra rb \<longleftrightarrow>
     (let start = min ra rb; end' = max ra rb;
          m = test_manifest cs tot
      in case chunks_for_range m \<lparr>br_start = start, br_end = end'\<rparr> of
           None \<Rightarrow> False
         | Some span \<Rightarrow>
             first_chunk span \<le> last_chunk span \<and> first_chunk span * cs \<le> start \<and> (last_chunk span + 1) * cs > end' \<and>
             (let object = map (\<lambda>i. of_nat (i mod 256)) [0..<unat tot];
                  first_byte = unat (first_chunk span * cs);
                  last_byte = unat (min ((last_chunk span + 1) * cs) tot)
              in case slice_excl object first_byte last_byte of
                   None \<Rightarrow> False
                 | Some joined \<Rightarrow>
                     (case slice_span joined span of
                        Inl e \<Rightarrow> False
                      | Inr sliced \<Rightarrow> slice_incl object (unat start) (unat end') = Some sliced)))"

lemma slice_of_chunks:
  assumes "a \<le> b" "a * c \<le> min (Suc b * c) (length obj)"
  shows "slice_excl obj (a * c) (min (Suc b * c) (length obj)) = Some (concat (map (chunk_at c obj) [a..<Suc b]))"
proof -
  have "(Suc b - a) * c = Suc b * c - a * c" by (simp only: diff_mult_distrib)
  moreover have "take (min (Suc b * c) (length obj) - a * c) (drop (a * c) obj) = take (Suc b * c - a * c) (drop (a * c) obj)"
    by (simp add: min_def)
  ultimately show ?thesis
    using assms by (simp only: slice_excl_def concat_chunks le_SucI simp_thms if_True min.cobounded2)
qed

lemma chunk_span_covers_and_slices_back:
  assumes "0 < cs" "cs < 4096" "tot < 50000" "ra < tot" "rb < tot"
  shows "test_chunk_span_covers_and_slices_back cs tot ra rb"
proof -
  define c s e t where "c = unat cs" and "s = unat (min ra rb)" and "e = unat (max ra rb)" and "t = unat tot"
  have n: "0 < c" "c < 4096" "s \<le> e" "e < t" "t < 50000"
    using assms by (auto simp: c_def s_def e_def t_def word_less_nat_alt word_le_nat_alt min_def max_def)
  let ?obj = "map (\<lambda>i. of_nat (i mod 256)) [0..<t] :: bytes"
  let ?r = "\<lparr>br_start = min ra rb, br_end = max ra rb\<rparr>"
  let ?span = "\<lparr>first_chunk = min ra rb div cs, last_chunk = max ra rb div cs,
      head_skip = min ra rb mod cs, out_len = range_len ?r\<rparr>"
  have span: "chunks_for_range (test_manifest cs tot) ?r = Some ?span"
    using assms(1) by (simp add: chunks_for_range_Some test_manifest_def Let_def)
  have small: "e div c * c \<le> e" "s div c * c \<le> s" by simp_all
  have big: "(60000::nat) < 2 ^ 64" by simp
  have "s div c \<le> s" "e div c \<le> e" by (rule div_le_dividend)+
  then have bound: "s div c < 2 ^ 64" "s div c * c < 2 ^ 64" "Suc (e div c) < 2 ^ 64"
    using small n big by - (linarith, linarith, linarith)
  have "Suc (e div c) * c = e div c * c + c" by simp
  then have bound': "Suc (e div c) * c < 2 ^ 64" using small n big by linarith
  have fb: "unat (min ra rb div cs * cs) = s div c * c"
    using bound by (simp add: unat_word_ariths unat_div s_def [symmetric] c_def [symmetric])
  have "unat (max ra rb div cs + 1) = Suc (e div c)"
    using bound by (simp add: unat_word_ariths unat_div e_def [symmetric] c_def [symmetric])
  then have lb: "unat ((max ra rb div cs + 1) * cs) = Suc (e div c) * c"
    using bound' by (simp add: unat_word_ariths c_def [symmetric])
  have next': "e < Suc (e div c) * c" by (rule end_below_next_chunk [OF n(1)])
  have min': "unat (min ((max ra rb div cs + 1) * cs) tot) = min (Suc (e div c) * c) t"
    using lb by (simp add: min_def word_le_nat_alt t_def)
  have ok: "range_ok ?r (len64 ?obj)"
    using n by (simp add: range_ok_def len64_def word_le_nat_alt word_less_nat_alt unat_of_nat s_def [symmetric]
        e_def [symmetric])
  have v: "vec_ok ?obj" using n by (simp add: vec_ok_def)
  have div: "s div c \<le> e div c" using n by (simp add: div_le_mono)
  let ?lb = "min (Suc (e div c) * c) t"
  have cover: "s div c * c \<le> ?lb" "?lb \<le> length ?obj"
    using n small div next' by (auto intro: order_trans [of _ s])
  have joined: "slice_excl ?obj (s div c * c) ?lb = Some (concat (map (chunk_at c ?obj) [s div c..<Suc (e div c)]))"
    using slice_of_chunks [of "s div c" "e div c" c ?obj] cover div by simp
  have cut: "slice_span (concat (map (chunk_at c ?obj) [s div c..<Suc (e div c)])) ?span
      = Inr (take (Suc e - s) (drop s ?obj))"
    using covering_chunks [OF ok v span]
    by (simp add: test_manifest_def Let_def unat_div s_def c_def e_def)
  have "slice_incl ?obj s e = Some (take (Suc e - s) (drop s ?obj))" using n by (simp add: slice_incl_Some)
  moreover have "min ra rb div cs \<le> max ra rb div cs" using div by (simp add: word_le_nat_alt unat_div s_def e_def c_def)
  moreover have "min ra rb div cs * cs \<le> min ra rb" using fb small by (simp add: word_le_nat_alt s_def)
  moreover have "max ra rb < (max ra rb div cs + 1) * cs" using lb next' by (simp add: word_less_nat_alt e_def)
  ultimately show ?thesis
    using span joined cut fb min'
    by (simp add: test_chunk_span_covers_and_slices_back_def Let_def s_def [symmetric] e_def [symmetric] t_def [symmetric]
        del: upt_Suc)
qed

section \<open>Limits\<close>

definition test_valid_cid_is_64_lowercase_hex :: bool where
  "test_valid_cid_is_64_lowercase_hex \<longleftrightarrow>
     is_valid_cid (replicate 64 (CHR ''a'')) \<and> is_valid_cid (concat (replicate 4 ''0123456789abcdef''))"

lemma valid_cid_is_64_lowercase_hex: test_valid_cid_is_64_lowercase_hex
  by code_simp

definition test_invalid_cid_rejected :: bool where
  "test_invalid_cid_rejected \<longleftrightarrow>
     \<not> is_valid_cid [] \<and> \<not> is_valid_cid (replicate 63 (CHR ''a'')) \<and> \<not> is_valid_cid (replicate 65 (CHR ''a'')) \<and>
     \<not> is_valid_cid (replicate 64 (CHR ''A'')) \<and> \<not> is_valid_cid (replicate 64 (CHR ''g'')) \<and>
     \<not> is_valid_cid (replicate 63 (CHR ''a'') @ ''/'')"

lemma invalid_cid_rejected: test_invalid_cid_rejected
  by code_simp

definition test_acceptable_charset_filters_bad_paths :: bool where
  "test_acceptable_charset_filters_bad_paths \<longleftrightarrow>
     is_acceptable_cid_charset (replicate 64 (CHR ''a'')) \<and> is_acceptable_cid_charset ''obj-1.bin'' \<and>
     \<not> is_acceptable_cid_charset [] \<and> \<not> is_acceptable_cid_charset ''has space'' \<and>
     \<not> is_acceptable_cid_charset ''a/b'' \<and> \<not> is_acceptable_cid_charset ''%2e%2e'' \<and>
     \<not> is_acceptable_cid_charset (replicate (unat MAX_CID_LEN + 1) (CHR ''x''))"

lemma acceptable_charset_filters_bad_paths: test_acceptable_charset_filters_bad_paths
  by code_simp

definition test_limits_are_coherent :: bool where
  "test_limits_are_coherent \<longleftrightarrow>
     (let obj = MAX_MESH_OBJECT_BYTES; rng = MAX_MESH_RANGE_BYTES; caps = MAX_CAPS_HEX_LEN; req = MAX_REQUEST_BYTES
      in sat_mul obj 2 < 64 * 1024 * 1024 \<and> rng = obj \<and> caps \<le> sat_mul req 2)"

lemma limits_are_coherent: test_limits_are_coherent
  by code_simp

section \<open>Replica ranking\<close>

definition test_ranks_proven_edges_first :: bool where
  "test_ranks_proven_edges_first \<longleftrightarrow>
     map ec_node_id (rank [EdgeCandidate ''a'' 0 10 1000, EdgeCandidate ''b'' 5 100 500, EdgeCandidate ''c'' 5 10 500])
       = [''c'', ''b'', ''a'']"

lemma ranks_proven_edges_first: test_ranks_proven_edges_first
  by code_simp

definition test_mem_breaks_ties_after_work_and_liveness :: bool where
  "test_mem_breaks_ties_after_work_and_liveness \<longleftrightarrow>
     ec_node_id (rank [EdgeCandidate ''x'' 3 50 256, EdgeCandidate ''y'' 3 50 4096] ! 0) = ''y''"

lemma mem_breaks_ties_after_work_and_liveness: test_mem_breaks_ties_after_work_and_liveness
  by code_simp

definition test_node_id_is_final_tiebreak :: bool where
  "test_node_id_is_final_tiebreak \<longleftrightarrow>
     ec_node_id (rank [EdgeCandidate ''z'' 1 1 1, EdgeCandidate ''a'' 1 1 1] ! 0) = ''a''"

lemma node_id_is_final_tiebreak: test_node_id_is_final_tiebreak
  by code_simp

definition test_select_excludes_and_caps :: bool where
  "test_select_excludes_and_caps \<longleftrightarrow>
     select [EdgeCandidate ''a'' 9 1 1, EdgeCandidate ''b'' 8 1 1, EdgeCandidate ''c'' 7 1 1] 2 [''a''] = [''b'', ''c'']"

lemma select_excludes_and_caps: test_select_excludes_and_caps
  by code_simp

definition test_select_handles_fewer_candidates :: bool where
  "test_select_handles_fewer_candidates \<longleftrightarrow> select [EdgeCandidate ''a'' 1 1 1] 5 [] = [''a'']"

lemma select_handles_fewer_candidates: test_select_handles_fewer_candidates
  by code_simp

definition test_select_on_empty_is_empty :: bool where
  "test_select_on_empty_is_empty \<longleftrightarrow> select [] 3 [] = []"

lemma select_on_empty_is_empty: test_select_on_empty_is_empty
  by code_simp

definition test_replicas_needed_and_rereplication :: bool where
  "test_replicas_needed_and_rereplication \<longleftrightarrow>
     replicas_needed 3 1 = 2 \<and> replicas_needed 3 3 = 0 \<and> replicas_needed 3 5 = 0 \<and>
     needs_rereplication 3 2 \<and> \<not> needs_rereplication 3 3 \<and> \<not> needs_rereplication 3 4"

lemma replicas_needed_and_rereplication: test_replicas_needed_and_rereplication
  by code_simp

end
