(* ===== verification/Tests_Edge.thy ===== *)
theory Tests_Edge
  imports Edge Host Tests_Range
begin

text \<open>
  The unit tests of \<open>src/edge.rs\<close>, of the decisions and the token window of \<open>src/host.rs\<close>, and of the names
  of \<open>src/proto.rs\<close>, each the conjunction of its assertions over the model, with the lemma that it holds.
  The tests of the JSON codecs are of \<open>serde_json\<close>, which is a parameter.
\<close>

section \<open>Responses\<close>

text \<open>The budget \<open>1 << 20\<close> of the tests, with its value for evaluation.\<close>

definition one_mib :: u64 where
  "one_mib = push_bit 20 1"

lemma one_mib_value [code]: "one_mib = 1048576"
  by (simp add: one_mib_def)

definition cache_with :: "string \<Rightarrow> bytes \<Rightarrow> u64 \<Rightarrow> u64 \<Rightarrow> edge_cache" where
  "cache_with cid bs ttl now = snd (cache_insert cid bs now (cache_new one_mib ttl))"

text \<open>A header that is there, and what it contains.\<close>

definition header_has :: "edge_response \<Rightarrow> string \<Rightarrow> string \<Rightarrow> bool" where
  "header_has r name part \<longleftrightarrow>
     (case response_header r name of None \<Rightarrow> False | Some v \<Rightarrow> contains_str v part)"

definition test_full_hit_has_cache_headers :: bool where
  "test_full_hit_has_cache_headers \<longleftrightarrow>
     (let bs = str_bytes ''hello world''
      in case serve ''cid1'' bs None Public (cache_with ''cid1'' bs 3600 0) 0 True of
           None \<Rightarrow> False
         | Some resp \<Rightarrow>
             status resp = 200 \<and> body resp = BodyFull bs \<and> response_header resp ''X-Cache'' = Some ''HIT'' \<and>
             response_header resp ''ETag'' = Some (etag ''cid1'') \<and> response_header resp ''Accept-Ranges'' = Some ''bytes'' \<and>
             response_header resp ''Content-Length'' = Some ''11'' \<and>
             header_has resp ''Cache-Control'' ''immutable'' \<and> header_has resp ''Cache-Control'' ''max-age=3600'')"

lemma full_hit_has_cache_headers: test_full_hit_has_cache_headers
  by code_simp

definition test_miss_marks_x_cache_miss :: bool where
  "test_miss_marks_x_cache_miss \<longleftrightarrow>
     (let bs = str_bytes ''abc''
      in case serve ''cid1'' bs None Public (cache_with ''cid1'' bs 60 0) 0 False of
           None \<Rightarrow> False
         | Some resp \<Rightarrow> response_header resp ''X-Cache'' = Some ''MISS'')"

lemma miss_marks_x_cache_miss: test_miss_marks_x_cache_miss
  by code_simp

definition test_range_request_206 :: bool where
  "test_range_request_206 \<longleftrightarrow>
     (let bs = map of_nat [0..<100]
      in case serve ''cid1'' bs (Some ''bytes=10-19'') Public (cache_with ''cid1'' bs 60 0) 0 True of
           None \<Rightarrow> False
         | Some resp \<Rightarrow>
             status resp = 206 \<and> response_header resp ''Content-Range'' = Some ''bytes 10-19/100'' \<and>
             response_header resp ''Content-Length'' = Some ''10'' \<and>
             body resp = BodyPartial (map of_nat [10..<20]) \<lparr>br_start = 10, br_end = 19\<rparr> 100)"

lemma range_request_yields_206: test_range_request_206
  by code_simp

definition test_unsatisfiable_range_yields_416 :: bool where
  "test_unsatisfiable_range_yields_416 \<longleftrightarrow>
     (let bs = replicate 50 0
      in case serve ''cid1'' bs (Some ''bytes=100-200'') Public (cache_with ''cid1'' bs 60 0) 0 True of
           None \<Rightarrow> False
         | Some resp \<Rightarrow>
             status resp = 416 \<and> response_header resp ''Content-Range'' = Some ''bytes */50'' \<and> body resp = BodyNone)"

lemma unsatisfiable_range_yields_416: test_unsatisfiable_range_yields_416
  by code_simp

definition test_malformed_range_degrades_to_full_200 :: bool where
  "test_malformed_range_degrades_to_full_200 \<longleftrightarrow>
     (let bs = replicate 8 7
      in case serve ''cid1'' bs (Some ''bytes=garbage'') Public (cache_with ''cid1'' bs 60 0) 0 True of
           None \<Rightarrow> False
         | Some resp \<Rightarrow> status resp = 200 \<and> body resp = BodyFull bs)"

lemma malformed_range_degrades_to_full_200: test_malformed_range_degrades_to_full_200
  by code_simp

definition test_denied_access_yields_403 :: bool where
  "test_denied_access_yields_403 \<longleftrightarrow>
     (let bs = replicate 4 1
      in case serve ''cid1'' bs None Denied (cache_with ''cid1'' bs 60 0) 0 True of
           None \<Rightarrow> False
         | Some resp \<Rightarrow> status resp = 403 \<and> body resp = BodyNone)"

lemma denied_access_yields_403: test_denied_access_yields_403
  by code_simp

definition test_authorized_private_serves_like_public :: bool where
  "test_authorized_private_serves_like_public \<longleftrightarrow>
     (let bs = str_bytes ''secret''
      in case serve ''cid1'' bs None Authorized (cache_with ''cid1'' bs 60 0) 0 True of
           None \<Rightarrow> False
         | Some resp \<Rightarrow> status resp = 200 \<and> body resp = BodyFull bs)"

lemma authorized_private_serves_like_public: test_authorized_private_serves_like_public
  by code_simp

definition test_not_found_is_404 :: bool where
  "test_not_found_is_404 \<longleftrightarrow>
     (let resp = not_found ''missingcid''
      in status resp = 404 \<and> response_header resp ''X-Cache'' = Some ''MISS'' \<and> body resp = BodyNone)"

lemma not_found_is_404: test_not_found_is_404
  by code_simp

definition test_age_header_reflects_insertion_time :: bool where
  "test_age_header_reflects_insertion_time \<longleftrightarrow>
     (let bs = replicate 4 0
      in case serve ''cid1'' bs None Public (cache_with ''cid1'' bs 3600 100) 150 True of
           None \<Rightarrow> False
         | Some resp \<Rightarrow> response_header resp ''Age'' = Some ''50'' \<and> header_has resp ''Cache-Control'' ''max-age=3550'')"

lemma age_header_reflects_insertion_time: test_age_header_reflects_insertion_time
  by code_simp

text \<open>The test of one validator under a name, so that evaluation does not go under a \<open>\<lambda>\<close>.\<close>

definition tag_matches :: "string \<Rightarrow> string \<Rightarrow> bool" where
  "tag_matches cid raw =
     (let t0 = trim raw;
          t = trim (case strip_prefix ''W/'' t0 of None \<Rightarrow> t0 | Some u \<Rightarrow> u)
      in t = ''*'' \<or> t = etag cid)"

lemma if_none_match_code [code]:
  "if_none_match_matches header cid =
     (case header of None \<Rightarrow> False | Some h \<Rightarrow> list_ex (tag_matches cid) (split_char CHR '','' h))"
  by (simp add: if_none_match_matches_def tag_matches_def [abs_def] split: option.split)

definition test_if_none_match_strong_weak :: bool where
  "test_if_none_match_strong_weak \<longleftrightarrow>
     if_none_match_matches (Some (etag ''cid1'')) ''cid1'' \<and>
     if_none_match_matches (Some (''W/'' @ etag ''cid1'')) ''cid1'' \<and>
     if_none_match_matches (Some ''*'') ''anything'' \<and>
     if_none_match_matches (Some (etag ''x'' @ '', '' @ etag ''cid1'' @ '', '' @ etag ''y'')) ''cid1'' \<and>
     \<not> if_none_match_matches (Some (etag ''other'')) ''cid1'' \<and> \<not> if_none_match_matches None ''cid1''"

lemma if_none_match_strong_weak_and_wildcard: test_if_none_match_strong_weak
  by code_simp

definition test_not_modified_has_validators_and_no_body :: bool where
  "test_not_modified_has_validators_and_no_body \<longleftrightarrow>
     (let resp = not_modified ''cid1'' (cache_with ''cid1'' (replicate 4 0) 3600 0) 0
      in status resp = 304 \<and> body resp = BodyNone \<and> response_header resp ''ETag'' = Some (etag ''cid1'') \<and>
         header_has resp ''Cache-Control'' ''immutable'')"

lemma not_modified_has_validators_and_no_body: test_not_modified_has_validators_and_no_body
  by code_simp

text \<open>What follows the first occurrence of a pattern, as \<open>split(p).nth(1)\<close> up to the next one.\<close>

fun after_str :: "string \<Rightarrow> string \<Rightarrow> string option" where
  "after_str p [] = None"
| "after_str p (c # cs) = (if take (length p) (c # cs) = p then Some (drop (length p) (c # cs)) else after_str p cs)"

definition test_never_expiring_entry_reports_long_max_age :: bool where
  "test_never_expiring_entry_reports_long_max_age \<longleftrightarrow>
     (let bs = replicate 4 0
      in case serve ''cid1'' bs None Public (cache_with ''cid1'' bs 0 0) 0 True of
           None \<Rightarrow> False
         | Some resp \<Rightarrow>
             (case Option.bind (response_header resp ''Cache-Control'') (\<lambda>cc.
                     Option.bind (after_str ''max-age='' cc) (\<lambda>s.
                       parse_u64 (takeWhile (\<lambda>c. c \<noteq> CHR '','' \<and> c \<noteq> CHR '' '') s))) of
                None \<Rightarrow> False
              | Some max_age \<Rightarrow> 31536000 \<le> max_age))"

lemma never_expiring_entry_reports_long_max_age: test_never_expiring_entry_reports_long_max_age
  by code_simp

end
