(* ===== verification/Tests_Server.thy ===== *)
theory Tests_Server
  imports Http_Wire Tests_Edge
begin

text \<open>
  The unit and HTTP tests of \<open>src/server.rs\<close>: requests sent one after the other to a server whose origin is
  a map with a counter of its fetches, and the assertions on the replies. Verifier, hex decoder and capability
  library are arguments, so that each lemma says that the test passes whatever they do; where a test
  mints an identity, the lemma assumes what \<open>ce-identity\<close> promises of its signatures.
\<close>

section \<open>Harness\<close>

text \<open>\<open>MapOrigin\<close>: the world is the number of fetches so far.\<close>

definition map_origin :: "(string \<times> bytes) list \<Rightarrow> string \<Rightarrow> nat \<Rightarrow> bytes result \<times> nat" where
  "map_origin objects cid n =
     ((case map_of objects cid of
         Some b \<Rightarrow> Inr b
       | None \<Rightarrow> Inl (''origin does not hold '' @ cid)), Suc n)"

definition state_with :: "string list \<Rightarrow> node_id \<Rightarrow> node_id list \<Rightarrow> server_config \<times> server_state" where
  "state_with public edge_id roots =
     (let edge = edge_state_new one_mib 3600
      in server_new (edge\<lparr>es_public := fold allow_public public (es_public edge)\<rparr>) edge_id roots)"

definition get_of :: "string \<Rightarrow> (string \<times> string) list \<Rightarrow> http_request" where
  "get_of path hs = \<lparr>hq_method = GET, hq_path = path, hq_query = None, hq_headers = hs\<rparr>"

definition head_of :: "string \<Rightarrow> (string \<times> string) list \<Rightarrow> http_request" where
  "head_of path hs = \<lparr>hq_method = HEAD, hq_path = path, hq_query = None, hq_headers = hs\<rparr>"

definition resp_header :: "http_response \<Rightarrow> string \<Rightarrow> string option" where
  "resp_header r name = map_of (hr_headers r) name"

definition resp_has :: "http_response \<Rightarrow> string \<Rightarrow> string \<Rightarrow> bool" where
  "resp_has r name part \<longleftrightarrow> (case resp_header r name of None \<Rightarrow> False | Some v \<Rightarrow> contains_str v part)"

text \<open>\<open>String::from_utf8_lossy(&r.body).contains(p)\<close> for an ASCII pattern.\<close>

definition body_contains :: "http_response \<Rightarrow> string \<Rightarrow> bool" where
  "body_contains r p \<longleftrightarrow> contains_str (bytes_str (hr_body r)) p"

text \<open>The replies to a sequence of requests, all handled in the same second, and the fetches they made.\<close>

definition exchange ::
  "verifier \<Rightarrow> (string \<Rightarrow> bytes option) \<Rightarrow> 'ch iam \<Rightarrow> (string \<times> bytes) list \<Rightarrow> server_config \<times> server_state
     \<Rightarrow> u64 \<Rightarrow> http_request list \<Rightarrow> (http_response list \<times> nat) option" where
  "exchange vf dec iam objects srv now reqs =
     map_option (\<lambda>(rs, sv, n). (rs, n))
       (http_run vf dec iam (map_origin objects) (\<lambda>s. ''0'') (fst srv) (map (Pair now) reqs) (snd srv) 0)"

lemma http_run_append:
  "http_run vf dec iam origin ratio cfg (xs @ ys) sv w =
     (case http_run vf dec iam origin ratio cfg xs sv w of
        None \<Rightarrow> None
      | Some (rs, sv1, w1) \<Rightarrow> map_option (\<lambda>(qs, s). (rs @ qs, s)) (http_run vf dec iam origin ratio cfg ys sv1 w1))"
proof (induction xs arbitrary: sv w)
  case Nil
  then show ?case by (simp add: case_prod_beta option.map_id)
next
  case (Cons x xs)
  then show ?case by (cases x) (auto simp: option.map_comp comp_def case_prod_beta split: option.split)
qed

definition any_edge :: node_id where
  "any_edge = replicate 32 9"

section \<open>Tests of public content\<close>

definition test_http_full_get ::
  "verifier \<Rightarrow> (string \<Rightarrow> bytes option) \<Rightarrow> 'ch iam \<Rightarrow> bool" where
  "test_http_full_get vf dec iam \<longleftrightarrow>
     (case exchange vf dec iam [(''cidA'', str_bytes ''hello world'')] (state_with [''cidA''] any_edge []) 1000
             [get_of ''/cdn/cidA'' [], get_of ''/cdn/cidA'' []] of
        Some ([r, r2], n) \<Rightarrow>
          hr_status r = 200 \<and> hr_body r = str_bytes ''hello world'' \<and>
          resp_header r ''etag'' = Some (etag ''cidA'') \<and> resp_header r ''accept-ranges'' = Some ''bytes'' \<and>
          resp_header r ''content-length'' = Some ''11'' \<and> resp_has r ''cache-control'' ''immutable'' \<and>
          resp_header r ''x-cache'' = Some ''MISS'' \<and>
          resp_header r2 ''x-cache'' = Some ''HIT'' \<and> hr_body r2 = str_bytes ''hello world''
      | _ \<Rightarrow> False)"

lemma http_full_get_has_cache_headers_and_body: "test_http_full_get vf dec iam"
  by code_simp

definition test_http_range :: "verifier \<Rightarrow> (string \<Rightarrow> bytes option) \<Rightarrow> 'ch iam \<Rightarrow> bool" where
  "test_http_range vf dec iam \<longleftrightarrow>
     (case exchange vf dec iam [(''r'', map of_nat [0..<100])] (state_with [''r''] any_edge []) 1000
             [get_of ''/cdn/r'' [(''range'', ''bytes=10-19'')]] of
        Some ([r], n) \<Rightarrow>
          hr_status r = 206 \<and> resp_header r ''content-range'' = Some ''bytes 10-19/100'' \<and>
          resp_header r ''content-length'' = Some ''10'' \<and> hr_body r = map of_nat [10..<20]
      | _ \<Rightarrow> False)"

lemma http_range_yields_206_with_content_range: "test_http_range vf dec iam"
  by code_simp

definition test_http_unsatisfiable :: "verifier \<Rightarrow> (string \<Rightarrow> bytes option) \<Rightarrow> 'ch iam \<Rightarrow> bool" where
  "test_http_unsatisfiable vf dec iam \<longleftrightarrow>
     (case exchange vf dec iam [(''s'', replicate 50 0)] (state_with [''s''] any_edge []) 1000
             [get_of ''/cdn/s'' [(''range'', ''bytes=100-200'')]] of
        Some ([r], n) \<Rightarrow>
          hr_status r = 416 \<and> resp_header r ''content-range'' = Some ''bytes */50'' \<and> hr_body r = []
      | _ \<Rightarrow> False)"

lemma http_unsatisfiable_range_yields_416: "test_http_unsatisfiable vf dec iam"
  by code_simp

definition test_http_malformed_range :: "verifier \<Rightarrow> (string \<Rightarrow> bytes option) \<Rightarrow> 'ch iam \<Rightarrow> bool" where
  "test_http_malformed_range vf dec iam \<longleftrightarrow>
     (case exchange vf dec iam [(''m'', replicate 8 7)] (state_with [''m''] any_edge []) 1000
             [get_of ''/cdn/m'' [(''range'', ''bytes=garbage'')]] of
        Some ([r], n) \<Rightarrow> hr_status r = 200 \<and> hr_body r = replicate 8 7
      | _ \<Rightarrow> False)"

lemma http_malformed_range_degrades_to_full_200: "test_http_malformed_range vf dec iam"
  by code_simp

definition test_http_missing_cid :: "verifier \<Rightarrow> (string \<Rightarrow> bytes option) \<Rightarrow> 'ch iam \<Rightarrow> bool" where
  "test_http_missing_cid vf dec iam \<longleftrightarrow>
     (case exchange vf dec iam [] (state_with [''nope''] any_edge []) 1000 [get_of ''/cdn/nope'' []] of
        Some ([r], n) \<Rightarrow> hr_status r = 404
      | _ \<Rightarrow> False)"

lemma http_missing_cid_is_404: "test_http_missing_cid vf dec iam"
  by code_simp

definition test_http_private_denied :: "verifier \<Rightarrow> (string \<Rightarrow> bytes option) \<Rightarrow> 'ch iam \<Rightarrow> bool" where
  "test_http_private_denied vf dec iam \<longleftrightarrow>
     (case exchange vf dec iam [(''secret'', str_bytes ''xx'')] (state_with [] any_edge []) 1000
             [get_of ''/cdn/secret'' []] of
        Some ([r], n) \<Rightarrow> hr_status r = 403 \<and> (hr_body r = [] \<or> resp_header r ''content-length'' = Some ''0'') \<and> n = 0
      | _ \<Rightarrow> False)"

lemma http_private_content_without_capability_is_403: "test_http_private_denied vf dec iam"
  by code_simp

definition test_http_health :: "verifier \<Rightarrow> (string \<Rightarrow> bytes option) \<Rightarrow> 'ch iam \<Rightarrow> bool" where
  "test_http_health vf dec iam \<longleftrightarrow>
     (case exchange vf dec iam [] (state_with [] any_edge []) 1000 [get_of ''/health'' [], get_of ''/nope'' []] of
        Some ([h, nf], n) \<Rightarrow> hr_status h = 200 \<and> hr_body h = str_bytes ''ok'' \<and> hr_status nf = 404
      | _ \<Rightarrow> False)"

lemma http_health_ok_and_unknown_path_404: "test_http_health vf dec iam"
  by code_simp

definition test_http_head :: "verifier \<Rightarrow> (string \<Rightarrow> bytes option) \<Rightarrow> 'ch iam \<Rightarrow> bool" where
  "test_http_head vf dec iam \<longleftrightarrow>
     (case exchange vf dec iam [(''h'', str_bytes ''abcdef'')] (state_with [''h''] any_edge []) 1000
             [get_of ''/cdn/h'' [], head_of ''/cdn/h'' []] of
        Some ([r0, r], n) \<Rightarrow>
          hr_status r = 200 \<and> resp_header r ''content-length'' = Some ''6'' \<and>
          resp_header r ''etag'' = Some (etag ''h'') \<and> hr_body r = []
      | _ \<Rightarrow> False)"

lemma http_head_keeps_headers_drops_body: "test_http_head vf dec iam"
  by code_simp

definition test_http_if_none_match :: "verifier \<Rightarrow> (string \<Rightarrow> bytes option) \<Rightarrow> 'ch iam \<Rightarrow> bool" where
  "test_http_if_none_match vf dec iam \<longleftrightarrow>
     (case exchange vf dec iam [(''inm'', str_bytes ''body bytes'')] (state_with [''inm''] any_edge []) 1000
             [get_of ''/cdn/inm'' [], get_of ''/cdn/inm'' [(''if-none-match'', etag ''inm'')],
              get_of ''/cdn/inm'' [(''if-none-match'', etag ''other'')]] of
        Some ([r0, r, full], n) \<Rightarrow>
          hr_status r = 304 \<and> hr_body r = [] \<and> resp_header r ''etag'' = Some (etag ''inm'') \<and>
          hr_status full = 200 \<and> hr_body full = str_bytes ''body bytes''
      | _ \<Rightarrow> False)"

lemma http_if_none_match_yields_304_no_body: "test_http_if_none_match vf dec iam"
  by code_simp

definition test_http_negative_cache :: "verifier \<Rightarrow> (string \<Rightarrow> bytes option) \<Rightarrow> 'ch iam \<Rightarrow> bool" where
  "test_http_negative_cache vf dec iam \<longleftrightarrow>
     (case exchange vf dec iam [] (state_with [''ghost''] any_edge []) 1000
             [get_of ''/cdn/ghost'' [], get_of ''/cdn/ghost'' [], get_of ''/cdn/ghost'' []] of
        Some ([r1, r2, r3], n) \<Rightarrow> hr_status r1 = 404 \<and> hr_status r2 = 404 \<and> hr_status r3 = 404 \<and> n = 1
      | _ \<Rightarrow> False)"

lemma http_negative_cache_serves_404_without_rehitting_origin: "test_http_negative_cache vf dec iam"
  by code_simp

definition test_http_metrics :: "verifier \<Rightarrow> (string \<Rightarrow> bytes option) \<Rightarrow> 'ch iam \<Rightarrow> bool" where
  "test_http_metrics vf dec iam \<longleftrightarrow>
     (case exchange vf dec iam [(''m1'', str_bytes ''abc'')] (state_with [''m1''] any_edge []) 1000
             [get_of ''/cdn/m1'' [], get_of ''/cdn/m1'' [], get_of ''/metrics'' []] of
        Some ([r1, r2, r], n) \<Rightarrow>
          hr_status r = 200 \<and> resp_has r ''content-type'' ''text/plain'' \<and>
          body_contains r ''ce_cdn_cache_hits_total 1'' \<and>
          body_contains r (''ce_cdn_object_hits_total{cid='' @ quoted ''m1'' @ ''} 1'')
      | _ \<Rightarrow> False)"

lemma metrics_state:
  "case http_run vf dec iam (map_origin [(''m1'', str_bytes ''abc'')]) (\<lambda>s. ''0'') (fst (state_with [''m1''] any_edge []))
        [(1000, get_of ''/cdn/m1'' []), (1000, get_of ''/cdn/m1'' [])] (snd (state_with [''m1''] any_edge [])) 0 of
     Some (rs, sv, n) \<Rightarrow>
       (let text = metrics_prometheus (stats (sv_cache sv)) (object_stats (sv_cache sv))
        in length rs = 2 \<and> contains_str text ''ce_cdn_cache_hits_total 1'' \<and>
           contains_str text (''ce_cdn_object_hits_total{cid='' @ quoted ''m1'' @ ''} 1''))
   | None \<Rightarrow> False"
  by code_simp

lemma http_metrics_endpoint_is_prometheus: "test_http_metrics vf dec iam"
proof -
  have plain: "contains_str ''text/plain; version=0.0.4'' ''text/plain''" by code_simp
  have metrics: "http_handle vf dec iam origin ratio cfg (get_of ''/metrics'' []) now sv w = Some
      (\<lparr>hr_status = 200, hr_headers = [(''content-type'', ''text/plain; version=0.0.4'')],
        hr_body = str_bytes (metrics_prometheus (stats (sv_cache sv)) (object_stats (sv_cache sv)))\<rparr>, sv, w)"
    for origin :: "string \<Rightarrow> nat \<Rightarrow> bytes result \<times> nat" and ratio cfg now sv w
    by (simp add: http_handle_def get_of_def)
  let ?get = "(1000, get_of ''/cdn/m1'' [])" and ?server = "state_with [''m1''] any_edge []"
  obtain rs sv n where run: "http_run vf dec iam (map_origin [(''m1'', str_bytes ''abc'')]) (\<lambda>s. ''0'') (fst ?server)
      [?get, ?get] (snd ?server) 0 = Some (rs, sv, n)"
    and found: "length rs = 2"
      "contains_str (metrics_prometheus (stats (sv_cache sv)) (object_stats (sv_cache sv))) ''ce_cdn_cache_hits_total 1''"
      "contains_str (metrics_prometheus (stats (sv_cache sv)) (object_stats (sv_cache sv)))
         (''ce_cdn_object_hits_total{cid='' @ quoted ''m1'' @ ''} 1'')"
    using metrics_state [of vf dec iam] by (auto simp only: Let_def split: option.splits prod.splits)
  obtain r1 r2 where rs: "rs = [r1, r2]" using found(1) by (auto simp: length_Suc_conv numeral_2_eq_2)
  have "http_run vf dec iam (map_origin [(''m1'', str_bytes ''abc'')]) (\<lambda>s. ''0'') (fst ?server)
      ([?get, ?get] @ [(1000, get_of ''/metrics'' [])]) (snd ?server) 0 = Some ([r1, r2,
        \<lparr>hr_status = 200, hr_headers = [(''content-type'', ''text/plain; version=0.0.4'')],
         hr_body = str_bytes (metrics_prometheus (stats (sv_cache sv)) (object_stats (sv_cache sv)))\<rparr>], sv, n)"
    unfolding http_run_append run by (simp add: rs metrics)
  with found plain show ?thesis
    by (simp only: test_http_metrics_def exchange_def list.map append.simps) 
      (simp add: resp_has_def resp_header_def body_contains_def del: append.simps)
qed

definition test_http_oversize :: "verifier \<Rightarrow> (string \<Rightarrow> bytes option) \<Rightarrow> 'ch iam \<Rightarrow> bool" where
  "test_http_oversize vf dec iam \<longleftrightarrow>
     (case exchange vf dec iam [(''big'', replicate 4096 0)]
             (with_max_object_bytes 1024 (state_with [''big''] any_edge [])) 1000 [get_of ''/cdn/big'' []] of
        Some ([r], n) \<Rightarrow> hr_status r = 413
      | _ \<Rightarrow> False)"

lemma http_oversize_object_is_413: "test_http_oversize vf dec iam"
proof -
  have cid: "is_acceptable_cid_charset ''big''" "strip_prefix ''/cdn/'' ''/cdn/big'' = Some ''big''"
    "trim_end_matches (CHR ''/'') ''big'' = ''big''"
    by code_simp+
  have origin: "map_origin [(''big'', replicate 4096 0)] ''big'' 0 = (Inr (replicate 4096 0), 1)"
    by (simp add: map_origin_def)
  have big: "len64 (replicate 4096 (0 :: u8)) = 4096" by (simp add: len64_def)
  show ?thesis
    by (simp add: test_http_oversize_def exchange_def state_with_def Let_def edge_state_new_def server_new_def
        with_max_object_bytes_def get_of_def http_handle_def cid serve_cid_def http_access_def resolve_grant_def
        is_public_def allow_public_def public_new_def grant_access_def header_str_def if_none_match_matches_def
        obtain_bytes_def contains_fresh_def cache_new_def is_negative_def cache_get_def next_tick_def cold_bytes_def
        fetch_and_store_def origin big text_resp_def hm_get_def)
qed

definition test_http_invalid_cid :: "verifier \<Rightarrow> (string \<Rightarrow> bytes option) \<Rightarrow> 'ch iam \<Rightarrow> bool" where
  "test_http_invalid_cid vf dec iam \<longleftrightarrow>
     (case exchange vf dec iam [] (state_with [] any_edge []) 1000 [get_of ''/cdn/%2e%2e'' []] of
        Some ([r], n) \<Rightarrow> hr_status r = 404
      | _ \<Rightarrow> False)"

lemma http_invalid_cid_charset_is_404: "test_http_invalid_cid vf dec iam"
  by code_simp

definition test_http_fetched_once :: "verifier \<Rightarrow> (string \<Rightarrow> bytes option) \<Rightarrow> 'ch iam \<Rightarrow> bool" where
  "test_http_fetched_once vf dec iam \<longleftrightarrow>
     (case exchange vf dec iam [(''once'', str_bytes ''data'')] (state_with [''once''] any_edge []) 1000
             [get_of ''/cdn/once'' [], get_of ''/cdn/once'' [], get_of ''/cdn/once'' []] of
        Some (rs, n) \<Rightarrow> n = 1
      | _ \<Rightarrow> False)"

lemma http_origin_fetched_once_then_served_from_cache: "test_http_fetched_once vf dec iam"
  by code_simp

text \<open>The parser of replies; the header names of the test are ASCII.\<close>

definition test_parse_reply :: bool where
  "test_parse_reply \<longleftrightarrow>
     (case parse_reply (map to_ascii_lower)
             (str_bytes (''HTTP/1.1 206 Partial Content'' @ CRLF @ ''Content-Range: bytes 0-3/10'' @ CRLF
                @ ''Content-Length: 4'' @ CRLF @ CRLF @ ''ABCD'')) of
        Inl e \<Rightarrow> False
      | Inr r \<Rightarrow>
          rp_status r = 206 \<and> reply_header r ''content-range'' = Some ''bytes 0-3/10'' \<and> rp_body r = str_bytes ''ABCD'')"

lemma parse_reply_extracts_status_headers_body: test_parse_reply
  by code_simp

definition test_parse_reply_malformed :: bool where
  "test_parse_reply_malformed \<longleftrightarrow> isl (parse_reply (map to_ascii_lower) (str_bytes ''no separator here''))"

lemma parse_reply_rejects_malformed: test_parse_reply_malformed
  by code_simp

section \<open>Helpers of the server\<close>

definition test_resolve_access_public ::
  "verifier \<Rightarrow> (string \<Rightarrow> bytes option) \<Rightarrow> 'ch iam \<Rightarrow> bool" where
  "test_resolve_access_public vf dec iam \<longleftrightarrow>
     resolve_access vf dec iam ''pub'' (allow_public ''pub'' public_new) (replicate 32 1) [] (replicate 32 2) None [] 0
       = Public"

lemma resolve_access_public_is_open: "test_resolve_access_public vf dec iam"
  by code_simp

definition test_resolve_access_private ::
  "verifier \<Rightarrow> (string \<Rightarrow> bytes option) \<Rightarrow> 'ch iam \<Rightarrow> bool" where
  "test_resolve_access_private vf dec iam \<longleftrightarrow>
     resolve_access vf dec iam ''priv'' public_new (replicate 32 1) [] (replicate 32 2) None [] 0 = Denied"

lemma resolve_access_private_without_caps_is_denied: "test_resolve_access_private vf dec iam"
  by code_simp

definition test_resolve_access_garbage ::
  "verifier \<Rightarrow> (string \<Rightarrow> bytes option) \<Rightarrow> 'ch iam \<Rightarrow> bool" where
  "test_resolve_access_garbage vf dec iam \<longleftrightarrow>
     resolve_access vf dec iam ''priv'' public_new (replicate 32 1) [] (replicate 32 2) None ''not-hex-!!'' 0 = Denied"

lemma resolve_access_private_with_garbage_caps_is_denied: "test_resolve_access_garbage vf dec iam"
  by code_simp

definition test_status_json :: bool where
  "test_status_json \<longleftrightarrow>
     (let s = \<lparr>st_hits = 3, st_misses = 1, st_expirations = 0, st_evictions = 0, st_entries = 2, st_bytes = 30,
               st_negative_hits = 0, st_tombstones = 0\<rparr>;
          json = status_json (\<lambda>s. ''0.750000'') s [(''aaa'', 10), (''bbb'', 20)]
      in contains_str json (quoted ''hits'' @ '':3'') \<and> contains_str json (quoted ''bytes'' @ '':30'') \<and>
         contains_str json (''{'' @ quoted ''cid'' @ '':'' @ quoted ''aaa'' @ '','' @ quoted ''bytes'' @ '':10}'') \<and>
         contains_str json (''{'' @ quoted ''cid'' @ '':'' @ quoted ''bbb'' @ '','' @ quoted ''bytes'' @ '':20}''))"

lemma status_json_includes_per_cid_sizes: test_status_json
  by code_simp

definition test_resolve_grant ::
  "verifier \<Rightarrow> (bytes \<Rightarrow> string) \<Rightarrow> (string \<Rightarrow> bytes option) \<Rightarrow> 'ch iam \<Rightarrow> node_id \<Rightarrow> (bytes \<Rightarrow> bytes) \<Rightarrow> bool" where
  "test_resolve_grant vf enc dec iam signer sign \<longleftrightarrow>
     resolve_grant vf dec iam ''pub'' (allow_public ''pub'' public_new) (replicate 32 1) [] [] (replicate 32 2) None [] [] 0
       = GPublic \<and>
     resolve_grant vf dec iam ''priv'' public_new (replicate 32 1) [] [signer] (replicate 32 2) None
       (presign_query enc sign ''priv'' 1000) [] 900 = GPresigned"

lemma resolve_grant_prefers_public_then_presign:
  "hex_codec enc dec \<Longrightarrow> signs vf signer sign \<Longrightarrow> test_resolve_grant vf enc dec iam signer sign"
  by (simp add: test_resolve_grant_def resolve_grant_def is_public_def allow_public_def public_new_def
      verify_minted_link [where key = signer])

end
