(* ===== verification/Tests_Host.thy ===== *)
theory Tests_Host
  imports Host Tests_Range
begin

text \<open>
  The unit tests of \<open>src/host.rs\<close> and \<open>src/proto.rs\<close>: the access decisions, the window of reply tokens and
  the names of the protocol. The tests of the JSON codecs and of the clock are of parameters.
\<close>

section \<open>Decisions\<close>

definition allow_all :: "string \<Rightarrow> unit result" where
  "allow_all action = Inr ()"

definition deny_all :: "string \<Rightarrow> unit result" where
  "deny_all action = Inl ''no capability''"

definition test_public_read :: bool where
  "test_public_read \<longleftrightarrow> decide ABILITY_READ ''pubcid'' (allow_public ''pubcid'' public_new) deny_all = (Allow, None)"

lemma public_read_is_allowed_without_capability: test_public_read
  by code_simp

definition test_private_read :: bool where
  "test_private_read \<longleftrightarrow>
     decide ABILITY_READ ''privcid'' public_new deny_all = (Deny, Some ''no capability'') \<and>
     fst (decide ABILITY_READ ''privcid'' public_new allow_all) = Allow"

lemma private_read_requires_capability: test_private_read
  by code_simp

definition test_cache_and_purge_need_capability :: bool where
  "test_cache_and_purge_need_capability \<longleftrightarrow>
     (let p = allow_public ''c'' public_new
      in fst (decide ABILITY_CACHE ''c'' p deny_all) = Deny \<and> fst (decide ABILITY_PURGE ''c'' p deny_all) = Deny)"

lemma cache_and_purge_always_need_capability_even_for_public_cid: test_cache_and_purge_need_capability
  by code_simp

definition test_public_set :: bool where
  "test_public_set \<longleftrightarrow>
     (let p = public_new; q = allow_public ''x'' p
      in \<not> is_public ''x'' p \<and> is_public ''x'' q \<and> \<not> is_public ''x'' (revoke_public ''x'' q))"

lemma public_set_allow_and_revoke: test_public_set
  by code_simp

definition test_ability_for :: bool where
  "test_ability_for \<longleftrightarrow>
     ability_for TOPIC_CACHE = Some ABILITY_CACHE \<and> ability_for TOPIC_READ = Some ABILITY_READ \<and>
     ability_for TOPIC_PURGE = Some ABILITY_PURGE \<and> ability_for TOPIC_STATUS = Some ABILITY_READ \<and>
     ability_for ''cdn/unknown'' = None"

lemma ability_for_maps_topics: test_ability_for
  by code_simp

definition test_cid_validation :: bool where
  "test_cid_validation \<longleftrightarrow>
     is_valid_cid (replicate 64 CHR ''a'') \<and> \<not> is_valid_cid ''not-a-real-cid'' \<and> \<not> is_valid_cid (replicate 63 CHR ''a'')"

lemma cid_validation_gates_requests: test_cid_validation
  by code_simp

section \<open>Reply tokens\<close>

definition test_seen_dedups :: bool where
  "test_seen_dedups \<longleftrightarrow>
     (let (a, s) = seen_insert 1 (seen_new 8);
          (b, s) = seen_insert 1 s;
          (c, s) = seen_insert 2 s
      in a \<and> \<not> b \<and> c \<and> seen_len s = 2 \<and> \<not> seen_is_empty s)"

lemma seen_tokens_dedups_like_a_hashset: test_seen_dedups
  by code_simp

definition test_seen_zero_capacity :: bool where
  "test_seen_zero_capacity \<longleftrightarrow>
     (let (a, s) = seen_insert 7 (seen_new 0);
          (b, t) = seen_insert 8 s
      in a \<and> seen_len s = 1 \<and> b \<and> seen_len t = 1)"

lemma seen_tokens_zero_capacity_is_clamped_to_one: test_seen_zero_capacity
  by code_simp

text \<open>The window after the tokens below \<open>n\<close>.\<close>

definition after_tokens :: "usize \<Rightarrow> nat \<Rightarrow> seen_tokens" where
  "after_tokens cap n = snd (run_accept seen_insert (map of_nat [0..<n]) (seen_new cap))"

definition test_seen_bounded :: bool where
  "test_seen_bounded \<longleftrightarrow>
     (let cap = 1000; s = after_tokens cap 100000
      in list_all (\<lambda>n. seen_len (after_tokens cap n) \<le> unat cap) [0..<100001] \<and> seen_len s = unat cap \<and>
         (let (again, s1) = seen_insert 0 s; (last, s2) = seen_insert 99999 s1 in again \<and> \<not> last))"

lemma tokens_distinct: "n \<le> 2 ^ 64 \<Longrightarrow> distinct (map of_nat [0..<n] :: u64 list)"
  by (auto simp: distinct_map inj_on_def unat_of_nat dest!: arg_cong [of _ _ unat])

lemma after_tokens_window:
  assumes "n \<le> 2 ^ 64" "cap \<noteq> 0"
  shows "seen_ok (after_tokens cap n)"
    and "tok_order (after_tokens cap n) = last_n (unat cap) (map of_nat [0..<n])"
    and "tok_capacity (after_tokens cap n) = cap"
proof -
  have "1 \<le> cap" using assms(2) by (simp add: word_le_nat_alt unat_gt_0 Suc_le_eq)
  then have cap: "tok_capacity (seen_new cap) = cap" "tok_order (seen_new cap) = []"
    by (simp_all add: seen_new_def max.absorb1)
  show "seen_ok (after_tokens cap n)"
    unfolding after_tokens_def using tokens.run_ok [OF seen_new_ok] by blast
  have "unat (tok_capacity (after_tokens cap n)) = unat cap"
    unfolding after_tokens_def using tokens.run_ok [OF seen_new_ok] cap by metis
  then show "tok_capacity (after_tokens cap n) = cap" by (simp only: word_unat_eq_iff)
  show "tok_order (after_tokens cap n) = last_n (unat cap) (map of_nat [0..<n])"
    unfolding after_tokens_def
    using tokens.run_fresh [OF seen_new_ok tokens_distinct [OF assms(1)], of cap] cap by simp
qed

lemma seen_len_order: "seen_ok s \<Longrightarrow> seen_len s = length (tok_order s)"
  by (simp add: seen_len_def seen_ok_def distinct_card)

lemma seen_tokens_stays_bounded_under_many_requests: test_seen_bounded
proof -
  let ?s = "after_tokens 1000 100000"
  have len: "seen_len (after_tokens 1000 n) = min 1000 n" if "n \<le> 2 ^ 64" for n
    using after_tokens_window [of n 1000] that by (simp add: seen_len_order)
  have order: "tok_order ?s = map of_nat [99000..<100000]"
    using after_tokens_window(2) [of 100000 1000] by (simp add: last_n_def drop_map)
  note ok = after_tokens_window(1) [of 100000 1000]
  have "(0 :: u64) \<notin> of_nat ` {99000..<100000}"
    by (auto simp: unat_of_nat dest!: arg_cong [of _ _ unat])
  then have new: "0 \<notin> set (tok_order ?s)" by (simp add: order)
  have "tok_order (snd (seen_insert 0 ?s)) = map of_nat [99001..<100000] @ [0]"
    using tokens.acc_new [OF _ new] ok after_tokens_window(3) [of 100000 1000]
    by (simp add: order last_n_def drop_map)
  moreover have "of_nat 99999 \<in> (of_nat :: nat \<Rightarrow> u64) ` {99001..<100000}"
    by (rule imageI) (simp only: atLeastLessThan_iff, simp)
  ultimately have "of_nat 99999 \<in> set (tok_order (snd (seen_insert 0 ?s)))"
    by (simp only: set_append set_map set_upt) blast
  then have "99999 \<in> set (tok_order (snd (seen_insert 0 ?s)))"
    by (simp only: of_nat_numeral)
  then have "\<not> fst (seen_insert 99999 (snd (seen_insert 0 ?s)))"
    using tokens.acc_result [OF tokens.acc_ok] ok by simp
  moreover have "fst (seen_insert 0 ?s)" using tokens.acc_result new ok by simp
  moreover have "list_all (\<lambda>n. seen_len (after_tokens 1000 n) \<le> unat (1000 :: usize)) [0..<100001]"
    by (simp add: list_all_iff len)
  moreover have "seen_len ?s = unat (1000 :: usize)" by (simp add: len)
  ultimately show ?thesis by (simp add: test_seen_bounded_def Let_def split_def)
qed

section \<open>Names of the protocol\<close>

definition test_service_strings :: bool where
  "test_service_strings \<longleftrightarrow> service_for ''abc123'' = ''cdn:abc123'' \<and> service_for ''abc123'' \<noteq> SERVICE_EDGE"

lemma service_strings_are_cid_namespaced: test_service_strings
  by code_simp

definition test_denied :: bool where
  "test_denied \<longleftrightarrow> denied ''no cap'' = ''denied: no cap''"

lemma denied_formats_uniformly: test_denied
  by code_simp

end
