(* ===== verification/Tests_Auth.thy ===== *)
theory Tests_Auth
  imports Presign Evaluation
begin

text \<open>
  The unit tests of \<open>src/pop.rs\<close> and \<open>src/presign.rs\<close>. The identities they generate are arguments, with what
  \<open>ce-identity\<close> promises of them as hypotheses: signatures have 64 bytes, and one that was made on a message
  verifies under the signer's key for that message only, and under no other key. The nonces that
  \<open>mint_proof\<close> draws are arbitrary 16-byte arguments.
\<close>

definition identity :: "verifier \<Rightarrow> node_id \<Rightarrow> (bytes \<Rightarrow> bytes) \<Rightarrow> bool" where
  "identity vf me sign \<longleftrightarrow> (\<forall>m m'. length (sign m) = 64 \<and> (vf me m' (sign m) \<longleftrightarrow> m' = m))"

definition stranger :: "verifier \<Rightarrow> node_id \<Rightarrow> (bytes \<Rightarrow> bytes) \<Rightarrow> bool" where
  "stranger vf me sign \<longleftrightarrow> (\<forall>m m'. length (sign m) = 64 \<and> \<not> vf me m' (sign m))"

lemma identity_signs: "identity vf me sign \<Longrightarrow> signs vf me sign"
  by (simp add: identity_def signs_def)

text \<open>A minted proof within its lifetime is accepted exactly if its signature verifies for the request.\<close>

lemma verify_presented:
  assumes "hex_codec enc dec" "length nonce = 16" "length (sign (challenge who cid ability nonce expires)) = 64"
    and "now \<le> expires" "expires \<le> sat_add now MAX_PROOF_TTL_SECS"
  shows "verify_pop vf dec (Some (mint_proof_with_nonce enc who sign cid ability nonce expires)) who2 cid2 ability2 now
    = (if vf who2 (challenge who2 cid2 ability2 nonce expires) (sign (challenge who cid ability nonce expires))
       then Inr () else Inl BadSignature)"
  using assms(4,5) parse_minted [where sign = sign, OF assms(1-3)]
  by (auto simp: verify_pop_def mint_not_Nil Let_def)

lemma sat_add_900: "(1000 :: u64) \<le> sat_add 900 MAX_PROOF_TTL_SECS"
  by code_simp

section \<open>Proofs of possession\<close>

definition test_valid_proof ::
  "verifier \<Rightarrow> (bytes \<Rightarrow> string) \<Rightarrow> (string \<Rightarrow> bytes option) \<Rightarrow> node_id \<Rightarrow> (bytes \<Rightarrow> bytes) \<Rightarrow> bytes \<Rightarrow> bool" where
  "test_valid_proof vf enc dec me sign nonce \<longleftrightarrow>
     (let hdr = mint_proof_with_nonce enc me sign ''cidA'' ''cdn:read'' nonce 1000
      in verify_pop vf dec (Some hdr) me ''cidA'' ''cdn:read'' 900 = Inr ())"

lemma valid_proof_verifies:
  "hex_codec enc dec \<Longrightarrow> identity vf me sign \<Longrightarrow> length nonce = 16 \<Longrightarrow> test_valid_proof vf enc dec me sign nonce"
  by (simp add: test_valid_proof_def verify_minted identity_signs)

definition test_missing_proof :: "verifier \<Rightarrow> (string \<Rightarrow> bytes option) \<Rightarrow> node_id \<Rightarrow> bool" where
  "test_missing_proof vf dec me \<longleftrightarrow>
     verify_pop vf dec None me ''cidA'' ''cdn:read'' 900 = Inl Missing \<and>
     verify_pop vf dec (Some ''   '') me ''cidA'' ''cdn:read'' 900 = Inl Missing"

lemma missing_proof_is_rejected: "test_missing_proof vf dec me"
  by (simp add: test_missing_proof_def verify_pop_def trim_space)

text \<open>Whatever the verifier; the hex codec is the reference codec, since the headers are literals.\<close>

definition test_malformed_proof :: "verifier \<Rightarrow> node_id \<Rightarrow> bool" where
  "test_malformed_proof vf me \<longleftrightarrow>
     verify_pop vf ref_decode (Some ''nodot'') me ''c'' ''cdn:read'' 0 = Inl Malformed \<and>
     verify_pop vf ref_decode (Some ''xx.zz.qq'') me ''c'' ''cdn:read'' 0 = Inl Malformed \<and>
     verify_pop vf ref_decode (Some ''1000.dead'') me ''c'' ''cdn:read'' 0 = Inl Malformed \<and>
     verify_pop vf ref_decode (Some (''1000.'' @ ''ab'' @ ''.'' @ concat (replicate 64 ''cd''))) me ''c'' ''cdn:read'' 0
       = Inl Malformed \<and>
     verify_pop vf ref_decode (Some (''1000.'' @ ref_encode (replicate 16 0) @ ''.dead'')) me ''c'' ''cdn:read'' 0
       = Inl Malformed"

lemma malformed_proof_is_rejected: "test_malformed_proof vf me"
  by code_simp

text \<open>The second proof is minted with a nonce of its own.\<close>

definition test_replay ::
  "verifier \<Rightarrow> (bytes \<Rightarrow> string) \<Rightarrow> (string \<Rightarrow> bytes option) \<Rightarrow> node_id \<Rightarrow> (bytes \<Rightarrow> bytes) \<Rightarrow> bytes \<Rightarrow> bool" where
  "test_replay vf enc dec me sign fresh \<longleftrightarrow>
     (let hdr = mint_proof_with_nonce enc me sign ''c'' ''cdn:read'' (replicate 16 7) 1000;
          hdr2 = mint_proof_with_nonce enc me sign ''c'' ''cdn:read'' fresh 1000;
          (r1, g1) = verify_pop_once vf dec (guard_new 64) (Some hdr) me ''c'' ''cdn:read'' 900;
          (r2, g2) = verify_pop_once vf dec g1 (Some hdr) me ''c'' ''cdn:read'' 900;
          (r3, g3) = verify_pop_once vf dec g2 (Some hdr2) me ''c'' ''cdn:read'' 900
      in r1 = Inr () \<and> r2 = Inl Replay \<and> r3 = Inr ())"

lemma verify_once_minted:
  assumes "hex_codec enc dec" "identity vf me sign" "length nonce = 16"
  shows "verify_pop_once vf dec g (Some (mint_proof_with_nonce enc me sign ''c'' ''cdn:read'' nonce 1000)) me ''c'' ''cdn:read'' 900
    = (case guard_accept me nonce g of (ok, g') \<Rightarrow> (if ok then Inr () else Inl Replay, g'))"
proof -
  have sig: "length (sign (challenge me ''c'' ''cdn:read'' nonce 1000)) = 64"
    using assms(2) by (simp add: identity_def)
  show ?thesis
    using parse_minted [where sign = sign, OF assms(1,3) sig]
    by (simp add: verify_pop_once_def verify_minted [OF assms(1) identity_signs [OF assms(2)] assms(3)])
qed

lemma replay_guard_rejects_reused_proof_but_accepts_fresh:
  assumes "hex_codec enc dec" "identity vf me sign" "length fresh = 16" "fresh \<noteq> replicate 16 7"
  shows "test_replay vf enc dec me sign fresh"
  using assms(4)
  by (simp add: test_replay_def verify_once_minted [OF assms(1,2)] assms(3) guard_accept_def guard_new_def guard_evict.simps
      Let_def)

definition test_invalid_not_recorded ::
  "verifier \<Rightarrow> (bytes \<Rightarrow> string) \<Rightarrow> (string \<Rightarrow> bytes option) \<Rightarrow> node_id \<Rightarrow> (bytes \<Rightarrow> bytes) \<Rightarrow> bytes \<Rightarrow> bool" where
  "test_invalid_not_recorded vf enc dec me sign nonce \<longleftrightarrow>
     (let hdr = mint_proof_with_nonce enc me sign ''c'' ''cdn:read'' nonce 1000;
          (r, g) = verify_pop_once vf dec (guard_new 64) (Some hdr) me ''c'' ''cdn:read'' 2000
      in r = Inl Expired \<and> guard_is_empty g)"

lemma replay_guard_does_not_record_invalid_proofs:
  "hex_codec enc dec \<Longrightarrow> identity vf me sign \<Longrightarrow> length nonce = 16 \<Longrightarrow> test_invalid_not_recorded vf enc dec me sign nonce"
  by (simp add: test_invalid_not_recorded_def verify_pop_once_def verify_minted identity_signs guard_is_empty_def guard_new_def)

definition test_expired_proof ::
  "verifier \<Rightarrow> (bytes \<Rightarrow> string) \<Rightarrow> (string \<Rightarrow> bytes option) \<Rightarrow> node_id \<Rightarrow> (bytes \<Rightarrow> bytes) \<Rightarrow> bytes \<Rightarrow> bool" where
  "test_expired_proof vf enc dec me sign nonce \<longleftrightarrow>
     verify_pop vf dec (Some (mint_proof_with_nonce enc me sign ''c'' ''cdn:read'' nonce 1000)) me ''c'' ''cdn:read'' 1001
       = Inl Expired"

lemma expired_proof_is_rejected:
  "hex_codec enc dec \<Longrightarrow> identity vf me sign \<Longrightarrow> length nonce = 16 \<Longrightarrow> test_expired_proof vf enc dec me sign nonce"
  by (simp add: test_expired_proof_def verify_minted identity_signs)

definition test_clock_skew ::
  "verifier \<Rightarrow> (bytes \<Rightarrow> string) \<Rightarrow> (string \<Rightarrow> bytes option) \<Rightarrow> node_id \<Rightarrow> (bytes \<Rightarrow> bytes) \<Rightarrow> bytes \<Rightarrow> bool" where
  "test_clock_skew vf enc dec me sign nonce \<longleftrightarrow>
     (let at_now = mint_proof_with_nonce enc me sign ''c'' ''cdn:read'' nonce 1000;
          max_future = mint_proof_with_nonce enc me sign ''c'' ''cdn:read'' nonce (1000 + MAX_PROOF_TTL_SECS);
          too_far = mint_proof_with_nonce enc me sign ''c'' ''cdn:read'' nonce (1000 + MAX_PROOF_TTL_SECS + 1)
      in verify_pop vf dec (Some at_now) me ''c'' ''cdn:read'' 1000 = Inr () \<and>
         verify_pop vf dec (Some max_future) me ''c'' ''cdn:read'' 1000 = Inr () \<and>
         verify_pop vf dec (Some too_far) me ''c'' ''cdn:read'' 1000 = Inl TooFarFuture)"

lemma clock_skew_boundaries_are_inclusive:
  "hex_codec enc dec \<Longrightarrow> identity vf me sign \<Longrightarrow> length nonce = 16 \<Longrightarrow> test_clock_skew vf enc dec me sign nonce"
  by (simp add: test_clock_skew_def verify_minted identity_signs MAX_PROOF_TTL_SECS_def)

definition test_far_future_proof ::
  "verifier \<Rightarrow> (bytes \<Rightarrow> string) \<Rightarrow> (string \<Rightarrow> bytes option) \<Rightarrow> node_id \<Rightarrow> (bytes \<Rightarrow> bytes) \<Rightarrow> bytes \<Rightarrow> bool" where
  "test_far_future_proof vf enc dec me sign nonce \<longleftrightarrow>
     verify_pop vf dec (Some (mint_proof_with_nonce enc me sign ''c'' ''cdn:read'' nonce 10000)) me ''c'' ''cdn:read'' 1000
       = Inl TooFarFuture"

lemma far_future_proof_is_rejected:
  "hex_codec enc dec \<Longrightarrow> identity vf me sign \<Longrightarrow> length nonce = 16 \<Longrightarrow> test_far_future_proof vf enc dec me sign nonce"
  by (simp add: test_far_future_proof_def verify_minted identity_signs)

definition test_wrong_cid ::
  "verifier \<Rightarrow> (bytes \<Rightarrow> string) \<Rightarrow> (string \<Rightarrow> bytes option) \<Rightarrow> node_id \<Rightarrow> (bytes \<Rightarrow> bytes) \<Rightarrow> bytes \<Rightarrow> bool" where
  "test_wrong_cid vf enc dec me sign nonce \<longleftrightarrow>
     verify_pop vf dec (Some (mint_proof_with_nonce enc me sign ''cidA'' ''cdn:read'' nonce 1000)) me ''cidB'' ''cdn:read'' 900
       = Inl BadSignature"

lemma proof_for_wrong_cid_is_rejected:
  assumes "hex_codec enc dec" "identity vf me sign" "length nonce = 16"
  shows "test_wrong_cid vf enc dec me sign nonce"
proof -
  have "challenge me ''cidB'' ''cdn:read'' nonce 1000 \<noteq> challenge me ''cidA'' ''cdn:read'' nonce 1000"
    using challenge_inject [of me "''cidB''" "''cdn:read''" nonce 1000 me "''cidA''" "''cdn:read''" nonce 1000]
    by (auto simp: vec_ok_def)
  then show ?thesis
    using assms sat_add_900 by (simp add: test_wrong_cid_def verify_presented identity_def)
qed

definition test_wrong_ability ::
  "verifier \<Rightarrow> (bytes \<Rightarrow> string) \<Rightarrow> (string \<Rightarrow> bytes option) \<Rightarrow> node_id \<Rightarrow> (bytes \<Rightarrow> bytes) \<Rightarrow> bytes \<Rightarrow> bool" where
  "test_wrong_ability vf enc dec me sign nonce \<longleftrightarrow>
     verify_pop vf dec (Some (mint_proof_with_nonce enc me sign ''c'' ''cdn:read'' nonce 1000)) me ''c'' ''cdn:cache'' 900
       = Inl BadSignature"

lemma proof_for_wrong_ability_is_rejected:
  assumes "hex_codec enc dec" "identity vf me sign" "length nonce = 16"
  shows "test_wrong_ability vf enc dec me sign nonce"
proof -
  have "challenge me ''c'' ''cdn:cache'' nonce 1000 \<noteq> challenge me ''c'' ''cdn:read'' nonce 1000"
    using challenge_inject [of me "''c''" "''cdn:cache''" nonce 1000 me "''c''" "''cdn:read''" nonce 1000]
    by (auto simp: vec_ok_def)
  then show ?thesis
    using assms sat_add_900 by (simp add: test_wrong_ability_def verify_presented identity_def)
qed

text \<open>The attacker signs the challenge for the victim's node id.\<close>

definition test_other_key ::
  "verifier \<Rightarrow> (bytes \<Rightarrow> string) \<Rightarrow> (string \<Rightarrow> bytes option) \<Rightarrow> node_id \<Rightarrow> (bytes \<Rightarrow> bytes) \<Rightarrow> bytes \<Rightarrow> bool" where
  "test_other_key vf enc dec victim attacker_sign nonce \<longleftrightarrow>
     verify_pop vf dec (Some (mint_proof_with_nonce enc victim attacker_sign ''c'' ''cdn:read'' nonce 1000)) victim
       ''c'' ''cdn:read'' 900 = Inl BadSignature"

lemma proof_signed_by_other_key_is_rejected:
  "hex_codec enc dec \<Longrightarrow> stranger vf victim attacker_sign \<Longrightarrow> length nonce = 16 \<Longrightarrow>
     test_other_key vf enc dec victim attacker_sign nonce"
  using sat_add_900 by (simp add: test_other_key_def verify_presented stranger_def)

text \<open>The guard after the first \<open>n\<close> nonces of the test, each the counter in little endian, filled up to 16 bytes.\<close>

definition nonce_of :: "nat \<Rightarrow> bytes" where
  "nonce_of i = to_le_bytes (of_nat i) @ replicate 8 0"

definition guard_after_nonces :: "nat \<Rightarrow> replay_guard" where
  "guard_after_nonces n = fold (\<lambda>i g. snd (guard_accept (replicate 32 1) (nonce_of i) g)) [0..<n] (guard_new 100)"

definition test_guard_bounded :: bool where
  "test_guard_bounded \<longleftrightarrow>
     list_all (\<lambda>n. guard_len (guard_after_nonces n) \<le> 100) [0..<10001] \<and> guard_len (guard_after_nonces 10000) = 100"

lemma fold_accept:
  "fold (\<lambda>k g. snd (accept_key k g)) ks g = snd (run_accept accept_key ks g)"
  by (induction ks arbitrary: g) simp_all

lemma guard_after_nonces_run:
  "guard_after_nonces n = snd (run_accept accept_key (map (\<lambda>i. replicate 32 1 @ nonce_of i) [0..<n]) (guard_new 100))"
  by (simp add: guard_after_nonces_def guard_accept_key fold_accept [symmetric] fold_map comp_def)

lemma guard_len_nonces:
  assumes "n \<le> 2 ^ 64"
  shows "guard_len (guard_after_nonces n) = min 100 n"
proof -
  let ?ks = "map (\<lambda>i. replicate 32 1 @ nonce_of i) [0..<n]" and ?g = "guard_new 100"
  have cap: "unat (rg_capacity ?g) = 100" "rg_order ?g = []" by (simp_all add: guard_new_def max_def word_le_nat_alt)
  have "i = j" if "to_le_bytes (of_nat i) = to_le_bytes (of_nat j)" "i < n" "j < n" for i j
    using arg_cong [of _ _ unat, OF to_le_bytes_inject [OF that(1)]] that(2,3) assms
    by (simp add: unat_of_nat)
  then have "distinct ?ks" by (auto simp: distinct_map inj_on_def nonce_of_def)
  then have "length (rg_order (guard_after_nonces n)) = min 100 n"
    using replay.run_fresh [OF guard_new_ok, of ?ks 100] cap by (simp add: guard_after_nonces_run)
  moreover have "guard_ok (guard_after_nonces n)"
    unfolding guard_after_nonces_run using replay.run_ok [OF guard_new_ok] by blast
  ultimately show ?thesis by (simp add: guard_len_def guard_ok_def distinct_card)
qed

lemma replay_guard_stays_bounded: test_guard_bounded
  by (simp add: test_guard_bounded_def list_all_iff guard_len_nonces)

section \<open>Presigned links\<close>

lemma url_parts:
  "presign_url enc sign cid expires = (''/cdn/'' @ cid) @ CHR ''?'' # presign_query enc sign cid expires"
  by (simp add: presign_url_def)

text \<open>A minted link within its lifetime is accepted exactly if a trusted key verifies its signature for the id.\<close>

lemma verify_presented_link:
  assumes "hex_codec enc dec" "length (sign (presign_challenge cid expires)) = 64" "trusted \<noteq> []"
    and "now \<le> expires" "expires \<le> sat_add now MAX_PRESIGN_TTL_SECS"
  shows "verify_presign vf dec (presign_query enc sign cid expires) cid2 trusted now
    = (if list_ex (\<lambda>key. vf key (presign_challenge cid2 expires) (sign (presign_challenge cid expires))) trusted
       then Inr () else Inl PsBadSignature)"
  using assms(3-5) parse_query_minted [where sign = sign, OF assms(1,2)] presign_query_visible [where sign = sign, OF assms(1,2)]
  by (auto simp: verify_presign_def Let_def)

lemma sat_add_link_900: "(1000 :: u64) \<le> sat_add 900 MAX_PRESIGN_TTL_SECS"
  by code_simp

definition test_valid_presign ::
  "verifier \<Rightarrow> (bytes \<Rightarrow> string) \<Rightarrow> (string \<Rightarrow> bytes option) \<Rightarrow> node_id \<Rightarrow> (bytes \<Rightarrow> bytes) \<Rightarrow> bool" where
  "test_valid_presign vf enc dec me sign \<longleftrightarrow>
     verify_presign vf dec (presign_query enc sign ''cidA'' 1000) ''cidA'' [me] 900 = Inr ()"

lemma valid_presign_verifies: "hex_codec enc dec \<Longrightarrow> identity vf me sign \<Longrightarrow> test_valid_presign vf enc dec me sign"
  by (simp add: test_valid_presign_def verify_minted_link [where key = me] identity_signs)

definition test_presign_url ::
  "verifier \<Rightarrow> (bytes \<Rightarrow> string) \<Rightarrow> (string \<Rightarrow> bytes option) \<Rightarrow> node_id \<Rightarrow> (bytes \<Rightarrow> bytes) \<Rightarrow> bool" where
  "test_presign_url vf enc dec me sign \<longleftrightarrow>
     (case split_once CHR ''?'' (presign_url enc sign ''cidB'' 2000) of
        None \<Rightarrow> False
      | Some (path, query) \<Rightarrow> path = ''/cdn/cidB'' \<and> verify_presign vf dec query ''cidB'' [me] 1900 = Inr ())"

lemma presign_url_is_well_formed_and_verifies:
  assumes "hex_codec enc dec" "identity vf me sign"
  shows "test_presign_url vf enc dec me sign"
proof -
  have "split_once CHR ''?'' (presign_url enc sign ''cidB'' 2000) = Some (''/cdn/'' @ ''cidB'', presign_query enc sign ''cidB'' 2000)"
    unfolding url_parts by (rule split_once_append) simp
  with assms show ?thesis
    by (simp add: test_presign_url_def verify_minted_link [where key = me] identity_signs)
qed

definition test_presign_wrong_cid ::
  "verifier \<Rightarrow> (bytes \<Rightarrow> string) \<Rightarrow> (string \<Rightarrow> bytes option) \<Rightarrow> node_id \<Rightarrow> (bytes \<Rightarrow> bytes) \<Rightarrow> bool" where
  "test_presign_wrong_cid vf enc dec me sign \<longleftrightarrow>
     verify_presign vf dec (presign_query enc sign ''cidA'' 1000) ''cidB'' [me] 900 = Inl PsBadSignature"

lemma presign_for_wrong_cid_is_rejected:
  assumes "hex_codec enc dec" "identity vf me sign"
  shows "test_presign_wrong_cid vf enc dec me sign"
proof -
  have "presign_challenge ''cidB'' 1000 \<noteq> presign_challenge ''cidA'' 1000"
    using presign_challenge_inject [of "''cidB''" 1000 "''cidA''" 1000] by (auto simp: vec_ok_def)
  then show ?thesis
    using assms sat_add_link_900 by (simp add: test_presign_wrong_cid_def verify_presented_link identity_def)
qed

definition test_presign_untrusted ::
  "verifier \<Rightarrow> (bytes \<Rightarrow> string) \<Rightarrow> (string \<Rightarrow> bytes option) \<Rightarrow> node_id \<Rightarrow> (bytes \<Rightarrow> bytes) \<Rightarrow> bool" where
  "test_presign_untrusted vf enc dec other sign \<longleftrightarrow>
     verify_presign vf dec (presign_query enc sign ''c'' 1000) ''c'' [other] 900 = Inl PsBadSignature"

lemma presign_signed_by_untrusted_key_is_rejected:
  "hex_codec enc dec \<Longrightarrow> stranger vf other sign \<Longrightarrow> test_presign_untrusted vf enc dec other sign"
  using sat_add_link_900 by (simp add: test_presign_untrusted_def verify_presented_link stranger_def)

definition test_presign_times ::
  "verifier \<Rightarrow> (bytes \<Rightarrow> string) \<Rightarrow> (string \<Rightarrow> bytes option) \<Rightarrow> node_id \<Rightarrow> (bytes \<Rightarrow> bytes) \<Rightarrow> bool" where
  "test_presign_times vf enc dec me sign \<longleftrightarrow>
     verify_presign vf dec (presign_query enc sign ''c'' 1000) ''c'' [me] 1001 = Inl PsExpired \<and>
     verify_presign vf dec (presign_query enc sign ''c'' (100 + MAX_PRESIGN_TTL_SECS + 10000)) ''c'' [me] 100
       = Inl PsTooFarFuture"

lemma expired_and_far_future_are_rejected:
  "hex_codec enc dec \<Longrightarrow> identity vf me sign \<Longrightarrow> test_presign_times vf enc dec me sign"
  by (simp add: test_presign_times_def verify_minted_link [where key = me] identity_signs MAX_PRESIGN_TTL_SECS_def)

definition test_presign_malformed ::
  "verifier \<Rightarrow> (bytes \<Rightarrow> string) \<Rightarrow> node_id \<Rightarrow> (bytes \<Rightarrow> bytes) \<Rightarrow> bool" where
  "test_presign_malformed vf enc me sign \<longleftrightarrow>
     verify_presign vf ref_decode [] ''c'' [me] 0 = Inl PsMissing \<and>
     verify_presign vf ref_decode ''exp=1000'' ''c'' [me] 0 = Inl PsMalformed \<and>
     verify_presign vf ref_decode ''sig=zz'' ''c'' [me] 0 = Inl PsMalformed \<and>
     verify_presign vf ref_decode (presign_query enc sign ''c'' 1000) ''c'' [] 900 = Inl PsMissing"

lemma missing_or_malformed_query_is_rejected: "test_presign_malformed vf enc me sign"
proof -
  have "verify_presign vf ref_decode [] ''c'' [me] 0 = Inl PsMissing"
    "verify_presign vf ref_decode ''exp=1000'' ''c'' [me] 0 = Inl PsMalformed"
    "verify_presign vf ref_decode ''sig=zz'' ''c'' [me] 0 = Inl PsMalformed"
    by code_simp+
  then show ?thesis by (simp add: test_presign_malformed_def verify_presign_def)
qed

end
