(* ===== verification/Tests_Catalog.thy ===== *)
theory Tests_Catalog
  imports Cli Evaluation
begin

text \<open>
  The unit tests of \<open>src/catalog.rs\<close>, \<open>src/maintain.rs\<close>, \<open>src/caps.rs\<close>, \<open>src/lib.rs\<close> and \<open>src/client.rs\<close>. The tests
  that write a catalog file take the JSON codec as an argument and hold whenever it reads back what it wrote.
\<close>

section \<open>Catalog\<close>

definition sample :: "string \<Rightarrow> cat_access \<Rightarrow> catalog_entry" where
  "sample cid acc =
     \<lparr>ce_content = \<lparr>ct_cid = cid, ct_bytes_len = 2048, ct_access = acc, ct_replication = 3, ct_ttl_secs = 3600,
        ct_label = Some ''video.mp4'', ct_tags = [''release-1'']\<rparr>,
      ce_edges = [\<lparr>er_edge = ''edge-a'', er_healthy = True\<rparr>, \<lparr>er_edge = ''edge-b'', er_healthy = False\<rparr>]\<rparr>"

text \<open>A completed save leaves the catalog file and takes its temporary file away.\<close>

lemma saved_dir:
  "fs_run d (save_ops to_json path pid c) = d(path := Some (to_json (stamped c)), tmp_name path pid := None)"
  using tmp_name_differs [of path pid]
  by (simp add: save_ops_def Let_def stamped_def fs_run_def fs_run_appends [unfolded fs_run_def])

definition test_roundtrip_disk :: "(bytes \<Rightarrow> catalog result) \<Rightarrow> (catalog \<Rightarrow> bytes) \<Rightarrow> nat \<Rightarrow> dir \<Rightarrow> bool" where
  "test_roundtrip_disk from_json to_json pid d \<longleftrightarrow>
     (let path = ''catalog.json'';
          cat = upsert (sample ''cid-1'' CatPublic) default_catalog;
          d1 = fs_run d (save_ops to_json path pid cat)
      in case load_catalog from_json path (read_file d1 path) of
           Inl e \<Rightarrow> False
         | Inr loaded \<Rightarrow>
             cat_get ''cid-1'' loaded = cat_get ''cid-1'' cat \<and>
             (case cat_get ''cid-1'' loaded of None \<Rightarrow> False | Some e \<Rightarrow> ct_access (ce_content e) = CatPublic))"

lemma sample_get: "cat_get cid (upsert (sample cid acc) c) = Some (sample cid acc)" if "cat_ok c"
  using that by (simp add: cat_get_upsert sample_def)

lemma load_saved:
  "json_codec from_json to_json \<Longrightarrow>
     load_catalog from_json path (read_file (fs_run d (save_ops to_json path pid c)) path) = Inr (stamped c)"
  using tmp_name_differs [of path pid] by (simp add: saved_dir read_file_def load_catalog_def json_codec_def)

lemma roundtrips_through_disk:
  "json_codec from_json to_json \<Longrightarrow> test_roundtrip_disk from_json to_json pid d"
  by (simp add: test_roundtrip_disk_def Let_def load_saved cat_get_stamped sample_get cat_ok_default) (simp add: sample_def)

definition test_missing_file :: "(bytes \<Rightarrow> catalog result) \<Rightarrow> bool" where
  "test_missing_file from_json \<longleftrightarrow>
     (case load_catalog from_json ''catalog.json'' (read_file (\<lambda>f. None) ''catalog.json'') of
        Inl e \<Rightarrow> False
      | Inr c \<Rightarrow> cat_items c = [])"

lemma missing_file_is_empty_catalog: "test_missing_file from_json"
  by (simp add: test_missing_file_def read_file_def load_catalog_def default_catalog_def)

definition test_healthy_edges :: bool where
  "test_healthy_edges \<longleftrightarrow>
     (let e = sample ''c'' CatPrivate in healthy_edges e = 1 \<and> edge_ids e = [''edge-a'', ''edge-b''])"

lemma healthy_edges_and_ids: test_healthy_edges
  by (simp add: test_healthy_edges_def sample_def healthy_edges_def edge_ids_def)

definition test_save_atomic :: "(bytes \<Rightarrow> catalog result) \<Rightarrow> (catalog \<Rightarrow> bytes) \<Rightarrow> nat \<Rightarrow> bool" where
  "test_save_atomic from_json to_json pid \<longleftrightarrow>
     (let path = ''catalog.json'';
          d = fs_run (\<lambda>f. None) (save_ops to_json path pid (upsert (sample ''c1'' CatPublic) default_catalog))
      in dom d = {path} \<and>
         (case load_catalog from_json path (read_file d path) of
            Inl e \<Rightarrow> False
          | Inr loaded \<Rightarrow> cat_version loaded = CATALOG_SCHEMA_VERSION \<and> cat_get ''c1'' loaded \<noteq> None))"

lemma save_is_atomic_and_leaves_no_temp:
  assumes "json_codec from_json to_json"
  shows "test_save_atomic from_json to_json pid"
proof -
  have "dom (fs_run (\<lambda>f. None) (save_ops to_json ''catalog.json'' pid c)) = {''catalog.json''}" for c
    using tmp_name_differs [of "''catalog.json''" pid] by (auto simp: saved_dir)
  then show ?thesis
    using assms
    by (simp add: test_save_atomic_def Let_def load_saved cat_get_stamped sample_get cat_ok_default) (simp add: stamped_def)
qed

definition test_update_persists :: "(bytes \<Rightarrow> catalog result) \<Rightarrow> (catalog \<Rightarrow> bytes) \<Rightarrow> nat \<Rightarrow> bool" where
  "test_update_persists from_json to_json pid \<longleftrightarrow>
     (let path = ''catalog.json'';
          (r1, d1) = update_file from_json to_json path pid (upsert (sample ''u1'' CatPrivate)) (\<lambda>f. None);
          (r2, d2) = update_file from_json to_json path pid (upsert (sample ''u2'' CatPublic)) d1
      in r1 = Inr () \<and> r2 = Inr () \<and>
         (case load_catalog from_json path (read_file d2 path) of
            Inl e \<Rightarrow> False
          | Inr loaded \<Rightarrow> length (cat_items loaded) = 2))"

lemma update_locks_and_persists:
  assumes "json_codec from_json to_json"
  shows "test_update_persists from_json to_json pid"
proof -
  let ?path = "''catalog.json''"
  let ?d1 = "fs_run (\<lambda>f. None) (save_ops to_json ?path pid (upsert (sample ''u1'' CatPrivate) default_catalog))"
  have "load_catalog from_json ?path (read_file (\<lambda>f. None) ?path) = Inr default_catalog"
    by (simp add: read_file_def load_catalog_def)
  moreover have "length (cat_items (stamped (upsert (sample ''u2'' CatPublic)
      (stamped (upsert (sample ''u1'' CatPrivate) default_catalog))))) = 2"
    by (simp add: stamped_def upsert_def sample_def default_catalog_def)
  ultimately show ?thesis
    by (simp add: test_update_persists_def update_file_def load_saved [OF assms])
qed

definition tagged :: "string \<Rightarrow> string list \<Rightarrow> catalog_entry" where
  "tagged cid tags =
     (let e = sample cid CatPublic in e\<lparr>ce_content := (ce_content e)\<lparr>ct_tags := tags\<rparr>\<rparr>)"

definition test_tags :: bool where
  "test_tags \<longleftrightarrow>
     (let cat = upsert (tagged ''c'' [''v2'']) (upsert (tagged ''b'' [''v1''])
                  (upsert (tagged ''a'' [''v1'', ''video'']) default_catalog))
      in cids_with_tag ''v1'' cat = [''a'', ''b''] \<and> cids_with_tag ''video'' cat = [''a''] \<and> cids_with_tag ''none'' cat = [])"

lemma cids_with_tag_groups_content: test_tags
  by code_simp

definition test_upsert_remove :: bool where
  "test_upsert_remove \<longleftrightarrow>
     (let updated = sample ''c'' CatPublic;
          updated = updated\<lparr>ce_content := (ce_content updated)\<lparr>ct_replication := 9\<rparr>\<rparr>;
          cat = upsert updated (upsert (sample ''c'' CatPublic) default_catalog);
          (removed, rest) = cat_remove ''c'' cat
      in map_option (\<lambda>e. ct_replication (ce_content e)) (cat_get ''c'' cat) = Some 9 \<and>
         removed \<noteq> None \<and> cat_get ''c'' rest = None)"

lemma upsert_replaces_and_remove_works: test_upsert_remove
  by code_simp

section \<open>Maintenance plans\<close>

definition test_plan_unhealthy :: bool where
  "test_plan_unhealthy \<longleftrightarrow>
     (let plan = plan_entry ''cid'' 3 [(''a'', True), (''b'', False), (''c'', True)]
      in ep_healthy plan = [''a'', ''c''] \<and> ep_unhealthy plan = [''b''] \<and> ep_recruit plan = 1)"

lemma plan_keeps_healthy_and_recruits_for_unhealthy: test_plan_unhealthy
  by code_simp

definition test_plan_at_target :: bool where
  "test_plan_at_target \<longleftrightarrow>
     (let plan = plan_entry ''cid'' 2 [(''a'', True), (''b'', True)] in ep_recruit plan = 0 \<and> ep_unhealthy plan = [])"

lemma plan_at_target_recruits_nothing: test_plan_at_target
  by code_simp

definition test_plan_over_target :: bool where
  "test_plan_over_target \<longleftrightarrow>
     (let plan = plan_entry ''cid'' 2 [(''a'', True), (''b'', True), (''c'', True)]
      in ep_recruit plan = 0 \<and> length (ep_healthy plan) = 3)"

lemma plan_over_target_never_negative: test_plan_over_target
  by code_simp

definition test_plan_all_dead :: bool where
  "test_plan_all_dead \<longleftrightarrow>
     (let plan = plan_entry ''cid'' 4 [(''a'', False), (''b'', False)] in ep_healthy plan = [] \<and> ep_recruit plan = 4)"

lemma plan_all_dead_recruits_full_target: test_plan_all_dead
  by code_simp

definition test_plan_no_edges :: bool where
  "test_plan_no_edges \<longleftrightarrow> (let plan = plan_entry ''cid'' 3 [] in ep_recruit plan = 3 \<and> ep_healthy plan = [])"

lemma plan_no_recorded_edges_recruits_full_target: test_plan_no_edges
  by code_simp

section \<open>Names\<close>

definition test_url_for :: bool where
  "test_url_for \<longleftrightarrow> url_for ''abc123'' = ''/cdn/abc123''"

lemma url_for_is_cid_path: test_url_for
  by code_simp

definition test_put_result :: bool where
  "test_put_result \<longleftrightarrow>
     (let r = \<lparr>pt_cid = ''deadbeef'', pt_bytes_len = 10, pt_url = url_for ''deadbeef''\<rparr>
      in pt_url r = ''/cdn/deadbeef'' \<and> pt_bytes_len r = 10)"

lemma put_result_shape: test_put_result
  by code_simp

section \<open>Capability chain and roots\<close>

text \<open>An environment of one variable, and a file system without files.\<close>

definition only_var :: "string \<Rightarrow> string \<Rightarrow> string \<Rightarrow> string option" where
  "only_var name v x = (if x = name then Some v else None)"

definition no_files :: "string \<Rightarrow> string option" where
  "no_files f = None"

definition test_caps_explicit ::
  "(string \<Rightarrow> string option) \<Rightarrow> string option \<Rightarrow> (string \<Rightarrow> string option) \<Rightarrow> bool" where
  "test_caps_explicit env config_dir read \<longleftrightarrow>
     caps_resolve (Some ''deadbeef'') env config_dir read = ''deadbeef'' \<and>
     caps_resolve (Some ''  abc  '') env config_dir read = ''abc''"

lemma explicit_takes_precedence: "test_caps_explicit env config_dir read"
  by code_simp

definition test_caps_unset :: "string option \<Rightarrow> bool" where
  "test_caps_unset config_dir \<longleftrightarrow>
     caps_resolve (Some ''  '') (only_var ''CE_CDN_DIR'' ''/nonexistent-ce-cdn-dir-xyz'') config_dir no_files = []"

lemma empty_explicit_falls_through_to_none_when_unset: "test_caps_unset config_dir"
  by code_simp

definition test_caps_env :: "string option \<Rightarrow> (string \<Rightarrow> string option) \<Rightarrow> bool" where
  "test_caps_env config_dir read \<longleftrightarrow>
     caps_resolve None (only_var ''CE_CDN_CAPS'' ''  envchain  '') config_dir read = ''envchain''"

lemma env_var_is_used_when_no_explicit: "test_caps_env config_dir read"
  by code_simp

definition test_roots_lines :: "string option \<Rightarrow> bool" where
  "test_roots_lines data_dir \<longleftrightarrow>
     (let key = concat (replicate 32 ''11'');
          text = ''# a comment'' @ [CHR 0x0A] @ key @ ''  # inline'' @ [CHR 0x0A, CHR 0x0A]
      in load_roots ref_decode (only_var ''CE_CDN_ROOTS'' ''/tmp/roots'') data_dir (only_var ''/tmp/roots'' text)
           = [replicate 32 0x11])"

lemma load_roots_parses_hex_lines_and_skips_comments: "test_roots_lines data_dir"
  by code_simp

definition test_roots_missing :: "string option \<Rightarrow> bool" where
  "test_roots_missing data_dir \<longleftrightarrow>
     load_roots ref_decode (only_var ''CE_CDN_ROOTS'' ''/nonexistent-ce-cdn-roots-xyz'') data_dir no_files = []"

lemma load_roots_missing_file_is_empty: "test_roots_missing data_dir"
  by code_simp

end
