(* ===== verification/Spec2Isabelle.thy ===== *)
theory Spec2Isabelle
  imports Lock_Map Link_Delivery Mesh Publish Commands Examples Http_Range Tests_Cache Tests_Server Tests_Host Tests_Auth
    Tests_Catalog
begin

text \<open>
  \<^bold>\<open>Verification of ce-cdn.\<close> The repository is a content-delivery network over the CE mesh: objects are
  named by the hash of their manifest, edges cache and serve them over the mesh and over HTTP, and a
  command-line tool publishes, replicates, purges and maintains them. This development models the Rust
  crate under \<open>src/src\<close> as executable HOL functions and step relations and proves what makes it correct.

  \<^bold>\<open>How the program is put together.\<close> A client (\<open>client.rs\<close>) publishes an object to the node's blob store,
  picks edges (\<open>replication.rs\<close>), asks them to cache it, and reads it whole or by range (\<open>cidrange.rs\<close>),
  checking every chunk against its content id. An edge keeps one cache (\<open>cache.rs\<close>) behind two front-ends:
  the mesh loop (\<open>host.rs\<close>, messages of \<open>proto.rs\<close>, sizes of \<open>limits.rs\<close>) and the HTTP server
  (\<open>server.rs\<close>, which shapes responses with \<open>edge.rs\<close>). Private content needs a capability chain; over
  HTTP also a signed proof (\<open>pop.rs\<close>) or a presigned link (\<open>presign.rs\<close>). The publisher keeps a catalog
  file (\<open>catalog.rs\<close>) which a maintenance pass (\<open>maintain.rs\<close>) and the commands of \<open>main.rs\<close> update.

  \<^bold>\<open>Theories.\<close>
  \<^item> \<open>Prelude\<close>, \<open>Rust_Strings\<close>, \<open>Rust_Collections\<close>: machine integers at their width, results as sums,
    the string and map operations of Rust's library; the locale \<open>dict\<close> with the hash map and the ordered
    map as interpretations.
  \<^item> \<open>Edge_Limits\<close> (\<open>limits.rs\<close>), \<open>Cidrange\<close> (\<open>cidrange.rs\<close>), \<open>Edge\<close> (\<open>edge.rs\<close>), \<open>Proto\<close> (\<open>proto.rs\<close>),
    \<open>Replication\<close> (\<open>replication.rs\<close>, edge candidates as an instance of \<open>linorder\<close>).
  \<^item> \<open>Cache\<close>: the operations of \<open>EdgeCache\<close> and its byte-count invariant. \<open>Cache_LRU\<close>: the abstract LRU store
    and the refinement lemmas; \<open>Content_Store\<close> is the interface that the two front-ends rely on, with the
    cache as its interpretation. \<open>Cache_Trace\<close>: whole runs of cache operations.
  \<^item> \<open>Seen_Window\<close>: the interface of a bounded memory of what was seen, interpreted by \<open>Seen_Tokens\<close>
    (\<open>SeenTokens\<close> of \<open>host.rs\<close>) and by \<open>Pop\<close> (\<open>ReplayGuard\<close> of \<open>pop.rs\<close>).
  \<^item> \<open>Hex\<close>: the contract of the \<open>hex\<close> crate. \<open>Pop\<close>, \<open>Presign\<close>: challenges, parsing, verification, minting.
  \<^item> \<open>Ce_Rs\<close>: the operations of the SDK as a record over an arbitrary world, and the locale
    \<open>verified_fetch\<close> of a chunk fetch that verifies, interpreted by \<open>Client\<close> and by \<open>Host\<close>.
  \<^item> \<open>Catalog\<close>, \<open>Catalog_Lock\<close>, \<open>Maintain\<close>, \<open>Setup\<close> (\<open>lib.rs\<close>, \<open>caps.rs\<close>), \<open>Cli\<close> (\<open>main.rs\<close>); \<open>Ref_Codec\<close> is a
    reference codec that only serves the concrete examples.
  \<^item> \<open>Publish\<close> (what \<open>put\<close> leaves behind) and \<open>Watch\<close> (\<open>run_forever\<close>, \<open>cmd_maintain\<close>) run the commands on a
    catalog file; their interfaces are the locales \<open>cli_world\<close>, \<open>put_world\<close> (which extends it) and
    \<open>maintain_world\<close>.
  \<^item> \<open>Host\<close>: authorisation, the four requests, and the rounds of the mesh loop. \<open>Server\<close>: access, routing and
    serving over HTTP. \<open>Single_Flight\<close>: concurrent cold misses as a step relation. \<open>Inflight\<close>: the map that
    gives each content id its lock. \<open>Http_Edge\<close>: starting an edge (\<open>cmd_serve\<close>) and its accept loop.
    \<open>Http_Concurrent\<close>: all of \<open>serve_cid\<close> under any interleaving of requests.
  \<^item> \<open>Lock_Map\<close>: \<open>serve_cid\<close> with the map of lock objects as it is, and its equivalence with one lock per id.
    \<open>Http_Wire\<close>: the one-shot HTTP client of \<open>server.rs\<close>, whose parser inverts the message format.
  \<^item> Compositions: \<open>Mesh\<close> joins a client of \<open>client.rs\<close> to an edge of \<open>host.rs\<close> by the messages they exchange;
    \<open>Link_Delivery\<close> joins the \<open>presign\<close> command to the HTTP edge; \<open>Http_Range\<close> follows a range read from the
    client's header to the bytes it reads back; \<open>Commands\<close> is \<open>main\<close> with its arguments as
    data, over a world with the catalog file, the identity and the network; \<open>Examples\<close> are the two programs
    under \<open>src/examples\<close>.
  \<^item> \<open>Tests_Cache\<close>, \<open>Tests_Range\<close> (\<open>cidrange.rs\<close>, \<open>limits.rs\<close>, \<open>replication.rs\<close>), \<open>Tests_Edge\<close>, \<open>Tests_Host\<close> (with
    \<open>proto.rs\<close>), \<open>Tests_Auth\<close> (\<open>pop.rs\<close>, \<open>presign.rs\<close>), \<open>Tests_Catalog\<close> (with \<open>maintain.rs\<close>, \<open>caps.rs\<close>, \<open>lib.rs\<close>,
    \<open>client.rs\<close>) and \<open>Tests_Server\<close> (HTTP exchanges with a server over a map of objects): the unit tests of the
    crate over the model, each with the lemma that it passes, for all inputs where the test draws them;
    \<open>Evaluation\<close> holds the code equations that keep them cheap to evaluate.

  \<^bold>\<open>Correspondence.\<close> A Rust \<open>u64\<close> is a 64-bit word, a \<open>str\<close> the list of its UTF-8 bytes, a \<open>Result\<close> a sum
  with the error message on the left, an operation that may panic an \<open>option\<close> with \<open>None\<close> for the panic, a
  mutable structure a record that the operation takes and returns. A \<open>HashMap\<close> is a list of pairs with
  distinct keys and a \<open>BTreeMap\<close> one sorted by key. Loops are recursive functions with measures. The three
  endless loops (the mesh host, the accept loop, \<open>run_forever\<close>) are functions of the rounds, requests or
  passes they have done, and the theorems hold for all of them; no other definition has a bound.

  \<^bold>\<open>Parameters.\<close> Code outside the repository is an argument of the definitions: the SDK calls (record
  \<open>sdk\<close>, over a world that every call may change in any way), the hash of contents, signature
  verification, the capability library (\<open>decode_chain\<close>, \<open>authorize\<close>), JSON and hex codecs, clocks, and
  the environment. What a theorem assumes of them is a named hypothesis: \<open>hex_codec\<close> and \<open>json_codec\<close> (they
  read back what they wrote), \<open>verifies_objects\<close> (\<open>get_object\<close> returns only the published bytes),
  \<open>collision_free\<close> (no two chunks with the same id), \<open>only_signed\<close> (no signature that was not made),
  \<open>true_manifests\<close> (the blob under a content id is the object's manifest: the crate does not compare the
  hash of a manifest with its id itself).

  \<^bold>\<open>What is shown.\<close> Range reads by clients and edges return the bytes asked for, whatever the store answers;
  the cache is an LRU store within its budget, never stale, never poisoned; requests without
  authority have no effect; private objects leave an edge only on a fresh proof or an unexpired link for
  that very object, once; minted proofs and links are accepted exactly while valid; the catalog survives
  crashes and concurrent updates, and an update always returns; publishing records exactly the copies that
  edges confirmed, maintenance restores the replication target or reports a shortfall and never loses an
  entry, purging a tag reaches every copy; concurrent misses ask the origin once, plus once for each task dropped while it asked, and tasks share a lock
  exactly when they ask for the same id. End to end: a copy confirmed over the mesh is found by a probe
  until it expires or is purged; a link printed by \<open>presign\<close> delivers the object over HTTP until it expires;
  an edge started over HTTP answers any sequence of requests with published bytes or none, and a
  client reads off the wire exactly what it answered. Further lemmas
  record where the code departs from its documentation: \<open>parse_range_plus_sign\<close>, \<open>parse_range_no_unit\<close>, \<open>parse_query_flag\<close>,
  \<open>select_keeps_duplicates\<close>, \<open>reassemble_span_panics\<close>, \<open>stealing_loses_update\<close>, \<open>hot_read_ignores_limit\<close>,
  \<open>wildcard_matches\<close>, \<open>status_ignores_probes\<close>.

  \<^bold>\<open>Concurrency.\<close> The mesh loop is one task. \<open>Server\<close> and \<open>Http_Edge\<close> take HTTP requests one after the
  other; \<open>Http_Concurrent\<close> interleaves any number of requests for any ids at the points where the code
  awaits, clients going away included, and shows safety, single use of proofs under races, and freedom from
  deadlock; \<open>Single_Flight\<close> looks at the tasks that ask for one id and counts what they ask of the origin;
  \<open>Inflight\<close> shows that the map of locks, pruned as it grows, gives one lock per id.
  \<open>Catalog_Lock\<close> interleaves processes at each file operation, I/O errors included.

  \<^bold>\<open>Not modelled.\<close> Sockets and connection handling (the listener of \<open>run\<close>, the limits that \<open>hardened_http1\<close> sets
  in \<open>hyper\<close>, the test listener \<open>spawn\<close>), what \<open>clap\<close> makes of the arguments, what the commands other than \<open>ls\<close>
  print, logging, what happens while a loop sleeps (a parameter), the JSON codecs with the unit tests that
  only exercise them, the tests of the clock and of signed requests over a socket (what they check is proved in
  general), and the integration test, which drives a running node over the network.
\<close>

end
